(* ===== verification/Prelude.thy ===== *)
theory Prelude
  imports Main "HOL-Library.Word" "HOL-Library.Monad_Syntax"
begin

text \<open>
  Shared vocabulary of the development: the machine integers of the kernel (\<open>usize\<close> is
  64 bits wide on both targets), the conventions for Rust results, the iterator functions
  the sources use, and the generic facts on lists and words the components share.

  Conventions.
  \<^item> Arithmetic on \<open>usize\<close>, \<open>u64\<close>, \<open>u32\<close> wraps around, as it does in the release profile
    (no \<open>overflow-checks\<close>); \<open>checked_add\<close> and \<open>checked_sub\<close> return an option.
  \<^item> A function that can hit \<open>assert!\<close>, \<open>panic!\<close> or an index out of range has an outer
    \<open>option\<close> (\<open>'a panicking\<close>): the value \<open>None\<close> is the panic, and \<open>do\<close>-notation propagates it.
  \<^item> A \<open>Mutex\<close>-protected static is a component of the state the function takes and returns.
\<close>

unbundle bit_operations_syntax

type_synonym u8 = "8 word"
type_synonym u16 = "16 word"
type_synonym u32 = "32 word"
type_synonym u64 = "64 word"
type_synonym usize = "64 word"
type_synonym 'a panicking = "'a option"

named_theorems word_nat \<open>natural-number readings of word operations\<close>

subsection \<open>Integer and iterator functions of the standard library\<close>

definition checked_add :: "'a::len word \<Rightarrow> 'a word \<Rightarrow> 'a word option" where
  "checked_add a b = (if unat a + unat b < 2 ^ LENGTH('a) then Some (a + b) else None)"

definition checked_sub :: "'a::len word \<Rightarrow> 'a word \<Rightarrow> 'a word option" where
  "checked_sub a b = (if b \<le> a then Some (a - b) else None)"

definition checked_mul :: "'a::len word \<Rightarrow> 'a word \<Rightarrow> 'a word option" where
  "checked_mul a b = (if unat a * unat b < 2 ^ LENGTH('a) then Some (a * b) else None)"

fun tz_from :: "'a::len word \<Rightarrow> nat \<Rightarrow> nat \<Rightarrow> nat" where
  "tz_from w i 0 = i"
| "tz_from w i (Suc k) = (if bit w i then i else tz_from w (Suc i) k)"

definition trailing_zeros :: "'a::len word \<Rightarrow> nat" where
  "trailing_zeros w = tz_from w 0 LENGTH('a)"

fun lz_upto :: "'a::len word \<Rightarrow> nat \<Rightarrow> nat" where
  "lz_upto w 0 = 0"
| "lz_upto w (Suc k) = (if bit w k then 0 else Suc (lz_upto w k))"

definition leading_zeros :: "'a::len word \<Rightarrow> nat" where
  "leading_zeros w = lz_upto w LENGTH('a)"

text \<open>\<open>Iterator::position\<close>: the index of the first element that satisfies the predicate.\<close>

fun position :: "('a \<Rightarrow> bool) \<Rightarrow> 'a list \<Rightarrow> nat option" where
  "position p [] = None"
| "position p (x # xs) = (if p x then Some 0 else map_option Suc (position p xs))"

text \<open>\<open>Vec::resize\<close>.\<close>

definition resize :: "'a list \<Rightarrow> nat \<Rightarrow> 'a \<Rightarrow> 'a list" where
  "resize xs n v = (if n \<le> length xs then take n xs else xs @ replicate (n - length xs) v)"

subsection \<open>Lists\<close>

lemma position_None_iff: "position p xs = None \<longleftrightarrow> (\<forall>x \<in> set xs. \<not> p x)"
  by (induction xs) auto

lemma position_Some_iff:
  "position p xs = Some i \<longleftrightarrow> i < length xs \<and> p (xs ! i) \<and> (\<forall>j < i. \<not> p (xs ! j))"
proof (induction xs arbitrary: i)
  case Nil
  then show ?case by simp
next
  case (Cons x xs)
  show ?case
    by (cases i) (auto simp: Cons.IH less_Suc_eq_0_disj)
qed

lemma position_update_same: "p v = p (xs ! i) \<Longrightarrow> position p (xs[i := v]) = position p xs"
  by (induction xs arbitrary: i) (auto split: nat.splits)

lemma position_replicate [simp]: "position P (replicate n x) = (if P x \<and> n \<noteq> 0 then Some 0 else None)"
  by (cases n) (auto simp: position_None_iff)

lemma position_SomeD:
  assumes "position p xs = Some i"
  shows "i < length xs" "p (xs ! i)" "j < i \<Longrightarrow> \<not> p (xs ! j)"
  using assms by (auto simp: position_Some_iff)

lemma position_ex: "x \<in> set xs \<Longrightarrow> p x \<Longrightarrow> \<exists>i. position p xs = Some i"
  by (cases "position p xs") (auto simp: position_None_iff)

lemma length_resize [simp]: "length (resize xs n v) = n"
  by (simp add: resize_def)

lemma nth_resize:
  "i < n \<Longrightarrow> resize xs n v ! i = (if i < length xs then xs ! i else v)"
  by (auto simp: resize_def nth_append)

lemma set_update_subset: "P x \<Longrightarrow> (\<And>y. y \<in> set xs \<Longrightarrow> P y) \<Longrightarrow> y \<in> set (xs[i := x]) \<Longrightarrow> P y"
  using set_update_subset_insert[of xs i x] by auto

subsection \<open>Words as natural numbers\<close>

lemma unat_lt_usize [simp]: "unat (a :: usize) < 18446744073709551616"
  using unsigned_less[of a] by simp

lemma bit_odd_unat:
  fixes a :: "'a::len word"
  shows "bit a n \<longleftrightarrow> odd (unat a div 2 ^ n)"
proof -
  have "bit (unat a) n = bit a n" by (simp add: bit_unsigned_iff)
  then show ?thesis by (simp add: bit_iff_odd)
qed

lemma and_not_mask_eq:
  fixes v :: "'a::len word"
  shows "v AND NOT (mask n) = v - take_bit n v"
proof -
  have "v - take_bit n v = v AND NOT (take_bit n v)"
    by (rule disjunctive_diff) (simp add: bit_take_bit_iff)
  also have "\<dots> = v AND NOT (mask n)"
    by (rule bit_word_eqI) (auto simp: bit_and_iff bit_not_iff bit_take_bit_iff bit_mask_iff)
  finally show ?thesis ..
qed

lemma unat_take_bit: "unat (take_bit n (v :: 'a::len word)) = unat v mod 2 ^ n"
  by (subst unsigned_take_bit_eq) (simp add: take_bit_eq_mod)

lemma unat_and_not_mask:
  fixes v :: "'a::len word"
  shows "unat (v AND NOT (mask n)) = unat v - unat v mod 2 ^ n"
proof -
  have "take_bit n v \<le> v"
    by (metis take_bit_eq_mask word_and_le2)
  then show ?thesis
    by (simp add: and_not_mask_eq unat_sub unat_take_bit)
qed

lemma xor_bit_eq:
  fixes a :: "'a::len word"
  shows "a XOR 2 ^ n = (if bit a n then a - 2 ^ n else a + 2 ^ n)"
proof -
  have "a XOR 2 ^ n = flip_bit n a"
    by (simp add: flip_bit_eq_xor push_bit_eq_mult)
  also have "\<dots> = (if bit a n then unset_bit n a else set_bit n a)"
    by (simp add: flip_bit_eq_if)
  finally show ?thesis
    by (simp add: set_bit_eq unset_bit_eq)
qed

lemma aligned_block_fits:
  fixes a :: "'a::len word"
  assumes "2 ^ n dvd unat a" "n \<le> LENGTH('a)"
  shows "unat a + 2 ^ n \<le> 2 ^ LENGTH('a)"
proof -
  obtain k where k: "unat a = 2 ^ n * k" using assms by (auto elim: dvdE)
  have "unat a < 2 ^ n * 2 ^ (LENGTH('a) - n)"
    using unsigned_less[of a] assms by (simp flip: power_add)
  then have "k < 2 ^ (LENGTH('a) - n)" using k by simp
  then have "2 ^ n * (k + 1) \<le> 2 ^ n * 2 ^ (LENGTH('a) - n)"
    by (intro mult_le_mono2) simp
  then show ?thesis using k assms by (simp flip: power_add)
qed

lemma unat_pow2: "n < LENGTH('a) \<Longrightarrow> unat (2 ^ n :: 'a::len word) = 2 ^ n"
  by transfer (simp add: take_bit_int_eq_self nat_power_eq)

lemma unat_add_nowrap:
  fixes a b :: "'a::len word"
  shows "unat a + unat b < 2 ^ LENGTH('a) \<Longrightarrow> unat (a + b) = unat a + unat b"
  by (simp add: unat_word_ariths)

lemma checked_add_Some [word_nat]:
  "checked_add a b = Some c \<Longrightarrow> unat c = unat a + unat b"
  by (auto simp: checked_add_def unat_add_nowrap split: if_splits)

lemma checked_add_None:
  "checked_add (a :: 'a::len word) b = None \<longleftrightarrow> 2 ^ LENGTH('a) \<le> unat a + unat b"
  by (simp add: checked_add_def not_less)

end
