(* ===== verification/Kernel_Lib.thy ===== *)
theory Kernel_Lib
  imports Prelude
begin

text \<open>
  The shared library crate (\<open>src/lib/src\<close>): address alignment, the fixed-size bitmap and the
  single-producer single-consumer ring buffer. The ring buffer is stated to implement an
  abstract bounded first-in first-out queue (the locale \<open>bounded_fifo\<close>), the interface that
  the message queue of an IPC port offers too.
\<close>

subsection \<open>Alignment\<close>

definition align_up :: "usize \<Rightarrow> usize \<Rightarrow> usize" where
  "align_up value align = (value + align - 1) AND NOT (align - 1)"

definition align_down :: "usize \<Rightarrow> usize \<Rightarrow> usize" where
  "align_down value align = value AND NOT (align - 1)"

lemma pow2_minus_1: "(2 ^ n :: 'a::len word) - 1 = mask n"
  by (simp add: mask_eq_exp_minus_1)

lemma unat_align_down [word_nat]:
  "unat (align_down v (2 ^ n)) = unat v - unat v mod 2 ^ n"
  by (simp add: align_down_def pow2_minus_1 unat_and_not_mask)

lemma align_down_dvd: "2 ^ n dvd unat (align_down v (2 ^ n))"
  by (simp add: unat_align_down dvd_minus_mod)

lemma align_down_le: "unat (align_down v (2 ^ n)) \<le> unat v"
  by (simp add: unat_align_down)

lemma unat_align_up:
  assumes "n < 64" "unat v + 2 ^ n \<le> 2 ^ 64"
  shows "unat (align_up v (2 ^ n)) = (unat v + 2 ^ n - 1) - (unat v + 2 ^ n - 1) mod 2 ^ n"
proof -
  have eq: "v + 2 ^ n - 1 = v + mask n"
    by (simp add: mask_eq_exp_minus_1)
  have m: "unat (mask n :: usize) = 2 ^ n - 1"
    using assms(1) by (simp add: mask_eq_exp_minus_1 unat_sub_if_size word_le_nat_alt unat_pow2 wsst_TYs(3))
  have "unat (v + mask n) = unat v + 2 ^ n - 1"
    using assms m by (subst unat_add_nowrap) auto
  then show ?thesis
    by (simp add: align_up_def pow2_minus_1 eq unat_and_not_mask)
qed

lemma align_up_dvd: "2 ^ n dvd unat (align_up v (2 ^ n))"
  by (simp add: align_up_def pow2_minus_1 unat_and_not_mask dvd_minus_mod)

lemma align_up_bounds:
  assumes "n < 64" "unat v + 2 ^ n \<le> 2 ^ 64"
  shows "unat v \<le> unat (align_up v (2 ^ n))" "unat (align_up v (2 ^ n)) < unat v + 2 ^ n"
proof -
  let ?x = "unat v + 2 ^ n - 1" and ?m = "2 ^ n :: nat"
  have "?x mod ?m < ?m" by simp
  then have "?x mod ?m \<le> ?m - 1" by linarith
  then show "unat v \<le> unat (align_up v (2 ^ n))"
    by (simp add: unat_align_up[OF assms] le_diff_conv2) 
  show "unat (align_up v (2 ^ n)) < unat v + 2 ^ n"
    by (simp add: unat_align_up[OF assms] less_imp_diff_less)
qed


subsection \<open>Bitmap\<close>

text \<open>
  \<open>Bitmap<N>\<close> is an array of \<open>N\<close> words; a bit number past the capacity is an index out of
  range of \<open>words\<close>, which panics.
\<close>

type_synonym bitmap = "u64 list"

definition bitmap_new :: "nat \<Rightarrow> bitmap" where
  "bitmap_new n = replicate n 0"

definition bitmap_set :: "bitmap \<Rightarrow> nat \<Rightarrow> bitmap panicking" where
  "bitmap_set ws b =
     (if b div 64 < length ws
      then Some (ws[b div 64 := ws ! (b div 64) OR push_bit (b mod 64) 1]) else None)"

definition bitmap_clear :: "bitmap \<Rightarrow> nat \<Rightarrow> bitmap panicking" where
  "bitmap_clear ws b =
     (if b div 64 < length ws
      then Some (ws[b div 64 := ws ! (b div 64) AND NOT (push_bit (b mod 64) 1)]) else None)"

definition bitmap_get :: "bitmap \<Rightarrow> nat \<Rightarrow> bool panicking" where
  "bitmap_get ws b =
     (if b div 64 < length ws
      then Some (drop_bit (b mod 64) (ws ! (b div 64)) AND 1 \<noteq> 0) else None)"

definition trailing_ones :: "u64 \<Rightarrow> nat" where
  "trailing_ones w = trailing_zeros (NOT w)"

fun first_clear_from :: "nat \<Rightarrow> bitmap \<Rightarrow> nat option" where
  "first_clear_from i [] = None"
| "first_clear_from i (w # ws) =
     (if w \<noteq> NOT 0 then Some (i * 64 + trailing_ones w) else first_clear_from (Suc i) ws)"

definition bitmap_first_clear :: "bitmap \<Rightarrow> nat option" where
  "bitmap_first_clear ws = first_clear_from 0 ws"

definition bitmap_capacity :: "bitmap \<Rightarrow> nat" where
  "bitmap_capacity ws = length ws * 64"

text \<open>The set of resources a bitmap marks as used.\<close>

definition used_bits :: "bitmap \<Rightarrow> nat set" where
  "used_bits ws = {b. b < bitmap_capacity ws \<and> bit (ws ! (b div 64)) (b mod 64)}"

lemma div64_lt_iff: "b div 64 < length ws \<longleftrightarrow> b < bitmap_capacity ws"
  by (auto simp: bitmap_capacity_def div_less_iff_less_mult)

lemma bit_test_iff: "n < 64 \<Longrightarrow> drop_bit n (w :: u64) AND 1 \<noteq> 0 \<longleftrightarrow> bit w n"
  by (simp add: and_one_eq bit_iff_odd_drop_bit flip: odd_iff_mod_2_eq_one)

lemma bitmap_get_iff:
  "bitmap_get ws b = Some True \<longleftrightarrow> b \<in> used_bits ws"
  "b < bitmap_capacity ws \<Longrightarrow> bitmap_get ws b = Some (b \<in> used_bits ws)"
  by (auto simp: bitmap_get_def used_bits_def div64_lt_iff bit_test_iff)

lemma div_mod_64_eq: "(b :: nat) div 64 = c div 64 \<Longrightarrow> c mod 64 = b mod 64 \<Longrightarrow> c = b"
  by (metis div_mod_decomp)

lemma used_bits_set:
  assumes "bitmap_set ws b = Some ws'"
  shows "used_bits ws' = insert b (used_bits ws)" "length ws' = length ws"
  using assms
  by (auto simp: bitmap_set_def used_bits_def bitmap_capacity_def nth_list_update bit_or_iff
      bit_push_bit_iff bit_exp_iff div_less_iff_less_mult split: if_splits dest: div_mod_64_eq)

lemma used_bits_clear:
  assumes "bitmap_clear ws b = Some ws'"
  shows "used_bits ws' = used_bits ws - {b}" "length ws' = length ws"
  using assms
  by (auto simp: bitmap_clear_def used_bits_def bitmap_capacity_def nth_list_update bit_and_iff
      bit_not_iff bit_push_bit_iff bit_exp_iff div_less_iff_less_mult split: if_splits dest: div_mod_64_eq)

lemma tz_from_bounds: "i \<le> tz_from w i k \<and> tz_from w i k \<le> i + k"
  by (induction w i k rule: tz_from.induct) (auto intro: Suc_leD)

lemma tz_from_below: "i \<le> j \<Longrightarrow> j < tz_from w i k \<Longrightarrow> \<not> bit w j"
  by (induction w i k rule: tz_from.induct) (auto split: if_splits, metis le_antisym not_less_eq_eq)

lemma tz_from_hit: "i \<le> j \<Longrightarrow> j < i + k \<Longrightarrow> bit w j \<Longrightarrow> bit w (tz_from w i k)"
  by (induction w i k rule: tz_from.induct) (auto, metis le_antisym not_less_eq_eq)

lemma trailing_zeros_props:
  fixes w :: "'a::len word"
  shows "trailing_zeros w \<le> LENGTH('a)"
    and "j < trailing_zeros w \<Longrightarrow> \<not> bit w j"
    and "w \<noteq> 0 \<Longrightarrow> bit w (trailing_zeros w)"
proof -
  show "trailing_zeros w \<le> LENGTH('a)"
    using tz_from_bounds[of 0 w "LENGTH('a)"] by (simp add: trailing_zeros_def)
  show "j < trailing_zeros w \<Longrightarrow> \<not> bit w j"
    using tz_from_below[of 0 j w "LENGTH('a)"] by (simp add: trailing_zeros_def)
  assume "w \<noteq> 0"
  then obtain j where j: "bit w j" by (auto simp: bit_eq_iff)
  then have "j < LENGTH('a)" by (rule bit_imp_le_length)
  then show "bit w (trailing_zeros w)"
    using tz_from_hit[of 0 j "LENGTH('a)" w] j by (simp add: trailing_zeros_def)
qed

lemma trailing_zeros_dvd:
  fixes w :: "'a::len word"
  assumes "i \<le> trailing_zeros w"
  shows "2 ^ i dvd unat w"
proof -
  have "take_bit i (unat w) = 0"
  proof (rule bit_eqI)
    fix n show "bit (take_bit i (unat w)) n = bit 0 n"
      using trailing_zeros_props(2)[of n w] assms by (auto simp: bit_take_bit_iff bit_unsigned_iff)
  qed
  then show ?thesis by (simp add: take_bit_eq_mod mod_eq_0_iff_dvd)
qed

lemma bit_imp_le: "bit (w :: 'a::len word) i \<Longrightarrow> 2 ^ i \<le> unat w"
  by (rule ccontr) (simp add: bit_odd_unat)

lemma lz_upto_bit: "\<exists>i < k. bit w i \<Longrightarrow> lz_upto w k < k \<and> bit w (k - 1 - lz_upto w k)"
proof (induction k)
  case (Suc k)
  show ?case
  proof (cases "bit w k")
    case False
    then have "\<exists>i < k. bit w i" using Suc.prems by (auto simp: less_Suc_eq)
    then show ?thesis using Suc.IH False by simp
  qed simp
qed simp

lemma leading_zeros_le:
  fixes w :: "'a::len word"
  assumes "w \<noteq> 0"
  shows "leading_zeros w < LENGTH('a)" "2 ^ (LENGTH('a) - 1 - leading_zeros w) \<le> unat w"
proof -
  have "\<exists>i < LENGTH('a). bit w i"
    using assms by (metis bit_imp_le_length bit_word_eqI bit_0_eq bot_apply bot_bool_def)
  from lz_upto_bit[OF this]
  show "leading_zeros w < LENGTH('a)" "2 ^ (LENGTH('a) - 1 - leading_zeros w) \<le> unat w"
    by (auto simp: leading_zeros_def bit_imp_le)
qed

lemma unat_floor_log: "k < 64 \<Longrightarrow> unat (63 - of_nat k :: u32) = 63 - k"
proof -
  assume k: "k < 64"
  then have "unat (of_nat k :: u32) = k" by (simp add: unsigned_of_nat take_bit_nat_eq_self)
  then show ?thesis using k by (simp add: unat_sub word_le_nat_alt)
qed

lemma trailing_zeros_ge:
  fixes w :: "'a::len word"
  assumes "2 ^ i dvd unat w" "i \<le> LENGTH('a)"
  shows "i \<le> trailing_zeros w"
proof (rule ccontr)
  assume lt: "\<not> i \<le> trailing_zeros w"
  have "\<not> bit w n" if "n < i" for n
  proof -
    have "2 ^ Suc n dvd (2 :: nat) ^ i" by (rule le_imp_power_dvd) (use that in simp)
    then have "2 ^ Suc n dvd unat w" using assms(1) by (rule dvd_trans)
    then show ?thesis by (auto simp: bit_odd_unat elim!: dvdE)
  qed
  then have "w = 0" using trailing_zeros_props(3)[of w] lt by auto
  then have "\<not> bit w n" for n by simp
  then have "tz_from w n k = n + k" for n k by (induction k arbitrary: n) auto
  then show False using lt assms(2) by (simp add: trailing_zeros_def)
qed

lemma lz_upto_clear: "k - lz_upto w k \<le> j \<Longrightarrow> j < k \<Longrightarrow> \<not> bit w j"
  by (induction k) (auto simp: less_Suc_eq split: if_splits)

lemma leading_zeros_ge:
  fixes w :: "'a::len word"
  assumes "2 ^ i \<le> unat w"
  shows "i \<le> LENGTH('a) - 1 - leading_zeros w"
proof -
  have "\<exists>j \<ge> i. bit w j"
  proof (rule ccontr)
    assume "\<not> (\<exists>j \<ge> i. bit w j)"
    then have "take_bit i w = w" by (intro bit_word_eqI) (auto simp: bit_take_bit_iff, meson not_le)
    then have "unat w = take_bit i (unat w)" by (metis unsigned_take_bit_eq)
    then show False using assms by (metis not_le take_bit_nat_less_exp)
  qed
  then obtain j where j: "i \<le> j" "bit w j" by auto
  then show ?thesis
    using lz_upto_clear[of "LENGTH('a)" w j] bit_imp_le_length[OF j(2)] by (fastforce simp: leading_zeros_def)
qed

lemma first_clear_from_Some:
  assumes "first_clear_from i ws = Some b"
  shows "\<exists>k < length ws. b = (i + k) * 64 + trailing_ones (ws ! k) \<and> ws ! k \<noteq> NOT 0
     \<and> (\<forall>j < k. ws ! j = NOT 0)"
  using assms
proof (induction i ws rule: first_clear_from.induct)
  case (1 i)
  then show ?case by simp
next
  case (2 i w ws)
  show ?case
  proof (cases "w \<noteq> NOT 0")
    case True
    with 2 show ?thesis by (intro exI[of _ 0]) auto
  next
    case False
    with 2 obtain k where "k < length ws" "b = (Suc i + k) * 64 + trailing_ones (ws ! k)"
      "ws ! k \<noteq> NOT 0" "\<forall>j < k. ws ! j = NOT 0"
      by auto
    with False show ?thesis
      by (intro exI[of _ "Suc k"]) (auto simp: less_Suc_eq_0_disj)
  qed
qed

lemma first_clear_from_None: "first_clear_from i ws = None \<longleftrightarrow> (\<forall>w \<in> set ws. w = NOT 0)"
  by (induction i ws rule: first_clear_from.induct) auto

lemma bit_all_ones: "bit (NOT 0 :: u64) n \<longleftrightarrow> n < 64"
  by (simp add: bit_not_iff)

lemma trailing_ones_props:
  assumes "w \<noteq> NOT 0"
  shows "trailing_ones w < 64" "\<not> bit w (trailing_ones w)"
    "j < trailing_ones w \<Longrightarrow> bit w j"
proof -
  have nz: "NOT w \<noteq> 0" using assms by (metis bit.double_compl)
  then have "bit (NOT w) (trailing_ones w)"
    by (simp add: trailing_ones_def trailing_zeros_props(3))
  then show lt: "trailing_ones w < 64" and "\<not> bit w (trailing_ones w)"
    using bit_imp_le_length[of "NOT w"] by (auto simp: bit_not_iff)
  assume "j < trailing_ones w"
  then show "bit w j"
    using lt trailing_zeros_props(2)[of j "NOT w"] by (auto simp: bit_not_iff trailing_ones_def)
qed

lemma first_clear_correct:
  assumes "bitmap_first_clear ws = Some b"
  shows "b < bitmap_capacity ws" "b \<notin> used_bits ws" "c < b \<Longrightarrow> c \<in> used_bits ws"
proof -
  obtain k where k: "k < length ws" "b = k * 64 + trailing_ones (ws ! k)"
    "ws ! k \<noteq> NOT 0" "\<And>j. j < k \<Longrightarrow> ws ! j = NOT 0"
    using first_clear_from_Some[OF assms[unfolded bitmap_first_clear_def]] by auto
  note t = trailing_ones_props[OF k(3)]
  have b: "b div 64 = k" "b mod 64 = trailing_ones (ws ! k)"
    using t(1) k(2) by auto
  show cap: "b < bitmap_capacity ws"
    using b(1) k(1) by (simp flip: div64_lt_iff)
  show "b \<notin> used_bits ws"
    using t(2) by (simp add: used_bits_def b)
  assume c: "c < b"
  then have "c div 64 \<le> k" using b(1) div_le_mono[of c b 64] by simp
  then consider "c div 64 < k" | "c div 64 = k" by linarith
  then show "c \<in> used_bits ws"
  proof cases
    case 1
    then show ?thesis using c cap k(4) by (simp add: used_bits_def bit_all_ones)
  next
    case 2
    then have "c mod 64 < trailing_ones (ws ! k)"
      using c b k(2) by (metis add_less_cancel_left div_mult_mod_eq)
    then show ?thesis using c cap 2 t(3) by (simp add: used_bits_def)
  qed
qed

lemma first_clear_None_iff:
  "bitmap_first_clear ws = None \<longleftrightarrow> used_bits ws = {..< bitmap_capacity ws}"
proof
  assume "bitmap_first_clear ws = None"
  then have "\<forall>k < length ws. ws ! k = NOT 0"
    by (simp add: bitmap_first_clear_def first_clear_from_None)
  then show "used_bits ws = {..< bitmap_capacity ws}"
    by (auto simp: used_bits_def bit_all_ones simp flip: div64_lt_iff)
next
  assume full: "used_bits ws = {..< bitmap_capacity ws}"
  show "bitmap_first_clear ws = None"
  proof (rule ccontr)
    assume "bitmap_first_clear ws \<noteq> None"
    then obtain b where "bitmap_first_clear ws = Some b" by auto
    from first_clear_correct(1,2)[OF this] full show False by auto
  qed
qed


subsection \<open>The bounded queue interface\<close>

text \<open>
  A client of a bounded queue offers elements and takes them out. \<open>fifo_run\<close> replays a
  sequence of client calls and collects what the queue accepted and what it delivered.
\<close>

datatype 'a fifo_op = Offer 'a | Take

fun fifo_run ::
  "('a \<Rightarrow> 'q \<Rightarrow> bool \<times> 'q) \<Rightarrow> ('q \<Rightarrow> 'a option \<times> 'q) \<Rightarrow> 'a fifo_op list \<Rightarrow> 'q
   \<Rightarrow> 'a list \<times> 'a list \<times> 'q" where
  "fifo_run enq deq [] q = ([], [], q)"
| "fifo_run enq deq (Offer x # ops) q =
     (let (ok, q') = enq x q; (accepted, delivered, q'') = fifo_run enq deq ops q'
      in (if ok then x # accepted else accepted, delivered, q''))"
| "fifo_run enq deq (Take # ops) q =
     (let (r, q') = deq q; (accepted, delivered, q'') = fifo_run enq deq ops q'
      in (accepted, (case r of None \<Rightarrow> delivered | Some y \<Rightarrow> y # delivered), q''))"

locale bounded_fifo =
  fixes enq :: "'a \<Rightarrow> 'q \<Rightarrow> bool \<times> 'q"
    and deq :: "'q \<Rightarrow> 'a option \<times> 'q"
    and items :: "'q \<Rightarrow> 'a list"
    and invar :: "'q \<Rightarrow> bool"
    and cap :: "'q \<Rightarrow> nat"
  assumes enq_room: "invar q \<Longrightarrow> length (items q) < cap q \<Longrightarrow>
      fst (enq x q) \<and> items (snd (enq x q)) = items q @ [x]"
    and enq_full: "invar q \<Longrightarrow> cap q \<le> length (items q) \<Longrightarrow> enq x q = (False, q)"
    and deq_empty: "invar q \<Longrightarrow> items q = [] \<Longrightarrow> deq q = (None, q)"
    and deq_some: "invar q \<Longrightarrow> items q = x # xs \<Longrightarrow>
      fst (deq q) = Some x \<and> items (snd (deq q)) = xs"
    and enq_invar: "invar q \<Longrightarrow> invar (snd (enq x q)) \<and> cap (snd (enq x q)) = cap q"
    and deq_invar: "invar q \<Longrightarrow> invar (snd (deq q)) \<and> cap (snd (deq q)) = cap q"
    and items_cap: "invar q \<Longrightarrow> length (items q) \<le> cap q"
begin

lemma enq_accepts_iff: "invar q \<Longrightarrow> fst (enq x q) \<longleftrightarrow> length (items q) < cap q"
  using enq_room[of q x] enq_full[of q x] by (cases "length (items q) < cap q") auto

lemma enq_items:
  "invar q \<Longrightarrow> items (snd (enq x q)) = (if fst (enq x q) then items q @ [x] else items q)"
  using enq_room[of q x] enq_full[of q x] by (cases "length (items q) < cap q") auto

lemma deq_items:
  "invar q \<Longrightarrow> items q = (case fst (deq q) of None \<Rightarrow> [] | Some y \<Rightarrow> [y]) @ items (snd (deq q))"
  by (cases "items q") (auto simp: deq_empty dest!: deq_some split: option.split)

text \<open>No element is lost, duplicated, invented or reordered.\<close>

lemma run_conserves:
  assumes "invar q" "fifo_run enq deq ops q = (accepted, delivered, q')"
  shows "items q @ accepted = delivered @ items q' \<and> invar q' \<and> cap q' = cap q"
  using assms
proof (induction ops arbitrary: q accepted delivered q')
  case Nil
  then show ?case by simp
next
  case (Cons op ops)
  show ?case
  proof (cases op)
    case (Offer x)
    obtain ok q1 where e: "enq x q = (ok, q1)" by fastforce
    obtain a d q2 where r: "fifo_run enq deq ops q1 = (a, d, q2)" by (metis prod_cases3)
    from Cons.prems(2) Offer e r have
      eqs: "accepted = (if ok then x # a else a)" "delivered = d" "q' = q2" by auto
    have "items q1 @ a = d @ items q2 \<and> invar q2 \<and> cap q2 = cap q1"
      using Cons.IH[OF _ r] enq_invar[OF Cons.prems(1), of x] e by simp
    then show ?thesis
      using enq_items[OF Cons.prems(1), of x] enq_invar[OF Cons.prems(1), of x] e eqs
      by (auto split: if_splits)
  next
    case Take
    obtain v q1 where e: "deq q = (v, q1)" by fastforce
    obtain a d q2 where r: "fifo_run enq deq ops q1 = (a, d, q2)" by (metis prod_cases3)
    from Cons.prems(2) Take e r have
      eqs: "accepted = a" "delivered = (case v of None \<Rightarrow> d | Some y \<Rightarrow> y # d)" "q' = q2" by auto
    have "items q1 @ a = d @ items q2 \<and> invar q2 \<and> cap q2 = cap q1"
      using Cons.IH[OF _ r] deq_invar[OF Cons.prems(1)] e by simp
    then show ?thesis
      using deq_items[OF Cons.prems(1)] deq_invar[OF Cons.prems(1)] e eqs
      by (auto split: option.splits)
  qed
qed

end

subsection \<open>Ring buffer\<close>

record 'a ring_buffer =
  buf :: "'a option list"
  head :: nat
  tail :: nat

definition ring_new :: "nat \<Rightarrow> 'a ring_buffer" where
  "ring_new n = \<lparr>buf = replicate n None, head = 0, tail = 0\<rparr>"

definition ring_push :: "'a \<Rightarrow> 'a ring_buffer \<Rightarrow> bool \<times> 'a ring_buffer" where
  "ring_push val r =
     (let next = (tail r + 1) mod length (buf r)
      in if next = head r then (False, r)
         else (True, r\<lparr>buf := (buf r)[tail r := Some val], tail := next\<rparr>))"

definition ring_pop :: "'a ring_buffer \<Rightarrow> 'a option \<times> 'a ring_buffer" where
  "ring_pop r =
     (if head r = tail r then (None, r)
      else (buf r ! head r,
            r\<lparr>buf := (buf r)[head r := None], head := (head r + 1) mod length (buf r)\<rparr>))"

definition ring_is_empty :: "'a ring_buffer \<Rightarrow> bool" where
  "ring_is_empty r \<longleftrightarrow> head r = tail r"

text \<open>The queue a ring stands for: the occupied slots, from \<open>head\<close> up to \<open>tail\<close> around the array.\<close>

definition ring_len :: "'a ring_buffer \<Rightarrow> nat" where
  "ring_len r = (tail r + length (buf r) - head r) mod length (buf r)"

definition ring_items :: "'a ring_buffer \<Rightarrow> 'a list" where
  "ring_items r = map (\<lambda>i. the (buf r ! ((head r + i) mod length (buf r)))) [0..<ring_len r]"

definition ring_invar :: "'a ring_buffer \<Rightarrow> bool" where
  "ring_invar r \<longleftrightarrow> head r < length (buf r) \<and> tail r < length (buf r)
     \<and> (\<forall>i < ring_len r. buf r ! ((head r + i) mod length (buf r)) \<noteq> None)"

definition ring_cap :: "'a ring_buffer \<Rightarrow> nat" where
  "ring_cap r = length (buf r) - 1"

lemma ring_new_invar: "0 < n \<Longrightarrow> ring_invar (ring_new n) \<and> ring_items (ring_new n) = []"
  by (simp add: ring_invar_def ring_new_def ring_len_def ring_items_def)

lemma length_ring_items [simp]: "length (ring_items r) = ring_len r"
  by (simp add: ring_items_def)

lemma ring_len_lt: "ring_invar r \<Longrightarrow> ring_len r < length (buf r)"
  unfolding ring_len_def by (rule mod_less_divisor) (auto simp: ring_invar_def)

lemma ring_tail_eq: "ring_invar r \<Longrightarrow> tail r = (head r + ring_len r) mod length (buf r)"
  by (auto simp: ring_len_def ring_invar_def mod_simps)

lemma ring_slot_inj:
  assumes "h < (n::nat)" "i < n" "j < n" "(h + i) mod n = (h + j) mod n"
  shows "i = j"
proof -
  have "i mod n = j mod n"
    using assms(4) by (simp add: nat_mod_eq_iff)
  then show ?thesis using assms by simp
qed

lemma ring_len_if:
  "head r < length (buf r) \<Longrightarrow> tail r < length (buf r) \<Longrightarrow>
   ring_len r = (if head r \<le> tail r then tail r - head r else tail r + length (buf r) - head r)"
  by (auto simp: ring_len_def le_mod_geq)

lemma Suc_mod_if: "k < n \<Longrightarrow> Suc k mod n = (if Suc k = n then 0 else Suc k)"
  by auto

lemma ring_push_full_iff:
  assumes "ring_invar r"
  shows "(tail r + 1) mod length (buf r) = head r \<longleftrightarrow> ring_len r = ring_cap r"
proof -
  let ?n = "length (buf r)"
  have n: "head r < ?n" "tail r < ?n" using assms by (auto simp: ring_invar_def)
  show ?thesis
    using n by (auto simp: ring_len_if ring_cap_def Suc_mod_if)
qed


lemma ring_push_room:
  assumes inv: "ring_invar r" and room: "ring_len r < ring_cap r"
  shows "fst (ring_push x r)" "ring_items (snd (ring_push x r)) = ring_items r @ [x]"
    "ring_invar (snd (ring_push x r))"
proof -
  let ?n = "length (buf r)" and ?l = "ring_len r" and ?r = "snd (ring_push x r)"
  have n: "head r < ?n" "tail r < ?n" using inv by (auto simp: ring_invar_def)
  then have ne: "buf r \<noteq> []" by auto
  have nfull: "(tail r + 1) mod ?n \<noteq> head r"
    using ring_push_full_iff[OF inv] room by simp
  then show "fst (ring_push x r)" by (simp add: ring_push_def Let_def)
  have r': "?r = r\<lparr>buf := (buf r)[tail r := Some x], tail := (tail r + 1) mod ?n\<rparr>"
    using nfull by (simp add: ring_push_def Let_def)
  have len: "ring_len ?r = Suc ?l"
    using n ne nfull by (auto simp: r' ring_len_if Suc_mod_if split: if_splits)
  have old: "i < ?l \<Longrightarrow> buf ?r ! ((head r + i) mod ?n) = buf r ! ((head r + i) mod ?n)" for i
    using ring_slot_inj[OF n(1), of i ?l] ring_len_lt[OF inv] ring_tail_eq[OF inv]
    by (metis r' less_trans nat_neq_iff nth_list_update_neq ring_buffer.select_convs(1)
        ring_buffer.surjective ring_buffer.update_convs(1,3))
  have new: "buf ?r ! ((head r + ?l) mod ?n) = Some x"
    using n by (simp add: r' flip: ring_tail_eq[OF inv])
  show "ring_items ?r = ring_items r @ [x]"
    using old new by (simp add: ring_items_def len) (simp add: r')
  show "ring_invar ?r"
    using inv n ne old new unfolding ring_invar_def len by (auto simp: r' less_Suc_eq)
qed

lemma ring_pop_some:
  assumes inv: "ring_invar r" and ne: "ring_items r = x # xs"
  shows "fst (ring_pop r) = Some x" "ring_items (snd (ring_pop r)) = xs"
    "ring_invar (snd (ring_pop r))"
proof -
  let ?n = "length (buf r)" and ?l = "ring_len r" and ?r = "snd (ring_pop r)"
  have n: "head r < ?n" "tail r < ?n" using inv by (auto simp: ring_invar_def)
  then have ne0: "buf r \<noteq> []" by auto
  obtain l where l: "?l = Suc l" using ne length_ring_items[of r] by (cases "?l") auto
  then have ht: "head r \<noteq> tail r" using n by (auto simp: ring_len_def)
  have x: "x = the (buf r ! head r)"
    using ne n unfolding ring_items_def l by (simp add: upt_conv_Cons del: upt_Suc)
  have hd: "buf r ! head r \<noteq> None" using inv n l by (force simp: ring_invar_def)
  show "fst (ring_pop r) = Some x" using x hd ht by (simp add: ring_pop_def)
  have r': "?r = r\<lparr>buf := (buf r)[head r := None], head := (head r + 1) mod ?n\<rparr>"
    using ht by (simp add: ring_pop_def)
  have len: "ring_len ?r = l"
    using n ne0 ht l by (auto simp: r' ring_len_if Suc_mod_if split: if_splits)
  have slot: "((head r + 1) mod ?n + i) mod ?n = (head r + Suc i) mod ?n" for i
    by (simp add: mod_simps)
  have old: "i < l \<Longrightarrow> buf ?r ! ((head r + Suc i) mod ?n) = buf r ! ((head r + Suc i) mod ?n)" for i
    using ring_slot_inj[OF n(1), of "Suc i" 0] ring_len_lt[OF inv] l n ne0
    by (auto simp: r' nth_list_update)
  have "ring_items ?r = map (\<lambda>i. the (buf r ! ((head r + Suc i) mod ?n))) [0..<l]"
    using old slot by (simp add: ring_items_def len) (simp add: r')
  also have "\<dots> = tl (ring_items r)"
    by (rule nth_equalityI) (auto simp: ring_items_def l nth_tl simp del: upt_Suc)
  finally show "ring_items ?r = xs" using ne by simp
  show "ring_invar ?r"
    using inv n ne0 old slot unfolding ring_invar_def len l by (auto simp: r')
qed

interpretation ring: bounded_fifo ring_push ring_pop ring_items ring_invar ring_cap
proof (unfold_locales, goal_cases)
  case (1 q x)
  then show ?case using ring_push_room[of q x] by simp
next
  case (2 q x)
  then have "ring_len q = ring_cap q"
    using ring_len_lt[of q] by (simp add: ring_cap_def)
  then show ?case
    using ring_push_full_iff[OF 2(1)] by (simp add: ring_push_def)
next
  case (3 q)
  then have "ring_len q = 0" using length_ring_items[of q] by simp
  then have "head q = tail q"
    using ring_tail_eq[OF 3(1)] 3(1) by (simp add: ring_invar_def)
  then show ?case by (simp add: ring_pop_def)
next
  case (4 q x xs)
  then show ?case using ring_pop_some[of q x xs] by simp
next
  case (5 q x)
  have cap: "ring_cap (snd (ring_push x q)) = ring_cap q"
    by (simp add: ring_push_def ring_cap_def Let_def)
  show ?case
  proof (cases "ring_len q < ring_cap q")
    case True
    then show ?thesis using ring_push_room(3)[OF 5] cap by simp
  next
    case False
    then have "ring_len q = ring_cap q"
      using ring_len_lt[OF 5] by (simp add: ring_cap_def)
    then show ?thesis using 5 ring_push_full_iff[OF 5] by (simp add: ring_push_def)
  qed
next
  case (6 q)
  have cap: "ring_cap (snd (ring_pop q)) = ring_cap q"
    by (simp add: ring_pop_def ring_cap_def)
  show ?case
  proof (cases "ring_items q")
    case Nil
    then have "ring_len q = 0" using length_ring_items[of q] by simp
    then have "head q = tail q"
      using ring_tail_eq[OF 6] 6 by (simp add: ring_invar_def)
    then show ?thesis using 6 by (simp add: ring_pop_def)
  next
    case (Cons x xs)
    then show ?thesis using ring_pop_some(3)[OF 6 Cons] cap by simp
  qed
next
  case (7 q)
  then show ?case using ring_len_lt[of q] by (simp add: ring_cap_def)
qed


subsection \<open>Properties of the kernel library\<close>

text \<open>
  \<open>Bitmap::first_clear\<close> finds the lowest unused index exactly when there is one, and setting it
  never indexes out of range and marks that index and no other.
\<close>

theorem bitmap_allocates_lowest:
  "(case bitmap_first_clear ws of
      None \<Rightarrow> used_bits ws = {..< bitmap_capacity ws}
    | Some b \<Rightarrow> b < bitmap_capacity ws \<and> b \<notin> used_bits ws \<and> {..< b} \<subseteq> used_bits ws
        \<and> (case bitmap_set ws b of None \<Rightarrow> False
           | Some ws' \<Rightarrow> used_bits ws' = insert b (used_bits ws) \<and> length ws' = length ws))"
proof (cases "bitmap_first_clear ws")
  case None
  then have "used_bits ws = {..< bitmap_capacity ws}" by (simp only: first_clear_None_iff)
  then show ?thesis using None by (simp only: option.case)
next
  case (Some b)
  note fc = first_clear_correct[OF Some]
  have "b div 64 < length ws" using fc(1) by (simp add: bitmap_capacity_def div_less_iff_less_mult)
  then obtain ws' where "bitmap_set ws b = Some ws'" by (simp add: bitmap_set_def)
  then show ?thesis using Some fc used_bits_set[of ws b ws'] by auto
qed

text \<open>
  C33. Whatever sequence of pushes and pops a client makes, a ring buffer of \<open>n\<close> slots delivers the
  values it accepted in the order it accepted them, loses none, and never holds more than \<open>n - 1\<close>.
\<close>

theorem ring_buffer_fifo:
  fixes ops :: "'a fifo_op list"
  assumes "0 < n" "fifo_run ring_push ring_pop ops (ring_new n) = (accepted, delivered, r)"
  shows "accepted = delivered @ ring_items r \<and> length (ring_items r) \<le> n - 1"
proof -
  have "ring_items (ring_new n) @ accepted = delivered @ ring_items r \<and> ring_invar r
      \<and> ring_cap r = ring_cap (ring_new n :: 'a ring_buffer)"
    by (rule ring.run_conserves[OF _ assms(2)]) (simp add: ring_new_invar[OF assms(1)])
  then show ?thesis
    using ring_len_lt[of r] assms(1) by (auto simp: ring_cap_def ring_new_def ring_items_def ring_len_def)
qed

theorem ring_buffer_fifo_witness:
  "let ops = [Offer (1 :: nat), Offer 2, Offer 3, Take, Offer 4, Take];
       (accepted, delivered, r) = fifo_run ring_push ring_pop ops (ring_new 3)
   in accepted = [1, 2, 4] \<and> delivered = [1, 2] \<and> accepted = delivered @ ring_items r"
proof -
  let ?ops = "[Offer (1 :: nat), Offer 2, Offer 3, Take, Offer 4, Take]"
  obtain acc del r where e: "fifo_run ring_push ring_pop ?ops (ring_new 3) = (acc, del, r)"
    by (metis prod_cases3)
  have "fst (fifo_run ring_push ring_pop ?ops (ring_new 3)) = [1, 2, 4]
      \<and> fst (snd (fifo_run ring_push ring_pop ?ops (ring_new 3))) = [1, 2]"
    by code_simp
  then show ?thesis using ring_buffer_fifo[OF _ e] unfolding Let_def e by auto
qed

end
