(* ===== verification/Boot_Info.thy ===== *)
theory Boot_Info
  imports Prelude
begin

text \<open>
  The boot information every parser produces (\<open>src/boot/src/lib.rs\<close>): the kinds of physical
  memory, a memory-map entry, and the unified record the kernel is started with. The raw
  pointer and length of the memory map are the list they denote; the null pointer is the
  empty list, as \<open>memory_regions\<close> reads it.
\<close>

datatype memory_type = Available | Reserved | AcpiReclaimable | AcpiNvs | BadMemory

record memory_region =
  base :: u64
  length_of :: u64
  kind :: memory_type

record boot_info =
  memory_map :: "memory_region list"
  framebuffer_base :: u64
  framebuffer_width :: u32
  framebuffer_height :: u32
  framebuffer_pitch :: u32
  rsdp_addr :: u64
  uart_base :: u64
  initrd_base :: u64
  initrd_size :: u64
  hhdm_offset :: u64

definition total_available_memory :: "boot_info \<Rightarrow> u64" where
  "total_available_memory info =
     sum_list (map length_of (filter (\<lambda>r. kind r = Available) (memory_map info)))"

definition create_qemu_virt_default :: boot_info where
  "create_qemu_virt_default =
     \<lparr>memory_map = [\<lparr>base = 0x40000000, length_of = 0x10000000, kind = Available\<rparr>],
      framebuffer_base = 0, framebuffer_width = 0, framebuffer_height = 0,
      framebuffer_pitch = 0, rsdp_addr = 0, uart_base = 0x09000000,
      initrd_base = 0, initrd_size = 0, hhdm_offset = 0\<rparr>"

end
