(* ===== verification/Buddy.thy ===== *)
theory Buddy
  imports Kernel_Lib Boot_Info
begin

text \<open>
  The physical page allocator (\<open>src/mm/src/buddy.rs\<close>). A free list holds at most one block:
  its \<open>head\<close> is an optional address and nothing links a second block to it.
\<close>

definition PAGE_SIZE :: usize where
  "PAGE_SIZE = 4096"

definition MAX_ORDER :: nat where
  "MAX_ORDER = 11"

record buddy =
  free_lists :: "usize option list"
  free_pages :: usize
  total_pages :: usize

definition buddy_new :: buddy where
  "buddy_new = \<lparr>free_lists = replicate MAX_ORDER None, free_pages = 0, total_pages = 0\<rparr>"

abbreviation block_size :: "nat \<Rightarrow> usize" where
  "block_size order \<equiv> push_bit order PAGE_SIZE"

text \<open>\<open>alloc\<close>: the split loop \<open>for split in (order..o).rev()\<close>, then the upward scan.\<close>

fun split_down :: "usize \<Rightarrow> nat \<Rightarrow> nat \<Rightarrow> usize option list \<Rightarrow> usize option list" where
  "split_down addr order 0 ls = ls"
| "split_down addr order (Suc k) ls =
     split_down addr order k (ls[order + k := Some (addr + block_size (order + k))])"

fun alloc_scan :: "nat \<Rightarrow> nat \<Rightarrow> nat \<Rightarrow> usize option list \<Rightarrow> (usize \<times> usize option list) option" where
  "alloc_scan order o' 0 ls = None"
| "alloc_scan order o' (Suc k) ls =
     (case ls ! o' of
        Some addr \<Rightarrow> Some (addr, split_down addr order (o' - order) (ls[o' := None]))
      | None \<Rightarrow> alloc_scan order (Suc o') k ls)"

definition buddy_alloc :: "nat \<Rightarrow> buddy \<Rightarrow> (usize option \<times> buddy) panicking" where
  "buddy_alloc order s =
     (if order < MAX_ORDER
      then Some (case alloc_scan order order (MAX_ORDER - order) (free_lists s) of
             None \<Rightarrow> (None, s)
           | Some (addr, ls) \<Rightarrow>
               (Some addr, s\<lparr>free_lists := ls, free_pages := free_pages s - push_bit order 1\<rparr>))
      else None)"

text \<open>\<open>free\<close>: merge with the buddy while it heads its list, then store the block.\<close>

fun merge_up :: "nat \<Rightarrow> usize \<Rightarrow> nat \<Rightarrow> usize option list \<Rightarrow> usize \<times> nat \<times> usize option list" where
  "merge_up 0 current order ls = (current, order, ls)"
| "merge_up (Suc k) current order ls =
     (let buddy = current XOR block_size order
      in if ls ! order = Some buddy
         then merge_up k (min current buddy) (Suc order) (ls[order := None])
         else (current, order, ls))"

definition buddy_free :: "usize \<Rightarrow> nat \<Rightarrow> buddy \<Rightarrow> buddy panicking" where
  "buddy_free addr order s =
     (if order < MAX_ORDER
      then Some (case merge_up (MAX_ORDER - 1 - order) addr order (free_lists s) of
             (current, current_order, ls) \<Rightarrow>
               s\<lparr>free_lists := ls[current_order := Some current],
                 free_pages := free_pages s + push_bit order 1\<rparr>)
      else None)"

text \<open>
  \<open>init_from_map\<close>: the loop that releases one region. \<open>usize::BITS - 1 - leading_zeros\<close> is a
  \<open>u32\<close> subtraction that wraps when there is no remaining page; \<open>min\<close> then caps it.
\<close>

definition init_order :: "usize \<Rightarrow> usize \<Rightarrow> nat" where
  "init_order addr stop =
     (let remaining_pages = (stop - addr) div PAGE_SIZE;
          max_order = min (MAX_ORDER - 1) (unat (63 - of_nat (leading_zeros remaining_pages) :: u32));
          align_order = trailing_zeros (addr div PAGE_SIZE)
      in min max_order (min align_order (MAX_ORDER - 1)))"

partial_function (option) release_region :: "usize \<Rightarrow> usize \<Rightarrow> buddy \<Rightarrow> buddy option" where
  "release_region addr stop s =
     (if addr < stop
      then (let order = init_order addr stop
            in Option.bind (buddy_free addr order s)
                 (release_region (addr + block_size order) stop))
      else Some s)"

fun init_regions :: "memory_region list \<Rightarrow> buddy \<Rightarrow> buddy option" where
  "init_regions [] s = Some s"
| "init_regions (region # rs) s =
     (if kind region \<noteq> Available then init_regions rs s
      else (let start = align_up (base region) (block_size (MAX_ORDER - 1));
                stop = align_down (base region + length_of region) PAGE_SIZE
            in if start \<ge> stop then init_regions rs s
               else Option.bind (release_region start stop s) (init_regions rs)))"

definition init_from_map :: "memory_region list \<Rightarrow> buddy \<Rightarrow> buddy option" where
  "init_from_map rs s =
     map_option (\<lambda>s'. s'\<lparr>total_pages := free_pages s'\<rparr>) (init_regions rs s)"


subsection \<open>Blocks, free memory and the allocator's invariant\<close>

definition bsz :: "nat \<Rightarrow> nat" where
  "bsz order = 4096 * 2 ^ order"

definition blk :: "usize \<Rightarrow> nat \<Rightarrow> nat set" where
  "blk a order = {unat a ..< unat a + bsz order}"

definition slot_blk :: "usize option list \<Rightarrow> nat \<Rightarrow> nat set" where
  "slot_blk ls p = (case ls ! p of None \<Rightarrow> {} | Some a \<Rightarrow> blk a p)"

definition free_set :: "usize option list \<Rightarrow> nat set" where
  "free_set ls = (\<Union>p < MAX_ORDER. slot_blk ls p)"

definition lists_inv :: "usize option list \<Rightarrow> bool" where
  "lists_inv ls \<longleftrightarrow> length ls = MAX_ORDER
     \<and> (\<forall>p < MAX_ORDER. \<forall>a. ls ! p = Some a \<longrightarrow> bsz p dvd unat a)
     \<and> (\<forall>p < MAX_ORDER. \<forall>q < MAX_ORDER. p \<noteq> q \<longrightarrow> slot_blk ls p \<inter> slot_blk ls q = {})"

definition buddy_inv :: "buddy \<Rightarrow> bool" where
  "buddy_inv s \<longleftrightarrow> lists_inv (free_lists s)"

definition free_bytes :: "buddy \<Rightarrow> nat set" where
  "free_bytes s = free_set (free_lists s)"

lemma block_size_eq: "block_size p = 2 ^ (12 + p)"
  by (simp add: PAGE_SIZE_def push_bit_eq_mult power_add)

lemma unat_block_size: "p < MAX_ORDER \<Longrightarrow> unat (block_size p) = bsz p"
  using unat_pow2[of "12 + p", where 'a = 64]
  by (simp add: block_size_eq bsz_def MAX_ORDER_def power_add)

lemma bsz_pos [simp]: "0 < bsz p"
  by (simp add: bsz_def)

lemma bsz_Suc: "bsz (Suc p) = 2 * bsz p"
  by (simp add: bsz_def)

lemma bsz_less: "p < q \<Longrightarrow> bsz p < bsz q"
  by (simp add: bsz_def)

lemma bsz_le: "p \<le> q \<Longrightarrow> bsz p \<le> bsz q"
  by (simp add: bsz_def)

lemma bsz_dvd: "p \<le> q \<Longrightarrow> bsz p dvd bsz q"
  by (simp add: bsz_def le_imp_power_dvd)

lemma blk_fits: "p < MAX_ORDER \<Longrightarrow> bsz p dvd unat (a :: usize) \<Longrightarrow> unat a + bsz p \<le> 2 ^ 64"
  using aligned_block_fits[of "12 + p" a] by (simp add: bsz_def MAX_ORDER_def power_add)

lemma unat_upper_half:
  assumes "q < p" "p < MAX_ORDER" "bsz p dvd unat a"
  shows "unat (a + block_size q) = unat a + bsz q"
proof -
  have q: "q < MAX_ORDER" using assms by simp
  have "unat a + unat (block_size q) < 2 ^ LENGTH(64)"
    using blk_fits[OF assms(2,3)] bsz_less[OF assms(1)] unat_block_size[OF q] by simp
  then show ?thesis by (simp add: unat_add_nowrap unat_block_size[OF q])
qed

lemma free_set_update:
  assumes "length ls = MAX_ORDER" "p < MAX_ORDER"
  shows "slot_blk (ls[p := v]) q = (if q = p then (case v of None \<Rightarrow> {} | Some a \<Rightarrow> blk a p) else slot_blk ls q)"
  using assms by (auto simp: slot_blk_def)

subsubsection \<open>Splitting a block\<close>

lemma split_down_length [simp]: "length (split_down a order k ls) = length ls"
  by (induction a order k ls rule: split_down.induct) auto

lemma split_down_nth:
  "order + k \<le> length ls \<Longrightarrow> q < length ls \<Longrightarrow>
   split_down a order k ls ! q =
     (if order \<le> q \<and> q < order + k then Some (a + block_size q) else ls ! q)"
proof (induction a order k ls rule: split_down.induct)
  case (1 addr order ls)
  then show ?case by auto
next
  case (2 addr order k ls)
  then show ?case by (auto simp: nth_list_update less_Suc_eq)
qed

lemma alloc_scan_Some:
  "alloc_scan order p k ls = Some (a, ls') \<Longrightarrow> \<exists>q. p \<le> q \<and> q < p + k \<and> ls ! q = Some a
     \<and> (\<forall>r. p \<le> r \<and> r < q \<longrightarrow> ls ! r = None) \<and> ls' = split_down a order (q - order) (ls[q := None])"
proof (induction order p k ls rule: alloc_scan.induct)
  case (1 order p ls)
  then show ?case by simp
next
  case (2 order p k ls)
  show ?case
  proof (cases "ls ! p")
    case None
    with 2 obtain q where "Suc p \<le> q" "q < Suc p + k" "ls ! q = Some a"
      "\<forall>r. Suc p \<le> r \<and> r < q \<longrightarrow> ls ! r = None" "ls' = split_down a order (q - order) (ls[q := None])"
      by auto
    with None show ?thesis
      by (intro exI[of _ q]) (auto simp: Suc_le_eq, metis le_neq_implies_less)
  next
    case (Some b)
    with 2 show ?thesis by (intro exI[of _ p]) auto
  qed
qed

lemma alloc_scan_None:
  "alloc_scan order p k ls = None \<longleftrightarrow> (\<forall>q. p \<le> q \<and> q < p + k \<longrightarrow> ls ! q = None)"
proof (induction order p k ls rule: alloc_scan.induct)
  case (1 order p ls)
  then show ?case by auto
next
  case (2 order p k ls)
  show ?case
  proof (cases "ls ! p")
    case None
    then have "alloc_scan order p (Suc k) ls = None \<longleftrightarrow>
        (\<forall>q. Suc p \<le> q \<and> q < Suc p + k \<longrightarrow> ls ! q = None)"
      using 2 by simp
    also have "\<dots> \<longleftrightarrow> (\<forall>q. p \<le> q \<and> q < p + Suc k \<longrightarrow> ls ! q = None)"
    proof (intro iffI allI impI)
      fix q assume "\<forall>q. Suc p \<le> q \<and> q < Suc p + k \<longrightarrow> ls ! q = None" "p \<le> q \<and> q < p + Suc k"
      then show "ls ! q = None" using None by (cases "q = p") auto
    qed auto
    finally show ?thesis .
  qed auto
qed

text \<open>
  What a successful allocation does to the lists: the block at the lowest non-empty order \<open>p\<close> is
  taken, and the upper halves of its repeated splits head the lists below \<open>p\<close>.
\<close>

definition took :: "nat \<Rightarrow> nat \<Rightarrow> usize \<Rightarrow> usize option list \<Rightarrow> usize option list \<Rightarrow> bool" where
  "took order p a ls ls' \<longleftrightarrow> order \<le> p \<and> p < MAX_ORDER \<and> ls ! p = Some a
     \<and> (\<forall>r. order \<le> r \<and> r < p \<longrightarrow> ls ! r = None) \<and> length ls' = MAX_ORDER
     \<and> (\<forall>q < MAX_ORDER. ls' ! q = (if order \<le> q \<and> q < p then Some (a + block_size q)
          else if q = p then None else ls ! q))"

lemma buddy_alloc_took:
  assumes len: "length (free_lists s) = MAX_ORDER"
    and a: "buddy_alloc order s = Some (Some a, s')"
  obtains p where "took order p a (free_lists s) (free_lists s')"
    "free_pages s' = free_pages s - push_bit order 1" "total_pages s' = total_pages s"
proof -
  from a obtain ls where o: "order < MAX_ORDER"
    and sc: "alloc_scan order order (MAX_ORDER - order) (free_lists s) = Some (a, ls)"
    and s': "s' = s\<lparr>free_lists := ls, free_pages := free_pages s - push_bit order 1\<rparr>"
    by (auto simp: buddy_alloc_def split: if_splits option.splits)
  from alloc_scan_Some[OF sc] o obtain p where p: "order \<le> p" "p < MAX_ORDER"
    "free_lists s ! p = Some a" "\<And>r. order \<le> r \<and> r < p \<Longrightarrow> free_lists s ! r = None"
    "ls = split_down a order (p - order) ((free_lists s)[p := None])"
    by auto
  have "took order p a (free_lists s) ls"
    using p len by (simp add: took_def split_down_nth)
  then show ?thesis using that s' by simp
qed

lemma interval_split:
  "order \<le> p \<Longrightarrow> {x ..< x + bsz p} =
     {x ..< x + bsz order} \<union> (\<Union>q \<in> {order ..< p}. {x + bsz q ..< x + bsz (Suc q)})"
proof (induction p rule: dec_induct)
  case base
  then show ?case by simp
next
  case (step p)
  have "{x ..< x + bsz (Suc p)} = {x ..< x + bsz p} \<union> {x + bsz p ..< x + bsz (Suc p)}"
    using bsz_less[of p "Suc p"] by (intro ivl_disj_un_two(3)[symmetric]) auto
  then show ?case
    using step by (simp add: atLeastLessThanSuc Un_ac)
qed

lemma blk_upper:
  assumes "q < p" "p < MAX_ORDER" "bsz p dvd unat a"
  shows "blk (a + block_size q) q = {unat a + bsz q ..< unat a + bsz (Suc q)}"
  using unat_upper_half[OF assms] by (simp add: blk_def bsz_Suc add.assoc mult_2)

lemma upper_halves_disjoint:
  "q < r \<Longrightarrow> {x + bsz q ..< x + bsz (Suc q)} \<inter> {x + bsz r ..< x + bsz (Suc r)} = {}"
  using bsz_le[of "Suc q" r] by auto

lemma bsz_dvd_upper_half:
  assumes "q < p" "p < MAX_ORDER" "bsz p dvd unat a"
  shows "bsz q dvd unat (a + block_size q)"
  using unat_upper_half[OF assms] assms bsz_dvd[of q p] by (auto intro: dvd_trans)

lemma lists_invD:
  assumes "lists_inv ls"
  shows "length ls = MAX_ORDER"
    "p < MAX_ORDER \<Longrightarrow> ls ! p = Some a \<Longrightarrow> bsz p dvd unat a"
    "p < MAX_ORDER \<Longrightarrow> q < MAX_ORDER \<Longrightarrow> p \<noteq> q \<Longrightarrow> slot_blk ls p \<inter> slot_blk ls q = {}"
  using assms by (auto simp: lists_inv_def)

lemma slot_blk_Some [simp]: "ls ! p = Some a \<Longrightarrow> slot_blk ls p = blk a p"
  by (simp add: slot_blk_def)

lemma slot_blk_None [simp]: "ls ! p = None \<Longrightarrow> slot_blk ls p = {}"
  by (simp add: slot_blk_def)

abbreviation upper :: "usize \<Rightarrow> nat \<Rightarrow> nat set" where
  "upper a q \<equiv> {unat a + bsz q ..< unat a + bsz (Suc q)}"

lemma took_slot_blk:
  assumes "took order p a ls ls'" "lists_inv ls" "q < MAX_ORDER"
  shows "slot_blk ls' q =
    (if order \<le> q \<and> q < p then upper a q else if q = p then {} else slot_blk ls q)"
  using assms blk_upper[of q p a] lists_invD(2)[of ls p a]
  by (auto simp: slot_blk_def took_def)

lemma took_whole:
  assumes "took order p a ls ls'"
  shows "slot_blk ls p = blk a order \<union> (\<Union>q \<in> {order ..< p}. upper a q)"
  using assms interval_split[of order p "unat a"] by (simp add: took_def blk_def)

lemma took_upper_sub: "took order p a ls ls' \<Longrightarrow> order \<le> q \<Longrightarrow> q < p \<Longrightarrow> upper a q \<subseteq> slot_blk ls p"
  using took_whole[of order p a ls ls'] by auto

lemma took_disjoint:
  assumes t: "took order p a ls ls'" and inv: "lists_inv ls" and qr: "q < r" "r < MAX_ORDER"
  shows "slot_blk ls' q \<inter> slot_blk ls' r = {}"
proof -
  have q: "q < MAX_ORDER" using qr by simp
  note sb = took_slot_blk[OF t inv]
  have rest: "slot_blk ls p \<inter> slot_blk ls v = {}" if "v < MAX_ORDER" "v \<noteq> p" for v
    using lists_invD(3)[OF inv, of p v] that t by (auto simp: took_def)
  consider "order \<le> q" "r < p" | "order \<le> q" "q < p" "r \<ge> p" | "q < order" "order \<le> r" "r < p"
    | "\<not> (order \<le> q \<and> q < p)" "\<not> (order \<le> r \<and> r < p)" using qr by linarith
  then show ?thesis
  proof cases
    case 1
    then show ?thesis using upper_halves_disjoint[OF qr(1), of "unat a"] qr by (simp add: sb)
  next
    case 2
    then show ?thesis using rest[of r] took_upper_sub[OF t, of q] qr by (auto simp: sb)
  next
    case 3
    then have "q \<noteq> p" by simp
    with 3 show ?thesis using rest[OF q] took_upper_sub[OF t, of r] qr q by (auto simp: sb)
  next
    case 4
    then show ?thesis using lists_invD(3)[OF inv, of q r] qr by (auto simp: sb)
  qed
qed

lemma took_lists_inv:
  assumes t: "took order p a ls ls'" and inv: "lists_inv ls"
  shows "lists_inv ls'"
  unfolding lists_inv_def
proof (intro conjI allI impI)
  show "length ls' = MAX_ORDER" using t by (simp add: took_def)
next
  fix q b assume "q < MAX_ORDER" "ls' ! q = Some b"
  then show "bsz q dvd unat b"
    using t lists_invD(2)[OF inv, of q b] lists_invD(2)[OF inv, of p a] bsz_dvd_upper_half[of q p a]
    by (auto simp: took_def split: if_splits)
next
  fix q r assume "q < MAX_ORDER" "r < MAX_ORDER" "q \<noteq> r"
  then show "slot_blk ls' q \<inter> slot_blk ls' r = {}"
    using took_disjoint[OF t inv, of q r] took_disjoint[OF t inv, of r q] by (cases "q < r") auto
qed

lemma took_free_set:
  assumes t: "took order p a ls ls'" and inv: "lists_inv ls"
  shows "blk a order \<subseteq> free_set ls" "free_set ls' = free_set ls - blk a order"
proof -
  note sb = took_slot_blk[OF t inv] and whole = took_whole[OF t]
  have p: "p < MAX_ORDER" using t by (simp add: took_def)
  show "blk a order \<subseteq> free_set ls" using whole p by (auto simp: free_set_def)
  have low: "blk a order \<inter> upper a q = {}" if "order \<le> q" for q
    using bsz_le[OF that] by (auto simp: blk_def)
  have mem: "x \<in> slot_blk ls' q \<longleftrightarrow>
      (if order \<le> q \<and> q < p then x \<in> upper a q else q \<noteq> p \<and> x \<in> slot_blk ls q - blk a order)"
    if "q < MAX_ORDER" for q x
    using sb[OF that] lists_invD(3)[OF inv, of p q] that p whole by auto
  have none: "slot_blk ls q = {}" if "order \<le> q" "q < p" for q
    using t that by (simp add: took_def)
  show "free_set ls' = free_set ls - blk a order"
  proof (intro equalityI subsetI)
    fix x assume "x \<in> free_set ls'"
    then obtain q where q: "q < MAX_ORDER" "x \<in> slot_blk ls' q" by (auto simp: free_set_def)
    then show "x \<in> free_set ls - blk a order"
      using mem[OF q(1), of x] took_upper_sub[OF t, of q] low[of q] p
      by (auto simp: free_set_def split: if_splits)
  next
    fix x assume x: "x \<in> free_set ls - blk a order"
    then obtain q where q: "q < MAX_ORDER" "x \<in> slot_blk ls q" by (auto simp: free_set_def)
    have "\<exists>r < MAX_ORDER. x \<in> slot_blk ls' r"
    proof (cases "q = p")
      case True
      then obtain r where "order \<le> r" "r < p" "x \<in> upper a r" using x q whole by auto
      then show ?thesis using mem[of r x] p by (intro exI[of _ r]) auto
    next
      case False
      then show ?thesis using mem[of q x] q none x by (intro exI[of _ q]) auto
    qed
    then show "x \<in> free_set ls'" by (auto simp: free_set_def)
  qed
qed

lemma buddy_alloc_sound:
  assumes inv: "buddy_inv s" and a: "buddy_alloc order s = Some (Some a, s')"
  shows "buddy_inv s'" "order < MAX_ORDER" "bsz order dvd unat a"
    "blk a order \<subseteq> free_bytes s" "free_bytes s' = free_bytes s - blk a order"
proof -
  have li: "lists_inv (free_lists s)" using inv by (simp add: buddy_inv_def)
  obtain p where t: "took order p a (free_lists s) (free_lists s')"
    using buddy_alloc_took[OF lists_invD(1)[OF li] a] by metis
  then have p: "order \<le> p" "p < MAX_ORDER" "bsz p dvd unat a"
    using lists_invD(2)[OF li] by (auto simp: took_def)
  show "buddy_inv s'" using took_lists_inv[OF t li] by (simp add: buddy_inv_def)
  show "order < MAX_ORDER" using p by simp
  show "bsz order dvd unat a" using dvd_trans[OF bsz_dvd[OF p(1)] p(3)] .
  show "blk a order \<subseteq> free_bytes s" "free_bytes s' = free_bytes s - blk a order"
    using took_free_set[OF t li] by (simp_all add: free_bytes_def)
qed

lemma alloc_None_iff:
  assumes "length (free_lists s) = MAX_ORDER"
  shows "buddy_alloc order s = Some (None, s') \<longleftrightarrow>
    order < MAX_ORDER \<and> s' = s \<and> (\<forall>p. order \<le> p \<and> p < MAX_ORDER \<longrightarrow> free_lists s ! p = None)"
  using alloc_scan_None[of order order "MAX_ORDER - order" "free_lists s"]
  by (auto simp: buddy_alloc_def split: option.splits)

subsubsection \<open>Merging a block with its buddy\<close>

lemma buddy_of_cases:
  assumes "p < MAX_ORDER" "bsz p dvd unat a"
  obtains (upper_half) "a XOR block_size p < a" "unat a = unat (a XOR block_size p) + bsz p"
      "bsz (Suc p) dvd unat (a XOR block_size p)"
    | (lower_half) "a < a XOR block_size p" "unat (a XOR block_size p) = unat a + bsz p"
      "bsz (Suc p) dvd unat a"
proof -
  obtain k where k: "unat a = bsz p * k" using assms(2) by (elim dvdE)
  have d: "unat a div 2 ^ (12 + p) = k" using k by (simp add: bsz_def power_add)
  have bs: "unat (block_size p) = bsz p" by (rule unat_block_size[OF assms(1)])
  show thesis
  proof (cases "odd k")
    case True
    then have x: "a XOR block_size p = a - block_size p"
      using d unfolding block_size_eq xor_bit_eq bit_odd_unat by simp
    obtain j where j: "k = Suc (2 * j)" using True by (elim oddE) simp
    then have le: "bsz p \<le> unat a" using k by simp
    then have ua: "unat (a - block_size p) = unat a - bsz p"
      using bs by (simp add: unat_sub word_le_nat_alt)
    show thesis
    proof (rule upper_half)
      show "a XOR block_size p < a" using le bsz_pos[of p] unfolding x word_less_nat_alt ua by linarith
      show "unat a = unat (a XOR block_size p) + bsz p" using le by (simp add: x ua)
      show "bsz (Suc p) dvd unat (a XOR block_size p)" using k j by (simp add: x ua bsz_Suc)
    qed
  next
    case False
    then have x: "a XOR block_size p = a + block_size p"
      using d unfolding block_size_eq xor_bit_eq bit_odd_unat by simp
    have dv: "bsz (Suc p) dvd unat a" using False k by (auto simp: bsz_Suc elim!: evenE)
    have dv2: "2 ^ (13 + p) dvd unat a" using dv by (simp add: bsz_def power_add)
    have "unat a + bsz (Suc p) \<le> 2 ^ 64"
      using aligned_block_fits[OF dv2] assms(1) by (simp add: bsz_def MAX_ORDER_def power_add)
    then have "unat a + unat (block_size p) < 2 ^ LENGTH(64)"
      using bs bsz_pos[of p] unfolding bsz_Suc by (simp del: bsz_pos)
    then have ua: "unat (a + block_size p) = unat a + bsz p"
      using bs by (simp add: unat_add_nowrap)
    show thesis
      by (rule lower_half) (simp_all add: x ua dv word_less_nat_alt)
  qed
qed

lemma merge_step:
  assumes "p < MAX_ORDER" "bsz p dvd unat a"
  defines "b \<equiv> a XOR block_size p"
  shows "bsz (Suc p) dvd unat (min a b)" "blk (min a b) (Suc p) = blk a p \<union> blk b p"
    "blk a p \<inter> blk b p = {}"
proof -
  from assms(1,2) have "bsz (Suc p) dvd unat (min a b) \<and> blk (min a b) (Suc p) = blk a p \<union> blk b p
      \<and> blk a p \<inter> blk b p = {}"
  proof (cases rule: buddy_of_cases)
    case upper_half
    then have "min a b = b" by (simp add: b_def min_def)
    with upper_half show ?thesis by (auto simp: b_def blk_def bsz_Suc)
  next
    case lower_half
    then have "min a b = a" by (simp add: b_def min_def)
    with lower_half show ?thesis by (auto simp: b_def blk_def bsz_Suc)
  qed
  then show "bsz (Suc p) dvd unat (min a b)" "blk (min a b) (Suc p) = blk a p \<union> blk b p"
    "blk a p \<inter> blk b p = {}" by auto
qed

lemma free_set_remove:
  assumes "lists_inv ls" "p < MAX_ORDER" "ls ! p = Some b"
  shows "free_set (ls[p := None]) = free_set ls - blk b p" "lists_inv (ls[p := None])"
    "blk b p \<subseteq> free_set ls"
proof -
  note len = lists_invD(1)[OF assms(1)]
  note u = free_set_update[OF len assms(2)]
  show "blk b p \<subseteq> free_set ls" using assms by (auto simp: free_set_def intro!: bexI[of _ p])
  show "free_set (ls[p := None]) = free_set ls - blk b p"
    using lists_invD(3)[OF assms(1,2)] assms(2,3) by (auto simp: free_set_def u split: if_splits; fastforce)
  show "lists_inv (ls[p := None])"
    using assms(1,2) unfolding lists_inv_def by (auto simp: u nth_list_update split: if_splits)
qed

lemma free_set_store:
  assumes "lists_inv ls" "p < MAX_ORDER" "bsz p dvd unat a" "blk a p \<inter> free_set ls = {}"
  shows "free_set (ls[p := Some a]) = (free_set ls - slot_blk ls p) \<union> blk a p"
    "lists_inv (ls[p := Some a])"
proof -
  note u = free_set_update[OF lists_invD(1)[OF assms(1)] assms(2)]
  have dis: "blk a p \<inter> slot_blk ls q = {}" if "q < MAX_ORDER" for q
    using assms(4) that by (auto simp: free_set_def)
  show "free_set (ls[p := Some a]) = (free_set ls - slot_blk ls p) \<union> blk a p"
    using lists_invD(3)[OF assms(1,2)] assms(2) by (auto simp: free_set_def u split: if_splits; fastforce)
  show "lists_inv (ls[p := Some a])"
    using assms(1,2,3) dis unfolding lists_inv_def by (auto simp: u nth_list_update split: if_splits)
qed

text \<open>
  The merge loop neither creates nor loses memory: the free lists and the block in hand together
  cover the same bytes before and after, and the block in hand stays aligned and disjoint.
\<close>

lemma merge_up_inv:
  assumes "merge_up k a p ls = (a', p', ls')" "p + k < MAX_ORDER" "lists_inv ls"
    "bsz p dvd unat a" "blk a p \<inter> free_set ls = {}"
  shows "lists_inv ls' \<and> bsz p' dvd unat a' \<and> blk a' p' \<inter> free_set ls' = {}
    \<and> free_set ls' \<union> blk a' p' = free_set ls \<union> blk a p \<and> p \<le> p' \<and> p' \<le> p + k
    \<and> (p' < p + k \<longrightarrow> ls' ! p' \<noteq> Some (a' XOR block_size p'))"
  using assms
proof (induction k a p ls rule: merge_up.induct)
  case (1 a p ls)
  then show ?case by simp
next
  case (2 k a p ls)
  define b where "b = a XOR block_size p"
  show ?case
  proof (cases "ls ! p = Some b")
    case True
    have p: "p < MAX_ORDER" using 2(3) by simp
    note ms = merge_step[OF p 2(5), folded b_def]
    note rm = free_set_remove[OF 2(4) p True]
    have "blk (min a b) (Suc p) \<inter> free_set (ls[p := None]) = {}"
      using ms(2) rm(1) 2(6) by auto
    moreover have "free_set (ls[p := None]) \<union> blk (min a b) (Suc p) = free_set ls \<union> blk a p"
      using ms(2) rm(1,3) by auto
    ultimately show ?thesis
      using 2(1)[OF b_def, of] True 2(2,3) rm(2) ms(1) by (simp add: b_def)
  next
    case False
    then show ?thesis using 2 by (simp add: b_def)
  qed
qed

lemma merge_up_frame:
  "merge_up k a p ls = (a', p', ls') \<Longrightarrow> p' \<le> q \<Longrightarrow> ls' ! q = ls ! q"
proof (induction k a p ls arbitrary: a' p' ls' rule: merge_up.induct)
  case (2 k a p ls)
  have mono: "p \<le> p'" if "merge_up k a p ls = (a', p', ls')" for k a p ls and a' :: usize and p' ls'
    using that by (induction k a p ls rule: merge_up.induct) (auto simp: Let_def split: if_splits)
  from 2 show ?case
    by (auto simp: Let_def split: if_splits dest: mono)
qed simp

lemma buddy_free_sound:
  assumes inv: "buddy_inv s" and o: "order < MAX_ORDER" and al: "bsz order dvd unat a"
    and dis: "blk a order \<inter> free_bytes s = {}"
  obtains s' p where "buddy_free a order s = Some s'" "buddy_inv s'" "order \<le> p" "p < MAX_ORDER"
    "blk a order \<subseteq> free_bytes s'"
    "free_bytes s' = (free_bytes s \<union> blk a order) - slot_blk (free_lists s) p"
    "free_pages s' = free_pages s + push_bit order 1"
proof -
  have li: "lists_inv (free_lists s)" using inv by (simp add: buddy_inv_def)
  obtain a' p ls where m: "merge_up (MAX_ORDER - 1 - order) a order (free_lists s) = (a', p, ls)"
    by (metis prod_cases3)
  have k: "order + (MAX_ORDER - 1 - order) < MAX_ORDER" using o by simp
  from merge_up_inv[OF m k li al] dis have r: "lists_inv ls" "bsz p dvd unat a'"
    "blk a' p \<inter> free_set ls = {}" "free_set ls \<union> blk a' p = free_bytes s \<union> blk a order"
    "order \<le> p" "p < MAX_ORDER"
    using k by (auto simp: free_bytes_def)
  note st = free_set_store[OF r(1,6,2,3)]
  have slot: "slot_blk ls p = slot_blk (free_lists s) p"
    using merge_up_frame[OF m order_refl] by (simp add: slot_blk_def)
  let ?s = "s\<lparr>free_lists := ls[p := Some a'], free_pages := free_pages s + push_bit order 1\<rparr>"
  have sub: "slot_blk ls p \<subseteq> free_set ls" using r(6) by (auto simp: free_set_def)
  have sub2: "slot_blk (free_lists s) p \<subseteq> free_bytes s" using r(6) by (auto simp: free_bytes_def free_set_def)
  show thesis
  proof (rule that)
    show "buddy_free a order s = Some ?s" using o m by (simp add: buddy_free_def)
    show "buddy_inv ?s" using st(2) by (simp add: buddy_inv_def)
    show "order \<le> p" "p < MAX_ORDER" using r by auto
    show eq: "free_bytes ?s = (free_bytes s \<union> blk a order) - slot_blk (free_lists s) p"
      using st(1) r(3,4) sub slot by (auto simp: free_bytes_def)
    show "blk a order \<subseteq> free_bytes ?s" using eq dis sub2 by auto
  qed simp
qed

text \<open>Splitting a block and freeing the part allocated from it merges it back to the same state.\<close>

lemma buddy_of_lower:
  assumes "q < p" "p < MAX_ORDER" "bsz p dvd unat a"
  shows "a XOR block_size q = a + block_size q" "min a (a + block_size q) = a"
proof -
  have "bsz (Suc q) dvd unat a" using bsz_dvd[of "Suc q" p] assms by (auto intro: dvd_trans)
  then obtain k where "unat a = bsz (Suc q) * k" by (elim dvdE)
  then have "unat a div 2 ^ (12 + q) = 2 * k" by (simp add: bsz_def power_add)
  then show "a XOR block_size q = a + block_size q"
    unfolding block_size_eq xor_bit_eq bit_odd_unat by simp
  show "min a (a + block_size q) = a"
    using unat_upper_half[OF assms] by (simp add: min_def word_le_nat_alt)
qed

lemma merge_up_through:
  assumes "p < MAX_ORDER" "bsz p dvd unat a" "o' \<le> p" "p - o' \<le> k" "length ls = MAX_ORDER"
    "\<forall>q. o' \<le> q \<and> q < p \<longrightarrow> ls ! q = Some (a + block_size q)" "ls ! p = None"
  obtains ls' where "merge_up k a o' ls = (a, p, ls')" "length ls' = MAX_ORDER"
    "\<forall>q < MAX_ORDER. ls' ! q = (if o' \<le> q \<and> q < p then None else ls ! q)"
proof -
  have "\<exists>ls'. merge_up k a o' ls = (a, p, ls') \<and> length ls' = MAX_ORDER
      \<and> (\<forall>q < MAX_ORDER. ls' ! q = (if o' \<le> q \<and> q < p then None else ls ! q))"
    using assms
  proof (induction k arbitrary: o' ls)
    case (Suc k)
    show ?case
    proof (cases "o' = p")
      case False
      note bl = buddy_of_lower[of o' p a]
      have "\<exists>ls'. merge_up k a (Suc o') (ls[o' := None]) = (a, p, ls') \<and> length ls' = MAX_ORDER
        \<and> (\<forall>q < MAX_ORDER. ls' ! q = (if Suc o' \<le> q \<and> q < p then None else ls[o' := None] ! q))"
        using Suc False by (intro Suc.IH) auto
      then obtain ls' where ls': "merge_up k a (Suc o') (ls[o' := None]) = (a, p, ls')"
        "length ls' = MAX_ORDER"
        "\<forall>q < MAX_ORDER. ls' ! q = (if Suc o' \<le> q \<and> q < p then None else ls[o' := None] ! q)"
        by blast
      have "merge_up (Suc k) a o' ls = (a, p, ls')"
        using Suc.prems False bl ls'(1) by (simp add: Let_def)
      moreover have "\<forall>q < MAX_ORDER. ls' ! q = (if o' \<le> q \<and> q < p then None else ls ! q)"
        using ls'(3) Suc.prems False by (auto simp: nth_list_update)
      ultimately show ?thesis using ls'(2) by blast
    qed (use Suc in auto)
  qed auto
  then show thesis using that by blast
qed

lemma free_after_alloc:
  assumes inv: "buddy_inv s" and a: "buddy_alloc order s = Some (Some a, s')"
  shows "buddy_free a order s' = Some s"
proof -
  have li: "lists_inv (free_lists s)" using inv by (simp add: buddy_inv_def)
  note len = lists_invD(1)[OF li]
  obtain p where t: "took order p a (free_lists s) (free_lists s')"
    and fp: "free_pages s' = free_pages s - push_bit order 1" "total_pages s' = total_pages s"
    using buddy_alloc_took[OF len a] by metis
  have p: "order \<le> p" "p < MAX_ORDER" "bsz p dvd unat a" "length (free_lists s') = MAX_ORDER"
    using lists_invD(2)[OF li] t by (auto simp: took_def)
  have k: "p - order \<le> MAX_ORDER - 1 - order" using p(2) by linarith
  obtain ls where m: "merge_up (MAX_ORDER - 1 - order) a order (free_lists s') = (a, p, ls)"
    "length ls = MAX_ORDER" "\<forall>q < MAX_ORDER. ls ! q = (if order \<le> q \<and> q < p then None else free_lists s' ! q)"
    using merge_up_through[OF p(2,3,1) k p(4), of] t p(1,2) by (auto simp: took_def)
  have "ls[p := Some a] = free_lists s"
    by (rule nth_equalityI) (use m t len p in \<open>auto simp: took_def nth_list_update\<close>)
  then show ?thesis
    using m(1) p fp by (auto simp: buddy_free_def)
qed

subsubsection \<open>Releasing the boot memory map\<close>

lemma init_order_ok:
  assumes lt: "addr < stop" and al: "4096 dvd unat addr" "4096 dvd unat stop"
  shows "init_order addr stop < MAX_ORDER" "bsz (init_order addr stop) dvd unat addr"
    "unat addr + bsz (init_order addr stop) \<le> unat stop"
proof -
  define r where "r = (stop - addr) div PAGE_SIZE"
  have ur: "unat r = (unat stop - unat addr) div 4096"
    using lt by (simp add: r_def PAGE_SIZE_def unat_div unat_sub word_le_nat_alt word_less_nat_alt)
  have d: "4096 dvd unat stop - unat addr" using al by simp
  then have mul: "unat stop - unat addr = 4096 * unat r" using ur by simp
  moreover have "0 < unat stop - unat addr" using lt by (simp add: word_less_nat_alt)
  ultimately have "r \<noteq> 0" by auto
  from leading_zeros_le[OF this] have lz: "leading_zeros r < 64" "2 ^ (63 - leading_zeros r) \<le> unat r"
    by simp_all
  let ?o = "init_order addr stop"
  have le: "?o \<le> 63 - leading_zeros r" "?o \<le> trailing_zeros (addr div PAGE_SIZE)" "?o < MAX_ORDER"
    using unat_floor_log[OF lz(1)] by (simp_all add: init_order_def r_def[symmetric] Let_def MAX_ORDER_def)
  show "?o < MAX_ORDER" by (rule le)
  have "2 ^ ?o dvd unat addr div 4096"
    using trailing_zeros_dvd[OF le(2)] by (simp add: PAGE_SIZE_def unat_div)
  then have "4096 * 2 ^ ?o dvd 4096 * (unat addr div 4096)" by (rule mult_dvd_mono[OF dvd_refl])
  then show "bsz ?o dvd unat addr" using al(1) by (simp add: bsz_def)
  have "2 ^ ?o \<le> (2 :: nat) ^ (63 - leading_zeros r)" using le(1) by simp
  then have "bsz ?o \<le> 4096 * unat r" using lz(2) unfolding bsz_def by linarith
  then show "unat addr + bsz ?o \<le> unat stop" using mul lt by (simp add: word_less_nat_alt)
qed

lemma bsz_4096_dvd: "4096 dvd bsz p"
  by (simp add: bsz_def)

text \<open>
  Releasing a region returns (the loop makes progress and never asserts), keeps the invariant, and
  adds no byte outside the region.
\<close>

lemma release_region_ok:
  assumes "4096 dvd unat addr" "4096 dvd unat stop" "unat addr \<le> unat stop" "buddy_inv s"
    "free_bytes s \<inter> {unat addr ..< unat stop} = {}"
  shows "\<exists>s'. release_region addr stop s = Some s' \<and> buddy_inv s'
    \<and> free_bytes s' \<subseteq> free_bytes s \<union> {unat addr ..< unat stop}"
  using assms
proof (induction "unat stop - unat addr" arbitrary: addr s rule: less_induct)
  case less
  show ?case
  proof (cases "addr < stop")
    case True
    define o' where "o' = init_order addr stop"
    note io = init_order_ok[OF True less.prems(1,2), folded o'_def]
    have "blk addr o' \<inter> free_bytes s = {}" using less.prems(5) io(3) by (auto simp: blk_def)
    from buddy_free_sound[OF less.prems(4) io(1,2) this] obtain s1 p where
      s1: "buddy_free addr o' s = Some s1" "buddy_inv s1"
        "free_bytes s1 = (free_bytes s \<union> blk addr o') - slot_blk (free_lists s) p" by metis
    have "unat addr + unat (block_size o') < 2 ^ LENGTH(64) \<or> unat addr + bsz o' = 2 ^ 64"
      using blk_fits[OF io(1,2)] unat_block_size[OF io(1)] by auto
    then have ua: "unat (addr + block_size o') = unat addr + bsz o'"
      using unat_add_nowrap[of addr "block_size o'"] unat_block_size[OF io(1)] io(3)
        unat_lt_usize[of stop] by auto
    have "\<exists>s'. release_region (addr + block_size o') stop s1 = Some s' \<and> buddy_inv s'
      \<and> free_bytes s' \<subseteq> free_bytes s1 \<union> {unat addr + bsz o' ..< unat stop}"
    proof -
      have "unat stop - (unat addr + bsz o') < unat stop - unat addr"
        using io(3) bsz_pos[of o'] by linarith
      moreover have "free_bytes s1 \<inter> {unat addr + bsz o' ..< unat stop} = {}"
        using less.prems(5) s1(3) by (auto simp: blk_def)
      ultimately show ?thesis
        using less.hyps[of "addr + block_size o'" s1] less.prems(1,2) io(3) s1(2) bsz_4096_dvd[of o']
        unfolding ua by simp
    qed
    then show ?thesis
      using s1 True io(3) by (subst release_region.simps) (fastforce simp: o'_def Let_def blk_def)
  next
    case False
    then show ?thesis using less.prems by (subst release_region.simps) auto
  qed
qed

definition region_bytes :: "memory_region \<Rightarrow> nat set" where
  "region_bytes r = {unat (base r) ..< unat (base r) + unat (length_of r)}"

definition available_bytes :: "memory_region list \<Rightarrow> nat set" where
  "available_bytes rs = (\<Union>r \<in> set (filter (\<lambda>r. kind r = Available) rs). region_bytes r)"

text \<open>A sane memory map: no entry reaches the last 4 MiB of the address space, no two overlap.\<close>

fun sane_map :: "memory_region list \<Rightarrow> bool" where
  "sane_map [] = True"
| "sane_map (r # rs) = (unat (base r) + unat (length_of r) + bsz (MAX_ORDER - 1) \<le> 2 ^ 64
     \<and> list_all (\<lambda>q. unat (base r) + unat (length_of r) \<le> unat (base q)
          \<or> unat (base q) + unat (length_of q) \<le> unat (base r)) rs
     \<and> sane_map rs)"

lemma sane_map_disjoint:
  "sane_map (r # rs) \<Longrightarrow> region_bytes r \<inter> available_bytes rs = {}"
  by (fastforce simp: region_bytes_def available_bytes_def list_all_iff)

lemma region_bounds:
  assumes "unat (base r) + unat (length_of r) + bsz (MAX_ORDER - 1) \<le> 2 ^ 64"
  defines "start \<equiv> align_up (base r) (block_size (MAX_ORDER - 1))"
    and "stop \<equiv> align_down (base r + length_of r) PAGE_SIZE"
  shows "4096 dvd unat start" "4096 dvd unat stop" "{unat start ..< unat stop} \<subseteq> region_bytes r"
proof -
  have big: "block_size (MAX_ORDER - 1) = 2 ^ 22" "bsz (MAX_ORDER - 1) = 2 ^ 22"
    by (simp_all add: PAGE_SIZE_def MAX_ORDER_def bsz_def push_bit_eq_mult)
  have pg: "PAGE_SIZE = 2 ^ 12" by (simp add: PAGE_SIZE_def)
  have "(2 :: nat) ^ 12 dvd 2 ^ 22" by (rule le_imp_power_dvd) simp
  then have "2 ^ 12 dvd unat start"
    using align_up_dvd[of 22 "base r"] unfolding start_def big(1) by (rule dvd_trans)
  then show "4096 dvd unat start" by simp
  have "2 ^ 12 dvd unat stop" unfolding stop_def pg by (rule align_down_dvd)
  then show "4096 dvd unat stop" by simp
  have "unat (base r) \<le> unat start"
    using align_up_bounds(1)[of 22 "base r"] assms(1) unfolding start_def big by simp
  moreover have "unat stop \<le> unat (base r + length_of r)"
    unfolding stop_def pg by (rule align_down_le)
  moreover have "unat (base r + length_of r) = unat (base r) + unat (length_of r)"
    using assms(1) bsz_pos[of "MAX_ORDER - 1"] by (intro unat_add_nowrap) (simp del: bsz_pos)
  ultimately show "{unat start ..< unat stop} \<subseteq> region_bytes r"
    by (auto simp: region_bytes_def)
qed

lemma init_regions_ok:
  "sane_map rs \<Longrightarrow> buddy_inv s \<Longrightarrow> free_bytes s \<inter> available_bytes rs = {} \<Longrightarrow>
   \<exists>s'. init_regions rs s = Some s' \<and> buddy_inv s' \<and> free_bytes s' \<subseteq> free_bytes s \<union> available_bytes rs"
proof (induction rs arbitrary: s)
  case (Cons r rs)
  define start stop where "start = align_up (base r) (block_size (MAX_ORDER - 1))"
    and "stop = align_down (base r + length_of r) PAGE_SIZE"
  show ?case
  proof (cases "kind r = Available \<and> start < stop")
    case False
    then have "init_regions (r # rs) s = init_regions rs s"
      by (auto simp: start_def stop_def Let_def not_less)
    moreover have sub: "available_bytes rs \<subseteq> available_bytes (r # rs)"
      by (auto simp: available_bytes_def)
    moreover have "\<exists>s'. init_regions rs s = Some s' \<and> buddy_inv s'
        \<and> free_bytes s' \<subseteq> free_bytes s \<union> available_bytes rs"
      using Cons.prems sub by (intro Cons.IH) auto
    ultimately show ?thesis by (metis Un_mono order_refl subset_trans)
  next
    case True
    have av: "available_bytes (r # rs) = region_bytes r \<union> available_bytes rs"
      using True by (auto simp: available_bytes_def)
    have big: "unat (base r) + unat (length_of r) + bsz (MAX_ORDER - 1) \<le> 2 ^ 64" using Cons.prems by simp
    note rb = region_bounds[OF big, folded start_def stop_def]
    have "free_bytes s \<inter> {unat start ..< unat stop} = {}" using Cons.prems(3) rb(3) av by auto
    then obtain s1 where s1: "release_region start stop s = Some s1" "buddy_inv s1"
      "free_bytes s1 \<subseteq> free_bytes s \<union> {unat start ..< unat stop}"
      using release_region_ok[OF rb(1,2), of s] True Cons.prems(2) by (auto simp: word_less_nat_alt)
    have "free_bytes s1 \<inter> available_bytes rs = {}"
      using s1(3) rb(3) sane_map_disjoint[OF Cons.prems(1)] Cons.prems(3) av by auto
    with Cons.IH[of s1] Cons.prems(1) s1 obtain s2 where
      "init_regions rs s1 = Some s2" "buddy_inv s2" "free_bytes s2 \<subseteq> free_bytes s1 \<union> available_bytes rs"
      by auto
    then show ?thesis
      using True s1 rb(3) av by (auto simp: start_def stop_def Let_def)
  qed
qed auto

lemma buddy_new_inv: "buddy_inv buddy_new" "free_bytes buddy_new = {}"
  by (auto simp: buddy_inv_def lists_inv_def buddy_new_def free_bytes_def free_set_def slot_blk_def)

lemma init_from_map_ok:
  assumes "sane_map rs"
  shows "\<exists>s'. init_from_map rs buddy_new = Some s' \<and> buddy_inv s' \<and> free_bytes s' \<subseteq> available_bytes rs"
proof -
  from init_regions_ok[OF assms buddy_new_inv(1)] obtain s where
    "init_regions rs buddy_new = Some s" "buddy_inv s" "free_bytes s \<subseteq> available_bytes rs"
    by (auto simp: buddy_new_inv(2))
  then show ?thesis by (auto simp: init_from_map_def buddy_inv_def free_bytes_def)
qed

text \<open>At the top order a free never merges: it replaces whatever block headed that list.\<close>

lemma free_top:
  "buddy_free a (MAX_ORDER - 1) s =
     Some (s\<lparr>free_lists := (free_lists s)[MAX_ORDER - 1 := Some a], free_pages := free_pages s + 1024\<rparr>)"
  by (simp add: buddy_free_def MAX_ORDER_def)

lemma init_order_top:
  assumes "unat stop = unat addr + Suc n * bsz (MAX_ORDER - 1)" "bsz (MAX_ORDER - 1) dvd unat addr"
  shows "init_order addr stop = MAX_ORDER - 1"
proof -
  have b: "bsz (MAX_ORDER - 1) = 4096 * 1024" by (simp add: bsz_def MAX_ORDER_def)
  define r where "r = (stop - addr) div PAGE_SIZE"
  have "unat r = Suc n * 1024"
    using assms(1) unfolding r_def b by (simp add: PAGE_SIZE_def unat_div unat_sub word_le_nat_alt)
  then have "2 ^ 10 \<le> unat r" by simp
  from leading_zeros_ge[OF this] have lz: "10 \<le> 63 - leading_zeros r" by simp
  have "2 ^ 10 dvd unat addr div 4096" using assms(2) unfolding b by (auto elim!: dvdE)
  then have "10 \<le> trailing_zeros (addr div PAGE_SIZE)"
    by (intro trailing_zeros_ge) (simp_all add: PAGE_SIZE_def unat_div)
  then show ?thesis
    using lz unat_floor_log[of "leading_zeros r"]
    by (simp add: init_order_def r_def[symmetric] Let_def MAX_ORDER_def)
qed

text \<open>
  Releasing \<open>n + 1\<close> maximal blocks: every one is counted in \<open>free_pages\<close>, only the last is kept.
\<close>

lemma release_top_blocks:
  assumes "unat stop = unat addr + Suc n * bsz (MAX_ORDER - 1)" "bsz (MAX_ORDER - 1) dvd unat addr"
  shows "release_region addr stop s =
    Some (s\<lparr>free_lists := (free_lists s)[MAX_ORDER - 1 := Some (stop - block_size (MAX_ORDER - 1))],
            free_pages := free_pages s + of_nat (Suc n) * 1024\<rparr>)"
  using assms
proof (induction n arbitrary: addr s)
  case 0
  have b: "unat (block_size (MAX_ORDER - 1)) = bsz (MAX_ORDER - 1)"
    by (rule unat_block_size) (simp add: MAX_ORDER_def)
  have "stop = addr + block_size (MAX_ORDER - 1)"
    using 0 b unat_lt_usize[of stop] by (intro word_unat_eq_iff[THEN iffD2]) (simp add: unat_add_nowrap)
  moreover have "addr < stop" using 0(1) bsz_pos[of "MAX_ORDER - 1"] unfolding word_less_nat_alt by linarith
  ultimately show ?case
    using init_order_top[OF 0] free_top[of addr s]
    by (subst release_region.simps) (simp add: Let_def release_region.simps)
next
  case (Suc n)
  have b: "unat (block_size (MAX_ORDER - 1)) = bsz (MAX_ORDER - 1)"
    by (rule unat_block_size) (simp add: MAX_ORDER_def)
  have lt: "addr < stop" using Suc.prems(1) bsz_pos[of "MAX_ORDER - 1"] unfolding word_less_nat_alt by simp
  have ua: "unat (addr + block_size (MAX_ORDER - 1)) = unat addr + bsz (MAX_ORDER - 1)"
    using Suc.prems(1) b unat_lt_usize[of stop] by (simp add: unat_add_nowrap)
  show ?case
    using init_order_top[OF Suc.prems] free_top[of addr s] lt Suc.prems ua
    by (subst release_region.simps) (simp add: Let_def Suc.IH algebra_simps)
qed

subsection \<open>Clients of the allocator\<close>

text \<open>
  Clients allocate blocks and free blocks they hold; \<open>live\<close> lists the blocks they hold, with the
  order each was allocated at.
\<close>

inductive buddy_step :: "buddy \<times> (usize \<times> nat) list \<Rightarrow> buddy \<times> (usize \<times> nat) list \<Rightarrow> bool" where
  step_alloc: "buddy_alloc order s = Some (Some a, s') \<Longrightarrow> buddy_step (s, live) (s', (a, order) # live)"
| step_exhausted: "buddy_alloc order s = Some (None, s') \<Longrightarrow> buddy_step (s, live) (s', live)"
| step_free: "(a, order) \<in> set live \<Longrightarrow> buddy_free a order s = Some s' \<Longrightarrow>
    buddy_step (s, live) (s', remove1 (a, order) live)"

inductive_cases buddy_stepE: "buddy_step (s, live) (s', live')"

fun live_disjoint :: "(usize \<times> nat) list \<Rightarrow> bool" where
  "live_disjoint [] = True"
| "live_disjoint ((a, order) # bs) =
     (list_all (\<lambda>(b, order'). blk a order \<inter> blk b order' = {}) bs \<and> live_disjoint bs)"

definition client_inv :: "nat set \<Rightarrow> buddy \<times> (usize \<times> nat) list \<Rightarrow> bool" where
  "client_inv ram = (\<lambda>(s, live). buddy_inv s \<and> free_bytes s \<subseteq> ram \<and> live_disjoint live
     \<and> list_all (\<lambda>(a, order). order < MAX_ORDER \<and> bsz order dvd unat a
          \<and> blk a order \<inter> free_bytes s = {} \<and> blk a order \<subseteq> ram) live)"

lemma live_disjoint_remove1:
  "live_disjoint live \<Longrightarrow> live_disjoint (remove1 b live)"
  "live_disjoint live \<Longrightarrow> (a, order) \<in> set live \<Longrightarrow> (c, order') \<in> set (remove1 (a, order) live) \<Longrightarrow>
   blk a order \<inter> blk c order' = {}"
proof (induction live rule: live_disjoint.induct)
  case (2 a' o' bs)
  {
    case 1
    then show ?case using 2 notin_set_remove1 by (fastforce simp: list_all_iff)
  next
    case 2
    then show ?case using "2.IH" by (fastforce simp: list_all_iff split: if_splits)
  }
qed auto

lemma client_invI:
  assumes "buddy_inv s" "free_bytes s \<subseteq> ram" "live_disjoint live"
    "\<And>a order. (a, order) \<in> set live \<Longrightarrow> order < MAX_ORDER \<and> bsz order dvd unat a
       \<and> blk a order \<inter> free_bytes s = {} \<and> blk a order \<subseteq> ram"
  shows "client_inv ram (s, live)"
  using assms unfolding client_inv_def list_all_iff by (simp, blast)

lemma client_invD:
  assumes "client_inv ram (s, live)"
  shows "buddy_inv s" "free_bytes s \<subseteq> ram" "live_disjoint live"
    "(a, order) \<in> set live \<Longrightarrow> order < MAX_ORDER"
    "(a, order) \<in> set live \<Longrightarrow> bsz order dvd unat a"
    "(a, order) \<in> set live \<Longrightarrow> blk a order \<inter> free_bytes s = {}"
    "(a, order) \<in> set live \<Longrightarrow> blk a order \<subseteq> ram"
  using assms by (auto simp: client_inv_def list_all_iff)

lemma client_inv_alloc:
  assumes "buddy_alloc order s = Some (Some a, s')" "client_inv ram (s, live)"
  shows "client_inv ram (s', (a, order) # live)"
proof (rule client_invI)
  note inv = client_invD[OF assms(2)] and al = buddy_alloc_sound[OF client_invD(1)[OF assms(2)] assms(1)]
  show "buddy_inv s'" by (rule al)
  show "free_bytes s' \<subseteq> ram" using inv(2) al(5) by auto
  have "blk a order \<inter> blk b order' = {}" if "(b, order') \<in> set live" for b order'
    using al(4) inv(6)[OF that] by auto
  then show "live_disjoint ((a, order) # live)" using inv(3) by (auto simp: list_all_iff)
  fix b order' assume "(b, order') \<in> set ((a, order) # live)"
  then consider "b = a" "order' = order" | "(b, order') \<in> set live" by auto
  then show "order' < MAX_ORDER \<and> bsz order' dvd unat b \<and> blk b order' \<inter> free_bytes s' = {} \<and> blk b order' \<subseteq> ram"
  proof cases
    case 1
    then show ?thesis using al inv(2) by auto
  next
    case 2
    then show ?thesis using inv(4-7)[OF 2] al(5) by auto
  qed
qed

lemma client_inv_free:
  assumes "(a, order) \<in> set live" "buddy_free a order s = Some s'" "client_inv ram (s, live)"
  shows "client_inv ram (s', remove1 (a, order) live)"
proof (rule client_invI)
  note inv = client_invD[OF assms(3)]
  note pre = inv(1) inv(4-7)[OF assms(1)]
  obtain p where f: "buddy_inv s'" "free_bytes s' = (free_bytes s \<union> blk a order) - slot_blk (free_lists s) p"
    using buddy_free_sound[OF pre(1-4)] assms(2) by (metis option.inject)
  show "buddy_inv s'" by (rule f)
  show "free_bytes s' \<subseteq> ram" using f(2) pre(5) inv(2) by auto
  show "live_disjoint (remove1 (a, order) live)" by (rule live_disjoint_remove1(1)[OF inv(3)])
  fix b order' assume b: "(b, order') \<in> set (remove1 (a, order) live)"
  then have l: "(b, order') \<in> set live" by (meson notin_set_remove1)
  show "order' < MAX_ORDER \<and> bsz order' dvd unat b \<and> blk b order' \<inter> free_bytes s' = {} \<and> blk b order' \<subseteq> ram"
    using inv(4-7)[OF l] live_disjoint_remove1(2)[OF inv(3) assms(1) b] f(2) by auto
qed

lemma client_inv_step:
  assumes "buddy_step x y" "client_inv ram x"
  shows "client_inv ram y"
  using assms
proof (cases rule: buddy_step.cases)
  case (step_exhausted order s s' live)
  then have "s' = s" using client_invD(1)[of ram s live] assms(2) alloc_None_iff[of s order s']
    by (auto simp: buddy_inv_def lists_inv_def)
  then show ?thesis using assms(2) step_exhausted by simp
qed (use assms(2) client_inv_alloc client_inv_free in auto)

lemma client_inv_reach:
  assumes "sane_map rs" "init_from_map rs buddy_new = Some s0" "buddy_step\<^sup>*\<^sup>* (s0, []) x"
  shows "client_inv (available_bytes rs) x"
  using assms(3)
proof (induction rule: rtranclp_induct)
  case base
  then show ?case using init_from_map_ok[OF assms(1)] assms(2) by (auto simp: client_inv_def)
next
  case (step y z)
  then show ?case by (blast intro: client_inv_step)
qed

lemma live_disjoint_nth:
  "live_disjoint live \<Longrightarrow> i < j \<Longrightarrow> j < length live \<Longrightarrow> live ! i = (a, order) \<Longrightarrow> live ! j = (b, order') \<Longrightarrow>
   blk a order \<inter> blk b order' = {}"
proof (induction live arbitrary: i j rule: live_disjoint.induct)
  case (2 a' o' bs)
  from \<open>i < j\<close> obtain k where j: "j = Suc k" by (cases j) auto
  then have mem: "(b, order') \<in> set bs" using 2(4,6) nth_mem[of k bs] by simp
  show ?case
  proof (cases i)
    case 0
    then show ?thesis using 2(2,5) mem by (auto simp: list_all_iff)
  next
    case (Suc l)
    then show ?thesis using 2(1)[of l k] 2(2-) j by simp
  qed
qed simp

lemma qemu_init:
  "init_from_map (memory_map create_qemu_virt_default) buddy_new =
     Some \<lparr>free_lists = (replicate MAX_ORDER None)[MAX_ORDER - 1 := Some 0x4FC00000],
           free_pages = 65536, total_pages = 65536\<rparr>"
proof -
  have b: "block_size (MAX_ORDER - 1) = 0x400000" "bsz (MAX_ORDER - 1) = 0x400000"
    by (simp_all add: PAGE_SIZE_def MAX_ORDER_def bsz_def push_bit_eq_mult)
  have al: "align_up 0x40000000 0x400000 = (0x40000000 :: usize)"
    "align_down 0x50000000 PAGE_SIZE = (0x50000000 :: usize)"
    by (simp_all add: align_up_def align_down_def PAGE_SIZE_def)
  have "release_region 0x40000000 0x50000000 buddy_new = Some (buddy_new
      \<lparr>free_lists := (free_lists buddy_new)[MAX_ORDER - 1 := Some (0x50000000 - block_size (MAX_ORDER - 1))],
       free_pages := free_pages buddy_new + of_nat (Suc 63) * 1024\<rparr>)"
    by (rule release_top_blocks) (simp_all add: MAX_ORDER_def bsz_def)
  then show ?thesis
    unfolding init_from_map_def create_qemu_virt_default_def
    by (simp add: Let_def b[simplified] al buddy_new_def)
qed

lemma single_block_inv:
  assumes "p < MAX_ORDER" "bsz p dvd unat a" "free_lists s = (replicate MAX_ORDER None)[p := Some a]"
  shows "buddy_inv s" "free_bytes s = blk a p"
proof -
  have sb: "slot_blk (free_lists s) q = (if q = p then blk a p else {})" if "q < MAX_ORDER" for q
    using that assms(3) by (simp add: slot_blk_def nth_list_update)
  then show "buddy_inv s"
    using assms by (auto simp: buddy_inv_def lists_inv_def nth_list_update split: if_splits)
  show "free_bytes s = blk a p" using sb assms(1) by (auto simp: free_bytes_def free_set_def split: if_splits)
qed

subsection \<open>Properties of the allocator\<close>

text \<open>
  C17. Allocation is sound and exact: from a well-formed allocator, a block that is returned was
  free, is aligned to its size, and is the only memory that stops being free; the invariant is kept.
\<close>

theorem alloc_exact:
  assumes "buddy_inv s" "buddy_alloc order s = Some (Some a, s')"
  shows "buddy_inv s' \<and> bsz order dvd unat a \<and> blk a order \<subseteq> free_bytes s
    \<and> free_bytes s' = free_bytes s - blk a order \<and> free_pages s' = free_pages s - push_bit order 1"
  using buddy_alloc_sound[OF assms] buddy_alloc_took[OF _ assms(2)] assms(1)
  by (auto simp: buddy_inv_def dest!: lists_invD(1))

theorem alloc_exact_witness:
  "let s = \<lparr>free_lists = (replicate MAX_ORDER None)[2 := Some 0x8000], free_pages = 4, total_pages = 4\<rparr>
   in buddy_inv s \<and> free_bytes (snd (the (buddy_alloc 0 s))) = free_bytes s - blk 0x8000 0"
proof -
  let ?s = "\<lparr>free_lists = (replicate MAX_ORDER None)[2 := Some 0x8000], free_pages = 4, total_pages = 4\<rparr> :: buddy"
  have i: "buddy_inv ?s"
    by (rule single_block_inv[of 2 "0x8000"]) (simp_all add: MAX_ORDER_def bsz_def)
  have a: "buddy_alloc 0 ?s = Some (Some 0x8000, snd (the (buddy_alloc 0 ?s)))"
    by code_simp
  show ?thesis using alloc_exact[OF i a] i by (simp add: Let_def)
qed

text \<open>
  C18. Freeing what was just allocated restores the allocator exactly: the splits that \<open>alloc\<close> made
  are merged back, order by order, and both counters return to their values.
\<close>

theorem free_alloc_roundtrip:
  assumes "buddy_inv s" "buddy_alloc order s = Some (Some a, s')"
  shows "buddy_free a order s' = Some s"
  using assms by (rule free_after_alloc)

theorem free_alloc_roundtrip_witness:
  "let s = \<lparr>free_lists = (replicate MAX_ORDER None)[10 := Some 0x400000], free_pages = 1024, total_pages = 1024\<rparr>
   in buddy_inv s \<and> buddy_free 0x400000 3 (snd (the (buddy_alloc 3 s))) = Some s"
proof -
  let ?s = "\<lparr>free_lists = (replicate MAX_ORDER None)[10 := Some 0x400000],
    free_pages = 1024, total_pages = 1024\<rparr> :: buddy"
  have i: "buddy_inv ?s"
    by (rule single_block_inv[of 10 "0x400000"]) (simp_all add: MAX_ORDER_def bsz_def)
  have a: "buddy_alloc 3 ?s = Some (Some 0x400000, snd (the (buddy_alloc 3 ?s)))"
    by code_simp
  show ?thesis using free_alloc_roundtrip[OF i a] i by (simp add: Let_def)
qed

text \<open>
  C19. What \<open>free\<close> does, exactly: the freed block becomes free, and no byte that was in use does. The
  memory that is free afterwards is what was free and the block, less the block that headed the
  list the merged block is stored in: storing overwrites that head.
\<close>

theorem free_exact:
  assumes "buddy_inv s" "order < MAX_ORDER" "bsz order dvd unat a" "blk a order \<inter> free_bytes s = {}"
  shows "\<exists>s' p. buddy_free a order s = Some s' \<and> buddy_inv s' \<and> order \<le> p \<and> p < MAX_ORDER
    \<and> blk a order \<subseteq> free_bytes s'
    \<and> free_bytes s' = (free_bytes s \<union> blk a order) - slot_blk (free_lists s) p
    \<and> free_pages s' = free_pages s + push_bit order 1"
  using buddy_free_sound[OF assms] by metis

theorem free_exact_witness:
  "let s = \<lparr>free_lists = (replicate MAX_ORDER None)[0 := Some 0x1000], free_pages = 1, total_pages = 4\<rparr>
   in buddy_inv s \<and> (\<exists>s' p. buddy_free 0x3000 0 s = Some s' \<and> blk 0x3000 0 \<subseteq> free_bytes s'
        \<and> free_bytes s' = (free_bytes s \<union> blk 0x3000 0) - slot_blk (free_lists s) p)"
proof -
  let ?s = "\<lparr>free_lists = (replicate MAX_ORDER None)[0 := Some 0x1000],
    free_pages = 1, total_pages = 4\<rparr> :: buddy"
  have i: "buddy_inv ?s" and f: "free_bytes ?s = blk 0x1000 0"
    by (rule single_block_inv[of 0 "0x1000"]; simp add: MAX_ORDER_def bsz_def)+
  have "blk 0x3000 0 \<inter> free_bytes ?s = {}" unfolding f by (simp add: blk_def bsz_def)
  then show ?thesis
    using free_exact[OF i, of 0 "0x3000"] i unfolding Let_def by (auto simp: MAX_ORDER_def bsz_def)
qed

text \<open>
  The head of a free list is lost when a block of the same order that is not its buddy is
  freed: the page counter grows, the block is no longer free and no allocation returns it.
\<close>

theorem free_drops_head:
  assumes "buddy_inv s" "order < MAX_ORDER" "bsz order dvd unat a" "blk a order \<inter> free_bytes s = {}"
    "free_lists s ! order = Some b" "order = MAX_ORDER - 1 \<or> b \<noteq> a XOR block_size order"
  shows "\<exists>s'. buddy_free a order s = Some s' \<and> free_pages s' = free_pages s + push_bit order 1
    \<and> blk b order \<subseteq> free_bytes s \<and> blk b order \<inter> free_bytes s' = {}"
proof -
  let ?s = "s\<lparr>free_lists := (free_lists s)[order := Some a], free_pages := free_pages s + push_bit order 1\<rparr>"
  have "merge_up (MAX_ORDER - 1 - order) a order (free_lists s) = (a, order, free_lists s)"
    using assms(5,6) by (cases "MAX_ORDER - 1 - order") (auto simp: Let_def)
  then have f: "buddy_free a order s = Some ?s" using assms(2) by (simp add: buddy_free_def)
  have li: "lists_inv (free_lists s)" using assms(1) by (simp add: buddy_inv_def)
  have "free_bytes ?s = (free_bytes s - blk b order) \<union> blk a order"
    using free_set_store(1)[OF li assms(2,3)] assms(4,5) by (simp add: free_bytes_def)
  moreover have "blk b order \<subseteq> free_bytes s"
    using free_set_remove(3)[OF li assms(2,5)] by (simp add: free_bytes_def)
  ultimately show ?thesis using f assms(4) by auto
qed

theorem free_drops_head_witness:
  "let s = \<lparr>free_lists = (replicate MAX_ORDER None)[0 := Some 0x1000], free_pages = 1, total_pages = 4\<rparr>
   in \<exists>s'. buddy_free 0x3000 0 s = Some s' \<and> free_pages s' = 2
        \<and> blk 0x1000 0 \<subseteq> free_bytes s \<and> blk 0x1000 0 \<inter> free_bytes s' = {}"
proof -
  let ?s = "\<lparr>free_lists = (replicate MAX_ORDER None)[0 := Some 0x1000],
    free_pages = 1, total_pages = 4\<rparr> :: buddy"
  have i: "buddy_inv ?s" and f: "free_bytes ?s = blk 0x1000 0"
    by (rule single_block_inv[of 0 "0x1000"]; simp add: MAX_ORDER_def bsz_def)+
  have "blk 0x3000 0 \<inter> free_bytes ?s = {}" unfolding f by (simp add: blk_def bsz_def)
  then show ?thesis
    using free_drops_head[OF i, of 0 "0x3000" "0x1000"] unfolding Let_def
    by (auto simp: MAX_ORDER_def bsz_def PAGE_SIZE_def)
qed

text \<open>
  C1. Initialisation returns for every sane memory map and hands the allocator nothing outside the
  Available regions; blocks that clients then hold, after any sequence of allocations and frees,
  lie in Available memory, are aligned, and never overlap.
\<close>

theorem live_blocks_disjoint:
  assumes "sane_map rs"
  shows "\<exists>s0. init_from_map rs buddy_new = Some s0 \<and> (\<forall>s live i j a order b order'.
    buddy_step\<^sup>*\<^sup>* (s0, []) (s, live) \<longrightarrow> i < j \<longrightarrow> j < length live \<longrightarrow>
    live ! i = (a, order) \<longrightarrow> live ! j = (b, order') \<longrightarrow>
    blk a order \<inter> blk b order' = {} \<and> blk a order \<subseteq> available_bytes rs \<and> bsz order dvd unat a)"
proof -
  obtain s0 where s0: "init_from_map rs buddy_new = Some s0" using init_from_map_ok[OF assms] by auto
  {
    fix s live i j a order b order'
    assume r: "buddy_step\<^sup>*\<^sup>* (s0, []) (s, live)" and ij: "i < j" "j < length live"
      "live ! i = (a, order)" "live ! j = (b, order')"
    note inv = client_invD[OF client_inv_reach[OF assms s0 r]]
    have "(a, order) \<in> set live" using ij nth_mem[of i live] by simp
    then have "blk a order \<inter> blk b order' = {} \<and> blk a order \<subseteq> available_bytes rs \<and> bsz order dvd unat a"
      using live_disjoint_nth[OF inv(3) ij] inv(5,7) by blast
  }
  then show ?thesis using s0 by blast
qed

theorem live_blocks_disjoint_witness:
  "let rs = memory_map create_qemu_virt_default in
   sane_map rs \<and> (\<exists>s. buddy_step\<^sup>*\<^sup>* (the (init_from_map rs buddy_new), [])
       (s, [(0x4FC01000, 0), (0x4FC00000, 0)]))
     \<and> blk 0x4FC01000 0 \<inter> blk 0x4FC00000 0 = {} \<and> blk 0x4FC01000 0 \<subseteq> available_bytes rs"
proof -
  let ?rs = "memory_map create_qemu_virt_default"
  define s0 :: buddy where "s0 = \<lparr>free_lists = (replicate MAX_ORDER None)[MAX_ORDER - 1 := Some 0x4FC00000],
    free_pages = 65536, total_pages = 65536\<rparr>"
  define s1 where "s1 = snd (the (buddy_alloc 0 s0))"
  define s2 where "s2 = snd (the (buddy_alloc 0 s1))"
  have sane: "sane_map ?rs"
    by (simp add: create_qemu_virt_default_def bsz_def MAX_ORDER_def)
  have i: "init_from_map ?rs buddy_new = Some s0" unfolding s0_def by (rule qemu_init)
  have "buddy_alloc 0 s0 = Some (Some 0x4FC00000, s1)"
    unfolding s1_def s0_def by code_simp
  moreover have "buddy_alloc 0 s1 = Some (Some 0x4FC01000, s2)"
    unfolding s2_def s1_def s0_def by code_simp
  ultimately have r: "buddy_step\<^sup>*\<^sup>* (s0, []) (s2, [(0x4FC01000, 0), (0x4FC00000, 0)])"
    by (meson rtranclp.rtrancl_refl rtranclp.rtrancl_into_rtrancl step_alloc)
  have "blk 0x4FC01000 0 \<inter> blk 0x4FC00000 0 = {} \<and> blk 0x4FC01000 0 \<subseteq> available_bytes ?rs"
    using live_blocks_disjoint[OF sane] i r by (fastforce dest: spec[of _ 0])
  then show ?thesis using sane i r unfolding Let_def by auto
qed

text \<open>
  On the default memory map of the QEMU virt machine (256 MiB) both counters report 65536
  pages, and exactly one 4 MiB block, 1024 pages, can ever be allocated.
\<close>

theorem qemu_init_keeps_one_block:
  "\<exists>s. init_from_map (memory_map create_qemu_virt_default) buddy_new = Some s
     \<and> free_pages s = 65536 \<and> total_pages s = 65536
     \<and> free_bytes s = blk 0x4FC00000 10 \<and> card (free_bytes s) = 1024 * 4096"
proof -
  let ?s = "\<lparr>free_lists = (replicate MAX_ORDER None)[MAX_ORDER - 1 := Some 0x4FC00000],
    free_pages = 65536, total_pages = 65536\<rparr> :: buddy"
  have "free_bytes ?s = blk 0x4FC00000 10"
    by (rule single_block_inv[of 10 "0x4FC00000"]) (simp_all add: MAX_ORDER_def bsz_def)
  then show ?thesis using qemu_init by (auto simp: blk_def bsz_def)
qed

end
