(* ===== verification/Memory.thy ===== *)
theory Memory
  imports Buddy
begin

text \<open>
  Physical memory as the kernel reaches it, and the state of the memory manager
  (\<open>src/mm/src/lib.rs\<close>). Memory is byte addressed by the pointer the kernel dereferences. A
  \<open>u64\<close> access is eight little-endian byte accesses; \<open>write_bytes\<close> and \<open>copy_nonoverlapping\<close> act on a
  range of addresses, so an access that crosses the top of the address space wraps.
\<close>

type_synonym memory = "usize \<Rightarrow> u8"

definition fill_bytes :: "memory \<Rightarrow> usize \<Rightarrow> u8 \<Rightarrow> usize \<Rightarrow> memory" where
  "fill_bytes m p v n = (\<lambda>x. if x - p < n then v else m x)"

definition copy_bytes :: "memory \<Rightarrow> usize \<Rightarrow> usize \<Rightarrow> usize \<Rightarrow> memory" where
  "copy_bytes m src dst n = (\<lambda>x. if x - dst < n then m (src + (x - dst)) else m x)"

definition byte_of :: "u64 \<Rightarrow> nat \<Rightarrow> u8" where
  "byte_of v k = ucast (drop_bit (8 * k) v)"

definition store64 :: "memory \<Rightarrow> usize \<Rightarrow> u64 \<Rightarrow> memory" where
  "store64 m p v = (\<lambda>x. if x - p < 8 then byte_of v (unat (x - p)) else m x)"

fun load_le :: "nat \<Rightarrow> memory \<Rightarrow> usize \<Rightarrow> u64" where
  "load_le 0 m p = 0"
| "load_le (Suc n) m p = ucast (m p) OR push_bit 8 (load_le n m (p + 1))"

definition load64 :: "memory \<Rightarrow> usize \<Rightarrow> u64" where
  "load64 m p = load_le 8 m p"

subsection \<open>Loads and stores\<close>

lemma bit_load_le:
  "bit (load_le n m p) i \<longleftrightarrow> i < 64 \<and> i < 8 * n \<and> bit (m (p + of_nat (i div 8))) (i mod 8)"
proof (induction n arbitrary: p i)
  case (Suc n)
  show ?case
  proof (cases "i < 8")
    case True
    then show ?thesis by (simp add: bit_or_iff bit_unsigned_iff bit_push_bit_iff)
  next
    case False
    then have "i div 8 = Suc ((i - 8) div 8)" "i mod 8 = (i - 8) mod 8"
      by (simp_all add: le_div_geq le_mod_geq)
    then show ?thesis
      using Suc[of "p + 1" "i - 8"] False bit_imp_le_length[of "m p" i]
      by (auto simp: bit_or_iff bit_unsigned_iff bit_push_bit_iff add.assoc)
  qed
qed simp

lemma bit_load64: "bit (load64 m p) i \<longleftrightarrow> i < 64 \<and> bit (m (p + of_nat (i div 8))) (i mod 8)"
  by (auto simp: load64_def bit_load_le)

lemma of_nat_small: "k < 8 \<Longrightarrow> unat (of_nat k :: usize) = k"
  by (simp add: unsigned_of_nat take_bit_nat_eq_self)

lemma load64_store64_same [simp]: "load64 (store64 m p v) p = v"
proof (rule bit_word_eqI)
  fix i assume i: "i < LENGTH(64)"
  then have k: "i div 8 < 8" by simp
  have "8 * (i div 8) + i mod 8 = i" by simp
  then show "bit (load64 (store64 m p v) p) i = bit v i"
    using i of_nat_small[OF k] k
    by (simp add: bit_load64 store64_def byte_of_def bit_unsigned_iff bit_drop_bit_eq word_less_nat_alt)
qed

lemma load64_cong: "(\<And>k. k < 8 \<Longrightarrow> m (p + of_nat k) = m' (p + of_nat k)) \<Longrightarrow> load64 m p = load64 m' p"
  by (rule bit_word_eqI) (simp add: bit_load64)

lemma store64_load64 [simp]: "store64 m p (load64 m p) = m"
proof
  fix x
  show "store64 m p (load64 m p) x = m x"
  proof (cases "x - p < 8")
    case True
    then have k: "unat (x - p) < 8" by (simp add: word_less_nat_alt)
    have "byte_of (load64 m p) (unat (x - p)) = m x"
    proof (rule bit_word_eqI)
      fix j assume j: "j < LENGTH(8)"
      then have "(8 * unat (x - p) + j) div 8 = unat (x - p)" "8 * unat (x - p) + j < 64" using k by auto
      then show "bit (byte_of (load64 m p) (unat (x - p))) j = bit (m x) j"
        using j by (simp add: byte_of_def bit_unsigned_iff bit_drop_bit_eq bit_load64)
    qed
    then show ?thesis using True by (simp add: store64_def)
  qed (simp add: store64_def)
qed

text \<open>Addresses a multiple of eight apart either coincide or do not overlap.\<close>

definition aligned8 :: "usize \<Rightarrow> bool" where
  "aligned8 p \<longleftrightarrow> 8 dvd unat p"

lemma aligned8_apart:
  assumes "aligned8 p" "aligned8 q" "p \<noteq> q" "k < 8"
  shows "\<not> q + of_nat k - p < 8"
proof
  assume lt: "q + of_nat k - p < 8"
  have d: "8 dvd unat (q - p)"
    using assms(1,2) unfolding aligned8_def unat_sub_if_size by (auto simp: wsst_TYs(3) dvd_diff_nat)
  have k: "unat (of_nat k :: usize) = k" by (rule of_nat_small[OF assms(4)])
  obtain j where j: "unat (q - p) = 8 * j" using d by (elim dvdE)
  have "unat (q - p) + 8 \<le> 2 ^ 64"
    using aligned_block_fits[of 3 "q - p"] d by simp
  then have "unat (q - p + of_nat k) = unat (q - p) + k"
    using k assms(4) by (subst unat_add_nowrap) simp_all
  moreover have eq: "q + of_nat k - p = q - p + of_nat k" by (simp add: algebra_simps)
  ultimately have "unat (q - p) + k < 8" using lt unfolding eq word_less_nat_alt by simp
  then have "q - p = 0" using j by (simp add: word_unat_eq_iff)
  then show False using assms(3) by simp
qed

lemma load64_store64_other:
  "aligned8 p \<Longrightarrow> aligned8 q \<Longrightarrow> p \<noteq> q \<Longrightarrow> load64 (store64 m p v) q = load64 m q"
  by (rule load64_cong) (simp add: store64_def aligned8_apart)

subsection \<open>Pages\<close>

definition page_aligned :: "usize \<Rightarrow> bool" where
  "page_aligned p \<longleftrightarrow> 4096 dvd unat p"

definition page_of :: "usize \<Rightarrow> usize" where
  "page_of x = align_down x PAGE_SIZE"

lemma PAGE_SIZE_pow: "PAGE_SIZE = 2 ^ 12"
  by (simp add: PAGE_SIZE_def)

lemma unat_PAGE_SIZE [simp]: "unat PAGE_SIZE = 4096"
  by (simp add: PAGE_SIZE_def)

lemma unat_page_of: "unat (page_of x) = unat x - unat x mod 4096"
  using unat_align_down[of x 12] by (simp add: page_of_def PAGE_SIZE_pow)

lemma page_aligned_page_of [simp]: "page_aligned (page_of x)"
  by (simp add: page_aligned_def unat_page_of dvd_minus_mod)

lemma page_of_aligned: "page_aligned p \<Longrightarrow> page_of p = p"
  by (simp add: word_unat_eq_iff unat_page_of page_aligned_def)

lemma page_fits: "page_aligned p \<Longrightarrow> unat p + 4096 \<le> 2 ^ 64"
  using aligned_block_fits[of 12 p] by (simp add: page_aligned_def)

lemma unat_of_nat_page: "n < 4096 \<Longrightarrow> unat (of_nat n :: usize) = n"
  by (simp add: unsigned_of_nat take_bit_nat_eq_self)

lemma unat_in_page:
  assumes "page_aligned p" "n < 4096"
  shows "unat (p + of_nat n) = unat p + n"
  using page_fits[OF assms(1)] assms(2) by (subst unat_add_nowrap) (simp_all add: unat_of_nat_page)

lemma page_of_in_page:
  assumes "page_aligned p" "n < 4096"
  shows "page_of (p + of_nat n) = p"
proof -
  obtain k where "unat p = 4096 * k" using assms(1) by (auto simp: page_aligned_def elim: dvdE)
  then show ?thesis
    using assms(2) by (simp add: word_unat_eq_iff unat_page_of unat_in_page[OF assms])
qed

lemma in_page_iff:
  assumes "page_aligned p"
  shows "x - p < PAGE_SIZE \<longleftrightarrow> page_of x = p"
proof
  assume "x - p < PAGE_SIZE"
  then have n: "unat (x - p) < 4096" by (simp add: word_less_nat_alt)
  have "x = p + of_nat (unat (x - p))" by simp
  then show "page_of x = p" using page_of_in_page[OF assms n] by simp
next
  assume p: "page_of x = p"
  have "unat (x - p) = unat x mod 4096"
    unfolding p[symmetric] by (subst unat_sub) (simp_all add: word_le_nat_alt unat_page_of)
  then show "x - p < PAGE_SIZE" by (simp add: word_less_nat_alt)
qed

lemma page_aligned_add: "page_aligned p \<Longrightarrow> page_aligned q \<Longrightarrow> page_aligned (p + q)"
proof -
  assume "page_aligned p" "page_aligned q"
  then have "4096 dvd unat p + unat q" by (simp add: page_aligned_def)
  then have "4096 dvd (unat p + unat q) mod 2 ^ 64" by (rule dvd_mod) simp
  then show ?thesis by (simp add: page_aligned_def unat_word_ariths)
qed

subsection \<open>State of the memory manager\<close>

text \<open>
  The page allocator, memory, the offset of the higher-half direct map (\<open>HHDM_OFFSET\<close>) and the
  number of TLB shootdowns issued. \<open>mm_alloc\<close> and \<open>mm_free\<close> are \<open>buddy::alloc\<close> and \<open>buddy::free\<close> on
  the allocator of the state.
\<close>

record mm_state =
  frames :: buddy
  ram :: memory
  hhdm_off :: usize
  shootdowns :: nat

definition set_hhdm_offset :: "usize \<Rightarrow> mm_state \<Rightarrow> mm_state" where
  "set_hhdm_offset off st = st\<lparr>hhdm_off := off\<rparr>"

definition phys_to_virt :: "mm_state \<Rightarrow> usize \<Rightarrow> usize" where
  "phys_to_virt st phys = phys + hhdm_off st"

definition mm_virt_to_phys :: "mm_state \<Rightarrow> usize \<Rightarrow> usize" where
  "mm_virt_to_phys st virt = virt - hhdm_off st"

definition mm_alloc :: "nat \<Rightarrow> mm_state \<Rightarrow> (usize option \<times> mm_state) panicking" where
  "mm_alloc order st = map_option (\<lambda>(r, b). (r, st\<lparr>frames := b\<rparr>)) (buddy_alloc order (frames st))"

definition mm_free :: "usize \<Rightarrow> nat \<Rightarrow> mm_state \<Rightarrow> mm_state panicking" where
  "mm_free addr order st = map_option (\<lambda>b. st\<lparr>frames := b\<rparr>) (buddy_free addr order (frames st))"

definition tlb_shootdown_all :: "mm_state \<Rightarrow> mm_state" where
  "tlb_shootdown_all st = st\<lparr>shootdowns := Suc (shootdowns st)\<rparr>"

lemma mm_virt_phys_inverse [simp]:
  "mm_virt_to_phys st (phys_to_virt st p) = p" "phys_to_virt st (mm_virt_to_phys st v) = v"
  by (simp_all add: mm_virt_to_phys_def phys_to_virt_def)

text \<open>Zeroing a page changes the bytes of that page and no other.\<close>

definition zero_page :: "memory \<Rightarrow> usize \<Rightarrow> memory" where
  "zero_page m p = fill_bytes m p 0 PAGE_SIZE"

lemma zero_page_apply: "page_aligned p \<Longrightarrow> zero_page m p x = (if page_of x = p then 0 else m x)"
  by (simp add: zero_page_def fill_bytes_def in_page_iff)

text \<open>A page read as a table of 512 words: the address of entry \<open>i\<close>.\<close>

definition entry_ptr :: "usize \<Rightarrow> nat \<Rightarrow> usize" where
  "entry_ptr t i = t + of_nat (8 * i)"

lemma entry_ptr_byte: "entry_ptr t i + of_nat k = t + of_nat (8 * i + k)"
  by (simp add: entry_ptr_def add.assoc)

lemma page_of_entry_byte:
  "page_aligned t \<Longrightarrow> i < 512 \<Longrightarrow> k < 8 \<Longrightarrow> page_of (entry_ptr t i + of_nat k) = t"
  unfolding entry_ptr_byte by (rule page_of_in_page) auto

lemma entry_ptr_inj:
  assumes "page_aligned t" "page_aligned t'" "i < 512" "j < 512" "entry_ptr t i = entry_ptr t' j"
  shows "t = t' \<and> i = j"
proof -
  have "page_of (entry_ptr t i) = t" "page_of (entry_ptr t' j) = t'"
    using page_of_entry_byte[OF assms(1,3), of 0] page_of_entry_byte[OF assms(2,4), of 0] by auto
  then have t: "t = t'" unfolding assms(5) by (rule subst)
  have u: "unat (entry_ptr t i) = unat t + 8 * i"
    unfolding entry_ptr_def by (rule unat_in_page[OF assms(1)]) (use assms(3) in linarith)
  have "unat (entry_ptr t' j) = unat t' + 8 * j"
    unfolding entry_ptr_def by (rule unat_in_page[OF assms(2)]) (use assms(4) in linarith)
  then have "unat t + 8 * i = unat t' + 8 * j" using u unfolding assms(5) by linarith
  then show ?thesis using t by simp
qed

lemma aligned8_entry_ptr:
  assumes "page_aligned t" "i < 512"
  shows "aligned8 (entry_ptr t i)"
proof -
  have "8 dvd unat t" using assms(1) dvd_trans[of 8 4096 "unat t"] by (simp add: page_aligned_def)
  then show ?thesis
    using unat_in_page[OF assms(1), of "8 * i"] assms(2) by (simp add: entry_ptr_def aligned8_def)
qed

lemma load64_store64_entry:
  assumes "page_aligned t" "page_aligned t'" "i < 512" "j < 512"
  shows "load64 (store64 m (entry_ptr t i) v) (entry_ptr t' j) =
    (if t = t' \<and> i = j then v else load64 m (entry_ptr t' j))"
proof (cases "t = t' \<and> i = j")
  case False
  then have "entry_ptr t i \<noteq> entry_ptr t' j" using entry_ptr_inj[OF assms] by blast
  then show ?thesis
    using False load64_store64_other[OF aligned8_entry_ptr[OF assms(1,3)] aligned8_entry_ptr[OF assms(2,4)]]
    by auto
qed simp

lemma load64_zero_page:
  assumes "page_aligned z" "page_aligned t" "i < 512"
  shows "load64 (zero_page m z) (entry_ptr t i) = (if t = z then 0 else load64 m (entry_ptr t i))"
proof (cases "t = z")
  case True
  then have "load64 (zero_page m z) (entry_ptr t i) = load64 (\<lambda>_. 0) (entry_ptr t i)"
    by (intro load64_cong) (simp add: zero_page_apply assms page_of_entry_byte)
  moreover have "load64 (\<lambda>_. 0) p = 0" for p by (rule bit_word_eqI) (simp add: bit_load64)
  ultimately show ?thesis using True by simp
next
  case False
  then show ?thesis
    by (simp, intro load64_cong) (simp add: zero_page_apply assms page_of_entry_byte)
qed

lemma store64_in_page:
  assumes "page_aligned t" "i < 512" "page_of x \<noteq> t"
  shows "store64 m (entry_ptr t i) v x = m x"
proof -
  have "\<not> x - entry_ptr t i < 8"
  proof
    assume lt: "x - entry_ptr t i < 8"
    then have "unat (x - entry_ptr t i) < 8" by (simp add: word_less_nat_alt)
    then have "page_of (entry_ptr t i + of_nat (unat (x - entry_ptr t i))) = t"
      by (rule page_of_entry_byte[OF assms(1,2)])
    then show False using assms(3) by simp
  qed
  then show ?thesis by (simp add: store64_def)
qed

end
