(* ===== verification/Page_Tables.thy ===== *)
theory Page_Tables
  imports Memory
begin

text \<open>
  Four-level page tables, as both architectures lay them out: a table is a page of 512 words, an
  entry of the three upper levels points to the next table when its present bit is set, and the
  entry of the last level is the leaf. The theory gives the walk that the hardware makes over
  memory (\<open>pt_leaf\<close>), the invariant under which tables of one root form a tree, and what the three
  updates the code makes (upgrading an entry, hooking in a fresh table, writing a leaf) do to
  every walk. The architecture is a \<open>pt_fmt\<close>: how entries encode the present bit and the next
  table, whether tables are reached through the direct map, how many root slots are user space, and
  the bound below which an entry can hold a physical address.
\<close>

record pt_fmt =
  is_present :: "u64 \<Rightarrow> bool"
  next_table :: "u64 \<Rightarrow> usize"
  use_hhdm :: bool
  user_slots :: nat
  phys_limit :: nat

definition table_ptr :: "pt_fmt \<Rightarrow> mm_state \<Rightarrow> usize \<Rightarrow> usize" where
  "table_ptr f st t = (if use_hhdm f then phys_to_virt st t else t)"

definition pt_entry :: "pt_fmt \<Rightarrow> mm_state \<Rightarrow> usize \<Rightarrow> nat \<Rightarrow> u64" where
  "pt_entry f st t i = load64 (ram st) (entry_ptr (table_ptr f st t) i)"

definition pt_step :: "pt_fmt \<Rightarrow> mm_state \<Rightarrow> usize \<Rightarrow> nat \<Rightarrow> usize option" where
  "pt_step f st t i = (let e = pt_entry f st t i in if is_present f e then Some (next_table f e) else None)"

fun pt_tab :: "pt_fmt \<Rightarrow> mm_state \<Rightarrow> usize \<Rightarrow> nat list \<Rightarrow> usize option" where
  "pt_tab f st t [] = Some t"
| "pt_tab f st t (i # is) = Option.bind (pt_step f st t i) (\<lambda>t'. pt_tab f st t' is)"

definition va_idx :: "nat \<Rightarrow> usize \<Rightarrow> nat" where
  "va_idx n va = unat (drop_bit n va AND 0x1FF)"

definition va_path :: "usize \<Rightarrow> nat list" where
  "va_path va = [va_idx 39 va, va_idx 30 va, va_idx 21 va]"

definition pt_leaf :: "pt_fmt \<Rightarrow> mm_state \<Rightarrow> usize \<Rightarrow> usize \<Rightarrow> u64" where
  "pt_leaf f st root va =
     (case pt_tab f st root (va_path va) of None \<Rightarrow> 0 | Some t \<Rightarrow> pt_entry f st t (va_idx 12 va))"

definition valid_path :: "pt_fmt \<Rightarrow> nat list \<Rightarrow> bool" where
  "valid_path f p \<longleftrightarrow> length p \<le> 3 \<and> list_all (\<lambda>i. i < 512) p \<and> (p = [] \<or> hd p < user_slots f)"

definition pt_wf :: "pt_fmt \<Rightarrow> mm_state \<Rightarrow> usize \<Rightarrow> bool" where
  "pt_wf f st root \<longleftrightarrow> buddy_inv (frames st) \<and> page_aligned (hhdm_off st)
     \<and> free_bytes (frames st) \<subseteq> {..< phys_limit f}
     \<and> (\<forall>p t. valid_path f p \<longrightarrow> pt_tab f st root p = Some t \<longrightarrow>
          page_aligned t \<and> blk t 0 \<inter> free_bytes (frames st) = {})
     \<and> (\<forall>p q t. valid_path f p \<longrightarrow> valid_path f q \<longrightarrow> pt_tab f st root p = Some t \<longrightarrow>
          pt_tab f st root q = Some t \<longrightarrow> p = q)"

definition user_va :: "pt_fmt \<Rightarrow> usize \<Rightarrow> bool" where
  "user_va f va \<longleftrightarrow> va_idx 39 va < user_slots f"

definition pt_pages :: "pt_fmt \<Rightarrow> mm_state \<Rightarrow> usize \<Rightarrow> usize set" where
  "pt_pages f st root = {t. \<exists>p. valid_path f p \<and> pt_tab f st root p = Some t}"

subsection \<open>Paths\<close>

lemma va_idx_lt [simp]: "va_idx n va < 512"
proof -
  have "drop_bit n va AND 0x1FF = take_bit 9 (drop_bit n va)"
    by (simp add: take_bit_eq_mask mask_eq_exp_minus_1)
  then have "va_idx n va = unat (take_bit 9 (drop_bit n va))" by (simp add: va_idx_def)
  also have "\<dots> = take_bit 9 (unat (drop_bit n va))" by (simp add: unsigned_take_bit_eq)
  finally show ?thesis using take_bit_nat_less_exp[of 9 "unat (drop_bit n va)"] by simp
qed

lemma valid_va_path: "user_va f va \<Longrightarrow> valid_path f (va_path va)"
  by (simp add: valid_path_def va_path_def user_va_def)

lemma valid_path_snocD: "valid_path f (p @ [i]) \<Longrightarrow> valid_path f p \<and> length p < 3 \<and> i < 512"
  by (cases p) (auto simp: valid_path_def)

lemma valid_path_Nil [simp]: "valid_path f []"
  by (simp add: valid_path_def)

lemma pt_tab_snoc: "pt_tab f st t (p @ [i]) = Option.bind (pt_tab f st t p) (\<lambda>u. pt_step f st u i)"
proof (induction p arbitrary: t)
  case Nil
  then show ?case by (cases "pt_step f st t i") auto
next
  case (Cons j p)
  then show ?case by (cases "pt_step f st t j") auto
qed

lemma pt_wfD:
  assumes "pt_wf f st root"
  shows "buddy_inv (frames st)" "page_aligned (hhdm_off st)"
    "valid_path f p \<Longrightarrow> pt_tab f st root p = Some t \<Longrightarrow> page_aligned t"
    "valid_path f p \<Longrightarrow> pt_tab f st root p = Some t \<Longrightarrow> blk t 0 \<inter> free_bytes (frames st) = {}"
    "valid_path f p \<Longrightarrow> valid_path f q \<Longrightarrow> pt_tab f st root p = Some t \<Longrightarrow> pt_tab f st root q = Some t \<Longrightarrow> p = q"
    "free_bytes (frames st) \<subseteq> {..< phys_limit f}"
  using assms unfolding pt_wf_def by blast+

subsection \<open>Entries\<close>

definition set_entry :: "pt_fmt \<Rightarrow> mm_state \<Rightarrow> usize \<Rightarrow> nat \<Rightarrow> u64 \<Rightarrow> mm_state" where
  "set_entry f st t i e = st\<lparr>ram := store64 (ram st) (entry_ptr (table_ptr f st t) i) e\<rparr>"

lemma set_entry_frames [simp]:
  "frames (set_entry f st t i e) = frames st" "hhdm_off (set_entry f st t i e) = hhdm_off st"
  "shootdowns (set_entry f st t i e) = shootdowns st"
  by (simp_all add: set_entry_def)

lemma table_ptr_cong: "hhdm_off st = hhdm_off st' \<Longrightarrow> table_ptr f st t = table_ptr f st' t"
  by (simp add: table_ptr_def phys_to_virt_def)

lemma table_ptr_inj [simp]: "table_ptr f st t = table_ptr f st u \<longleftrightarrow> t = u"
  by (simp add: table_ptr_def phys_to_virt_def)

lemma table_ptr_aligned: "page_aligned (hhdm_off st) \<Longrightarrow> page_aligned t \<Longrightarrow> page_aligned (table_ptr f st t)"
  by (simp add: table_ptr_def phys_to_virt_def page_aligned_add)

lemma pt_entry_set_entry:
  assumes "page_aligned (hhdm_off st)" "page_aligned t" "page_aligned u" "i < 512" "j < 512"
  shows "pt_entry f (set_entry f st t i e) u j = (if u = t \<and> j = i then e else pt_entry f st u j)"
  using load64_store64_entry[OF table_ptr_aligned[OF assms(1,2)] table_ptr_aligned[OF assms(1,3)] assms(4,5)]
    table_ptr_cong[of "set_entry f st t i e" st f]
  by (auto simp: pt_entry_def) (auto simp: set_entry_def)

subsection \<open>Updates that keep the tree\<close>

lemma pt_tab_cong:
  assumes "\<And>q u j. valid_path f (q @ [j]) \<Longrightarrow> pt_tab f st root q = Some u \<Longrightarrow> pt_step f st' u j = pt_step f st u j"
    and "valid_path f p"
  shows "pt_tab f st' root p = pt_tab f st root p"
  using assms(2)
proof (induction p rule: rev_induct)
  case (snoc j q)
  have "pt_tab f st' root q = pt_tab f st root q" using snoc valid_path_snocD by blast
  then show ?case
    using assms(1)[OF snoc.prems] by (cases "pt_tab f st root q") (auto simp: pt_tab_snoc)
qed simp

text \<open>Same allocator and the same tables: the invariant carries over.\<close>

lemma pt_wf_cong:
  assumes "pt_wf f st root" "\<And>p. valid_path f p \<Longrightarrow> pt_tab f st' root p = pt_tab f st root p"
    "buddy_inv (frames st')" "free_bytes (frames st') \<subseteq> free_bytes (frames st)" "hhdm_off st' = hhdm_off st"
  shows "pt_wf f st' root"
  unfolding pt_wf_def
proof (intro conjI allI impI)
  show "buddy_inv (frames st')" by fact
  show "page_aligned (hhdm_off st')" using pt_wfD(2)[OF assms(1)] assms(5) by simp
  show "free_bytes (frames st') \<subseteq> {..< phys_limit f}" using pt_wfD(6)[OF assms(1)] assms(4) by blast
  fix p t assume p: "valid_path f p" "pt_tab f st' root p = Some t"
  then have t: "pt_tab f st root p = Some t" using assms(2) by simp
  show "page_aligned t" using pt_wfD(3)[OF assms(1) p(1) t] .
  show "blk t 0 \<inter> free_bytes (frames st') = {}" using pt_wfD(4)[OF assms(1) p(1) t] assms(4) by auto
next
  fix p q t assume "valid_path f p" "valid_path f q" "pt_tab f st' root p = Some t" "pt_tab f st' root q = Some t"
  then show "p = q" using pt_wfD(5)[OF assms(1)] assms(2) by metis
qed

lemma pt_leaf_cong:
  assumes "\<And>p. valid_path f p \<Longrightarrow> pt_tab f st' root p = pt_tab f st root p" "user_va f va"
    "\<And>t j. pt_tab f st root (va_path va) = Some t \<Longrightarrow> j < 512 \<Longrightarrow> pt_entry f st' t j = pt_entry f st t j"
  shows "pt_leaf f st' root va = pt_leaf f st root va"
  using assms(1)[OF valid_va_path[OF assms(2)]] assms(3)
  by (cases "pt_tab f st root (va_path va)") (auto simp: pt_leaf_def)

lemma upper_table_not_leaf_table:
  assumes "pt_wf f st root" "valid_path f p" "length p < 3" "pt_tab f st root p = Some t" "user_va f va"
  shows "pt_tab f st root (va_path va) \<noteq> Some t"
proof
  assume "pt_tab f st root (va_path va) = Some t"
  then have "p = va_path va" using pt_wfD(5)[OF assms(1,2) valid_va_path[OF assms(5)] assms(4)] by simp
  then show False using assms(3) by (simp add: va_path_def)
qed

lemma upgrade_entry:
  assumes wf: "pt_wf f st root" and p: "valid_path f (p @ [i])" "pt_tab f st root p = Some t"
    and e: "is_present f e = is_present f (pt_entry f st t i)" "next_table f e = next_table f (pt_entry f st t i)"
  defines "st' \<equiv> set_entry f st t i e"
  shows "valid_path f q \<Longrightarrow> pt_tab f st' root q = pt_tab f st root q"
    "pt_wf f st' root" "user_va f va \<Longrightarrow> pt_leaf f st' root va = pt_leaf f st root va"
proof -
  note vp = valid_path_snocD[OF p(1)]
  have ent: "pt_entry f st' u j = (if u = t \<and> j = i then e else pt_entry f st u j)"
    if "valid_path f q" "pt_tab f st root q = Some u" "j < 512" for q u j
    unfolding st'_def using pt_entry_set_entry[OF pt_wfD(2)[OF wf] pt_wfD(3)[OF wf _ p(2)] pt_wfD(3)[OF wf that(1,2)]] vp that(3)
    by simp
  show tab: "pt_tab f st' root q = pt_tab f st root q" if "valid_path f q" for q
  proof (rule pt_tab_cong[OF _ that])
    fix q u j assume "valid_path f (q @ [j])" "pt_tab f st root q = Some u"
    then show "pt_step f st' u j = pt_step f st u j"
      using ent[of q u j] valid_path_snocD[of f q j] e by (auto simp: pt_step_def Let_def)
  qed
  show "pt_wf f st' root"
    by (rule pt_wf_cong[OF wf tab]) (use pt_wfD(1)[OF wf] in \<open>simp_all add: st'_def\<close>)
  show "pt_leaf f st' root va = pt_leaf f st root va" if va: "user_va f va" for va
  proof (rule pt_leaf_cong[OF tab va])
    fix u and j :: nat assume u: "pt_tab f st root (va_path va) = Some u" "j < 512"
    then have "u \<noteq> t" using upper_table_not_leaf_table[OF wf _ _ p(2) va] vp by auto
    then show "pt_entry f st' u j = pt_entry f st u j" using ent[OF valid_va_path[OF va] u] by simp
  qed
qed

text \<open>Hooking a fresh, empty table \<open>z\<close> into an absent entry.\<close>

lemma hook_tab:
  assumes wf: "pt_wf f st root" and p: "valid_path f (p @ [i])" "pt_tab f st root p = Some t"
    and absent: "pt_step f st t i = None"
    and st': "pt_step f st' t i = Some z"
    and other: "\<And>q u j. valid_path f (q @ [j]) \<Longrightarrow> pt_tab f st root q = Some u \<Longrightarrow> (u, j) \<noteq> (t, i) \<Longrightarrow>
      pt_step f st' u j = pt_step f st u j"
    and empty: "\<And>j. j < 512 \<Longrightarrow> pt_step f st' z j = None"
    and q: "valid_path f q"
  shows "pt_tab f st' root q = (if q = p @ [i] then Some z else pt_tab f st root q)"
  using q
proof (induction q rule: rev_induct)
  case (snoc j q)
  note vq = valid_path_snocD[OF snoc.prems]
  note IH = snoc.IH[OF vq[THEN conjunct1]]
  show ?case
  proof (cases "q = p @ [i]")
    case True
    have "pt_tab f st root q = None" unfolding True pt_tab_snoc using p(2) absent by simp
    moreover have "pt_tab f st' root q = Some z" using IH True by simp
    moreover have "q @ [j] \<noteq> p @ [i]" using True by simp
    ultimately show ?thesis using empty[of j] vq unfolding pt_tab_snoc by simp
  next
    case False
    show ?thesis
    proof (cases "pt_tab f st root q")
      case None
      then have "q \<noteq> p" using p(2) by auto
      then show ?thesis using IH False None by (simp add: pt_tab_snoc)
    next
      case (Some u)
      show ?thesis
      proof (cases "(u, j) = (t, i)")
        case True
        then have "q = p" using pt_wfD(5)[OF wf _ _ Some] p vq valid_path_snocD[OF p(1)] by auto
        then show ?thesis using IH False Some True st' by (simp add: pt_tab_snoc)
      next
        case neq: False
        then have "q @ [j] \<noteq> p @ [i]" using Some p(2) by auto
        then show ?thesis using IH False Some other[OF snoc.prems Some neq] by (auto simp: pt_tab_snoc)
      qed
    qed
  qed
qed (use assms in auto)

text \<open>A page from the allocator, zeroed where the kernel reaches it.\<close>

definition fresh_table :: "pt_fmt \<Rightarrow> mm_state \<Rightarrow> (usize option \<times> mm_state) panicking" where
  "fresh_table f st = map_option (\<lambda>(r, st1). case r of
     None \<Rightarrow> (None, st1)
   | Some z \<Rightarrow> (Some z, st1\<lparr>ram := zero_page (ram st1) (table_ptr f st1 z)\<rparr>)) (mm_alloc 0 st)"

lemma mm_alloc_Some:
  assumes "buddy_inv (frames st)" "mm_alloc order st = Some (Some a, st')"
  shows "buddy_inv (frames st')" "bsz order dvd unat a" "blk a order \<subseteq> free_bytes (frames st)"
    "free_bytes (frames st') = free_bytes (frames st) - blk a order"
    "ram st' = ram st" "hhdm_off st' = hhdm_off st" "shootdowns st' = shootdowns st"
proof -
  from assms(2) obtain b where b: "buddy_alloc order (frames st) = Some (Some a, b)" "st' = st\<lparr>frames := b\<rparr>"
    by (auto simp: mm_alloc_def)
  note s = buddy_alloc_sound[OF assms(1) b(1)]
  show "buddy_inv (frames st')" "bsz order dvd unat a" "blk a order \<subseteq> free_bytes (frames st)"
    "free_bytes (frames st') = free_bytes (frames st) - blk a order"
    "ram st' = ram st" "hhdm_off st' = hhdm_off st" "shootdowns st' = shootdowns st"
    using s b(2) by auto
qed

lemma mm_alloc_None:
  assumes "buddy_inv (frames st)" "mm_alloc order st = Some (None, st')"
  shows "st' = st"
  using assms alloc_None_iff[of "frames st" order]
  by (auto simp: mm_alloc_def buddy_inv_def lists_inv_def)

lemma mm_alloc_returns: "order < MAX_ORDER \<Longrightarrow> \<exists>r st'. mm_alloc order st = Some (r, st')"
  by (auto simp: mm_alloc_def buddy_alloc_def split: option.splits)

lemma blk_0_mem: "unat t \<in> blk t 0"
  by (simp add: blk_def)

lemma fresh_table_Some:
  assumes wf: "pt_wf f st root" and a: "fresh_table f st = Some (Some z, st')"
  shows "page_aligned z" "z \<notin> pt_pages f st root" "hhdm_off st' = hhdm_off st"
    "buddy_inv (frames st')" "blk z 0 \<subseteq> free_bytes (frames st)"
    "free_bytes (frames st') = free_bytes (frames st) - blk z 0"
    "page_of x \<noteq> table_ptr f st z \<Longrightarrow> ram st' x = ram st x"
    "page_aligned t \<Longrightarrow> j < 512 \<Longrightarrow> pt_entry f st' t j = (if t = z then 0 else pt_entry f st t j)"
proof -
  from a obtain st1 where m: "mm_alloc 0 st = Some (Some z, st1)"
    and st': "st' = st1\<lparr>ram := zero_page (ram st1) (table_ptr f st1 z)\<rparr>"
    by (auto simp: fresh_table_def split: option.splits)
  note al = mm_alloc_Some[OF pt_wfD(1)[OF wf] m]
  have tp: "table_ptr f st' t = table_ptr f st t" "table_ptr f st1 t = table_ptr f st t" for t
    using al(6) by (auto intro: table_ptr_cong simp: st')
  show z: "page_aligned z" using al(2) by (simp add: page_aligned_def bsz_def)
  show "z \<notin> pt_pages f st root"
  proof
    assume "z \<in> pt_pages f st root"
    then obtain p where "valid_path f p" "pt_tab f st root p = Some z" by (auto simp: pt_pages_def)
    from pt_wfD(4)[OF wf this] show False using al(3) blk_0_mem[of z] by auto
  qed
  note zt = table_ptr_aligned[OF pt_wfD(2)[OF wf] z, of f]
  show "hhdm_off st' = hhdm_off st" "buddy_inv (frames st')" "blk z 0 \<subseteq> free_bytes (frames st)"
    "free_bytes (frames st') = free_bytes (frames st) - blk z 0" using al st' by auto
  show "page_of x \<noteq> table_ptr f st z \<Longrightarrow> ram st' x = ram st x"
    using zt al(5) by (simp add: st' tp zero_page_apply)
  show "pt_entry f st' t j = (if t = z then 0 else pt_entry f st t j)" if "page_aligned t" "j < 512"
    using load64_zero_page[OF zt table_ptr_aligned[OF pt_wfD(2)[OF wf] that(1)] that(2)] al(5)
    unfolding pt_entry_def tp by (simp add: st' tp)
qed

lemma fresh_table_keeps:
  assumes wf: "pt_wf f st root" and a: "fresh_table f st = Some (Some z, st')"
  shows "valid_path f q \<Longrightarrow> pt_tab f st' root q = pt_tab f st root q"
    "pt_wf f st' root" "user_va f va \<Longrightarrow> pt_leaf f st' root va = pt_leaf f st root va"
proof -
  note ft = fresh_table_Some[OF wf a]
  have ent: "pt_entry f st' u j = pt_entry f st u j"
    if "valid_path f q" "pt_tab f st root q = Some u" "j < 512" for q u j
    using ft(2,8) pt_wfD(3)[OF wf that(1,2)] that by (auto simp: pt_pages_def)
  show tab: "pt_tab f st' root q = pt_tab f st root q" if "valid_path f q" for q
  proof (rule pt_tab_cong[OF _ that])
    fix q u j assume "valid_path f (q @ [j])" "pt_tab f st root q = Some u"
    then show "pt_step f st' u j = pt_step f st u j"
      using ent[of q u j] valid_path_snocD[of f q j] by (simp add: pt_step_def)
  qed
  show "pt_wf f st' root"
    by (rule pt_wf_cong[OF wf tab]) (use ft in auto)
  show "pt_leaf f st' root va = pt_leaf f st root va" if va: "user_va f va" for va
    by (rule pt_leaf_cong[OF tab va]) (use ent[OF valid_va_path[OF va]] in auto)
qed

lemma hook_entry:
  assumes wf: "pt_wf f st root" and p: "valid_path f (p @ [i])" "pt_tab f st root p = Some t"
    and absent: "\<not> is_present f (pt_entry f st t i)"
    and z: "page_aligned z" "z \<notin> pt_pages f st root" "blk z 0 \<inter> free_bytes (frames st) = {}"
      "\<forall>j < 512. pt_entry f st z j = 0"
    and e: "is_present f e" "next_table f e = z" and fmt: "\<not> is_present f 0"
  defines "st' \<equiv> set_entry f st t i e"
  shows "valid_path f q \<Longrightarrow> pt_tab f st' root q = (if q = p @ [i] then Some z else pt_tab f st root q)"
    "pt_wf f st' root" "user_va f va \<Longrightarrow> pt_leaf f st' root va = pt_leaf f st root va"
proof -
  note vp = valid_path_snocD[OF p(1)]
  have al: "page_aligned t" using pt_wfD(3)[OF wf _ p(2)] vp by simp
  have tz: "t \<noteq> z" using z(2) p(2) vp by (auto simp: pt_pages_def)
  have ent: "pt_entry f st' u j = (if u = t \<and> j = i then e else pt_entry f st u j)"
    if "page_aligned u" "j < 512" for u j
    unfolding st'_def using pt_entry_set_entry[OF pt_wfD(2)[OF wf] al that(1) _ that(2)] vp by simp
  have old: "pt_entry f st' u j = (if u = t \<and> j = i then e else pt_entry f st u j)"
    if "valid_path f q" "pt_tab f st root q = Some u" "j < 512" for q u j
    using ent pt_wfD(3)[OF wf that(1,2)] that(3) by blast
  show tab: "pt_tab f st' root q = (if q = p @ [i] then Some z else pt_tab f st root q)"
    if "valid_path f q" for q
  proof (rule hook_tab[OF wf p _ _ _ _ that])
    show "pt_step f st t i = None" using absent by (simp add: pt_step_def)
    show "pt_step f st' t i = Some z" using ent[OF al] vp e by (simp add: pt_step_def)
    show "pt_step f st' z j = None" if "j < 512" for j
      using ent[OF z(1) that] z(4) that tz fmt by (auto simp: pt_step_def)
    fix q u j assume "valid_path f (q @ [j])" "pt_tab f st root q = Some u" "(u, j) \<noteq> (t, i)"
    then show "pt_step f st' u j = pt_step f st u j"
      using old[of q u j] valid_path_snocD[of f q j] by (auto simp: pt_step_def)
  qed
  have notz: "pt_tab f st root q \<noteq> Some z" if "valid_path f q" for q
    using z(2) that by (auto simp: pt_pages_def)
  show "pt_wf f st' root"
    unfolding pt_wf_def
  proof (intro conjI allI impI)
    show "buddy_inv (frames st')" "page_aligned (hhdm_off st')" "free_bytes (frames st') \<subseteq> {..< phys_limit f}"
      using pt_wfD(1,2,6)[OF wf] by (simp_all add: st'_def)
    fix q u assume q: "valid_path f q" "pt_tab f st' root q = Some u"
    then show "page_aligned u" "blk u 0 \<inter> free_bytes (frames st') = {}"
      using tab[OF q(1)] pt_wfD(3,4)[OF wf q(1)] z(1,3) by (auto simp: st'_def split: if_splits)
  next
    fix q r u
    assume qr: "valid_path f q" "valid_path f r" "pt_tab f st' root q = Some u" "pt_tab f st' root r = Some u"
    then show "q = r"
      using tab[OF qr(1)] tab[OF qr(2)] notz pt_wfD(5)[OF wf qr(1,2), of u] by (auto split: if_splits)
  qed
  show "pt_leaf f st' root va = pt_leaf f st root va" if va: "user_va f va" for va
  proof (cases "va_path va = p @ [i]")
    case True
    have "pt_tab f st root (va_path va) = None"
      unfolding True pt_tab_snoc using p(2) absent by (simp add: pt_step_def)
    then show ?thesis
      using tab[OF valid_va_path[OF va]] True ent[OF z(1)] z(4) tz by (simp add: pt_leaf_def)
  next
    case False
    have "pt_tab f st root (va_path va) \<noteq> Some t"
      using upper_table_not_leaf_table[OF wf _ _ p(2) va] vp by blast
    then show ?thesis
      using tab[OF valid_va_path[OF va]] False old[OF valid_va_path[OF va]]
      by (cases "pt_tab f st root (va_path va)") (auto simp: pt_leaf_def)
  qed
qed

text \<open>Writing a leaf changes the walk of its own page only.\<close>

lemma write_leaf:
  fixes e :: u64
  assumes wf: "pt_wf f st root" and va: "user_va f va" "pt_tab f st root (va_path va) = Some t"
  defines "st' \<equiv> set_entry f st t (va_idx 12 va) e"
  shows "valid_path f q \<Longrightarrow> pt_tab f st' root q = pt_tab f st root q" "pt_wf f st' root"
    "user_va f va' \<Longrightarrow> pt_leaf f st' root va' =
      (if va_path va' = va_path va \<and> va_idx 12 va' = va_idx 12 va then e else pt_leaf f st root va')"
proof -
  note vv = valid_va_path[OF va(1)]
  have al: "page_aligned t" using pt_wfD(3)[OF wf vv va(2)] .
  have old: "pt_entry f st' u j = (if u = t \<and> j = va_idx 12 va then e else pt_entry f st u j)"
    if "valid_path f q" "pt_tab f st root q = Some u" "j < 512" for q u j
    unfolding st'_def using pt_entry_set_entry[OF pt_wfD(2)[OF wf] al pt_wfD(3)[OF wf that(1,2)]] that(3) by simp
  show tab: "pt_tab f st' root q = pt_tab f st root q" if "valid_path f q" for q
  proof (rule pt_tab_cong[OF _ that])
    fix q u j assume q: "valid_path f (q @ [j])" "pt_tab f st root q = Some u"
    have "u \<noteq> t" using upper_table_not_leaf_table[OF wf _ _ q(2) va(1)] valid_path_snocD[OF q(1)] va(2) by auto
    then show "pt_step f st' u j = pt_step f st u j"
      using old[of q u j] valid_path_snocD[OF q(1)] q(2) by (auto simp: pt_step_def)
  qed
  show "pt_wf f st' root"
    by (rule pt_wf_cong[OF wf tab]) (use pt_wfD(1)[OF wf] in \<open>simp_all add: st'_def\<close>)
  show "pt_leaf f st' root va' =
      (if va_path va' = va_path va \<and> va_idx 12 va' = va_idx 12 va then e else pt_leaf f st root va')"
    if va': "user_va f va'" for va'
  proof (cases "pt_tab f st root (va_path va')")
    case None
    then show ?thesis using va(2) tab[OF valid_va_path[OF va']] by (auto simp: pt_leaf_def)
  next
    case (Some u)
    have "u = t \<longleftrightarrow> va_path va' = va_path va"
      using pt_wfD(5)[OF wf valid_va_path[OF va'] vv Some] va(2) Some by auto
    then show ?thesis
      using Some tab[OF valid_va_path[OF va']] old[OF valid_va_path[OF va'] Some] by (auto simp: pt_leaf_def)
  qed
qed

subsection \<open>Growing the tree\<close>

text \<open>
  \<open>pt_ext\<close>: the second state extends the tables of the first under the same root. Tables stay where
  they were, new ones were free, and memory changes only inside the tables of the root.
\<close>

definition pt_ext :: "pt_fmt \<Rightarrow> usize \<Rightarrow> mm_state \<Rightarrow> mm_state \<Rightarrow> bool" where
  "pt_ext f root st st' \<longleftrightarrow> pt_wf f st' root \<and> hhdm_off st' = hhdm_off st
     \<and> free_bytes (frames st') \<subseteq> free_bytes (frames st)
     \<and> (\<forall>q u. valid_path f q \<longrightarrow> pt_tab f st root q = Some u \<longrightarrow> pt_tab f st' root q = Some u)
     \<and> pt_pages f st' root \<subseteq> pt_pages f st root \<union> {z. blk z 0 \<subseteq> free_bytes (frames st)}
     \<and> (\<forall>x. page_of x \<notin> table_ptr f st ` pt_pages f st' root \<longrightarrow> ram st' x = ram st x)"

definition same_leaves :: "pt_fmt \<Rightarrow> usize \<Rightarrow> mm_state \<Rightarrow> mm_state \<Rightarrow> bool" where
  "same_leaves f root st st' \<longleftrightarrow> (\<forall>va. user_va f va \<longrightarrow> pt_leaf f st' root va = pt_leaf f st root va)"

lemma pt_ext_refl: "pt_wf f st root \<Longrightarrow> pt_ext f root st st"
  by (simp add: pt_ext_def)

lemma pt_extD:
  assumes "pt_ext f root st st'"
  shows "pt_wf f st' root" "hhdm_off st' = hhdm_off st" "free_bytes (frames st') \<subseteq> free_bytes (frames st)"
    "valid_path f q \<Longrightarrow> pt_tab f st root q = Some u \<Longrightarrow> pt_tab f st' root q = Some u"
    "pt_pages f st' root \<subseteq> pt_pages f st root \<union> {z. blk z 0 \<subseteq> free_bytes (frames st)}"
    "page_of x \<notin> table_ptr f st ` pt_pages f st' root \<Longrightarrow> ram st' x = ram st x"
  using assms unfolding pt_ext_def by blast+

lemma pt_pages_mono: "pt_ext f root st st' \<Longrightarrow> pt_pages f st root \<subseteq> pt_pages f st' root"
  using pt_extD(4) unfolding pt_pages_def by blast

lemma pt_ext_trans:
  assumes a: "pt_ext f root st st1" and b: "pt_ext f root st1 st2"
  shows "pt_ext f root st st2"
  unfolding pt_ext_def
proof (intro conjI allI impI)
  show "pt_wf f st2 root" by (rule pt_extD(1)[OF b])
  show "hhdm_off st2 = hhdm_off st" using pt_extD(2)[OF a] pt_extD(2)[OF b] by simp
  show "free_bytes (frames st2) \<subseteq> free_bytes (frames st)" using pt_extD(3)[OF a] pt_extD(3)[OF b] by blast
  show "pt_tab f st2 root q = Some u" if "valid_path f q" "pt_tab f st root q = Some u" for q u
    using pt_extD(4)[OF a that] pt_extD(4)[OF b that(1)] by blast
  show "pt_pages f st2 root \<subseteq> pt_pages f st root \<union> {z. blk z 0 \<subseteq> free_bytes (frames st)}"
    using pt_extD(5)[OF a] pt_extD(5)[OF b] pt_extD(3)[OF a] by blast
  fix x assume x: "page_of x \<notin> table_ptr f st ` pt_pages f st2 root"
  have tp: "table_ptr f st1 = table_ptr f st"
    using pt_extD(2)[OF a] by (intro ext table_ptr_cong)
  have "ram st2 x = ram st1 x" using pt_extD(6)[OF b] x tp by simp
  also have "\<dots> = ram st x" using pt_extD(6)[OF a] x pt_pages_mono[OF b] by blast
  finally show "ram st2 x = ram st x" .
qed

lemma set_entry_frame:
  assumes "page_aligned (hhdm_off st)" "page_aligned t" "i < 512" "page_of x \<noteq> table_ptr f st t"
  shows "ram (set_entry f st t i e) x = ram st x"
  using store64_in_page[OF table_ptr_aligned[OF assms(1,2)] assms(3,4)] by (simp add: set_entry_def)

lemma pt_ext_upgrade:
  assumes wf: "pt_wf f st root" and p: "valid_path f (p @ [i])" "pt_tab f st root p = Some t"
    and e: "is_present f e = is_present f (pt_entry f st t i)" "next_table f e = next_table f (pt_entry f st t i)"
  shows "pt_ext f root st (set_entry f st t i e)" "same_leaves f root st (set_entry f st t i e)"
proof -
  note u = upgrade_entry[OF wf p e]
  note vp = valid_path_snocD[OF p(1)]
  have pages: "pt_pages f (set_entry f st t i e) root = pt_pages f st root"
    using u(1) unfolding pt_pages_def by auto
  have "t \<in> pt_pages f st root" using p(2) vp by (auto simp: pt_pages_def)
  then have "ram (set_entry f st t i e) x = ram st x" if "page_of x \<notin> table_ptr f st ` pt_pages f st root" for x
    using set_entry_frame[OF pt_wfD(2)[OF wf] pt_wfD(3)[OF wf _ p(2)]] vp that by blast
  then show "pt_ext f root st (set_entry f st t i e)"
    using u pages unfolding pt_ext_def by simp
  show "same_leaves f root st (set_entry f st t i e)" using u(3) by (simp add: same_leaves_def)
qed

lemma pt_ext_fresh_hook:
  assumes wf: "pt_wf f st root" and p: "valid_path f (p @ [i])" "pt_tab f st root p = Some t"
    and absent: "\<not> is_present f (pt_entry f st t i)" and fresh: "fresh_table f st = Some (Some z, st1)"
    and e: "is_present f e" "next_table f e = z" and fmt: "\<not> is_present f 0"
  defines "st' \<equiv> set_entry f st1 t i e"
  shows "pt_ext f root st st'" "same_leaves f root st st'" "pt_tab f st' root (p @ [i]) = Some z"
proof -
  note ft = fresh_table_Some[OF wf fresh] and fk = fresh_table_keeps[OF wf fresh]
  note vp = valid_path_snocD[OF p(1)]
  have p1: "pt_tab f st1 root p = Some t" using fk(1) p(2) vp by simp
  have al: "page_aligned t" using pt_wfD(3)[OF wf _ p(2)] vp by blast
  have tz: "t \<noteq> z" using ft(2) p(2) vp by (auto simp: pt_pages_def)
  have pages1: "pt_pages f st1 root = pt_pages f st root" using fk(1) unfolding pt_pages_def by auto
  have h: "\<not> is_present f (pt_entry f st1 t i)" "z \<notin> pt_pages f st1 root"
    "blk z 0 \<inter> free_bytes (frames st1) = {}" "\<forall>j < 512. pt_entry f st1 z j = 0"
    using ft absent vp al tz pages1 by auto
  note hk = hook_entry[OF fk(2) p(1) p1 h(1) ft(1) h(2-4) e fmt, folded st'_def]
  have pages: "pt_pages f st' root \<subseteq> insert z (pt_pages f st root)"
    using hk(1) pages1 unfolding pt_pages_def by (auto split: if_splits)
  show tab: "pt_tab f st' root (p @ [i]) = Some z" using hk(1)[OF p(1)] by simp
  have zin: "z \<in> pt_pages f st' root" using tab p(1) by (auto simp: pt_pages_def)
  have off: "hhdm_off st1 = hhdm_off st" by (rule ft(3))
  have tp: "table_ptr f st1 = table_ptr f st" using off by (intro ext table_ptr_cong)
  have mono: "pt_tab f st' root q = Some u" if "valid_path f q" "pt_tab f st root q = Some u" for q u
  proof -
    have "q \<noteq> p @ [i]" using that(2) p(2) absent by (auto simp: pt_tab_snoc pt_step_def)
    then show ?thesis using hk(1)[OF that(1)] fk(1)[OF that(1)] that(2) by simp
  qed
  have tin: "t \<in> pt_pages f st' root" using mono[OF _ p(2)] vp by (auto simp: pt_pages_def)
  have frame: "ram st' x = ram st x" if x: "page_of x \<notin> table_ptr f st ` pt_pages f st' root" for x
  proof -
    have "ram st' x = ram st1 x"
      unfolding st'_def by (rule set_entry_frame) (use vp al tin x pt_wfD(2)[OF fk(2)] tp in auto)
    also have "\<dots> = ram st x" using ft(7)[of x] x zin by blast
    finally show ?thesis .
  qed
  show "pt_ext f root st st'"
    unfolding pt_ext_def using hk(2) off ft(5,6) mono pages frame by (auto simp: st'_def)
  show "same_leaves f root st st'" using hk(3) fk(3) by (simp add: same_leaves_def)
qed

lemma pt_ext_leaf:
  assumes wf: "pt_wf f st root" and va: "user_va f va" "pt_tab f st root (va_path va) = Some t"
  shows "pt_ext f root st (set_entry f st t (va_idx 12 va) e)"
proof -
  note u = write_leaf[OF wf va]
  note vv = valid_va_path[OF va(1)]
  have pages: "pt_pages f (set_entry f st t (va_idx 12 va) e) root = pt_pages f st root"
    using u(1) unfolding pt_pages_def by auto
  have "t \<in> pt_pages f st root" using va(2) vv by (auto simp: pt_pages_def)
  then have "ram (set_entry f st t (va_idx 12 va) e) x = ram st x"
    if "page_of x \<notin> table_ptr f st ` pt_pages f st root" for x
    using set_entry_frame[OF pt_wfD(2)[OF wf] pt_wfD(3)[OF wf vv va(2)] va_idx_lt] that by blast
  then show ?thesis using u pages unfolding pt_ext_def by simp
qed

subsection \<open>The code that walks and grows the tables\<close>

text \<open>
  \<open>ensure_path\<close> follows the calls of \<open>ensure_table\<close> down a list of indices, stopping at the first
  that fails. The interface of \<open>ensure_table\<close>: an entry that is present is kept, up to an upgrade that
  changes neither its present bit nor the table it points to; an absent one gets a fresh table.
\<close>

fun ensure_path :: "(usize \<Rightarrow> nat \<Rightarrow> mm_state \<Rightarrow> (usize option \<times> mm_state) panicking) \<Rightarrow>
    usize \<Rightarrow> nat list \<Rightarrow> mm_state \<Rightarrow> (usize option \<times> mm_state) panicking" where
  "ensure_path ensure ptr [] st = Some (Some ptr, st)"
| "ensure_path ensure ptr (i # is) st =
     (case ensure ptr i st of
        None \<Rightarrow> None
      | Some (None, st') \<Rightarrow> Some (None, st')
      | Some (Some ptr', st') \<Rightarrow> ensure_path ensure ptr' is st')"

lemma ensure_path_counts:
  assumes "\<And>ptr i st r st'. ensure ptr i st = Some (r, st') \<Longrightarrow> shootdowns st' = shootdowns st"
  shows "ensure_path ensure ptr is st = Some (r, st') \<Longrightarrow> shootdowns st' = shootdowns st"
  by (induction "is" arbitrary: ptr st) (auto split: option.splits dest: assms)

locale table_code =
  fixes f :: pt_fmt
    and ensure :: "usize \<Rightarrow> nat \<Rightarrow> mm_state \<Rightarrow> (usize option \<times> mm_state) panicking"
    and link :: "usize \<Rightarrow> u64"
  assumes zero_absent: "\<not> is_present f 0"
    and link_present: "page_aligned z \<Longrightarrow> unat z < phys_limit f \<Longrightarrow> is_present f (link z) \<and> next_table f (link z) = z"
    and ensure_present: "is_present f (pt_entry f st t i) \<Longrightarrow>
      \<exists>e. ensure (table_ptr f st t) i st =
            Some (Some (table_ptr f st (next_table f (pt_entry f st t i))), set_entry f st t i e)
        \<and> is_present f e \<and> next_table f e = next_table f (pt_entry f st t i)"
    and ensure_absent: "\<not> is_present f (pt_entry f st t i) \<Longrightarrow>
      ensure (table_ptr f st t) i st = map_option (\<lambda>(r, st1). case r of
          None \<Rightarrow> (None, st1)
        | Some z \<Rightarrow> (Some (table_ptr f st1 z), set_entry f st1 t i (link z))) (fresh_table f st)"
begin

lemma ensure_ok:
  assumes wf: "pt_wf f st root" and p: "valid_path f (p @ [i])" "pt_tab f st root p = Some t"
  obtains (down) t' st' where "ensure (table_ptr f st t) i st = Some (Some (table_ptr f st' t'), st')"
      "pt_ext f root st st'" "same_leaves f root st st'" "pt_tab f st' root (p @ [i]) = Some t'"
    | (oom) "ensure (table_ptr f st t) i st = Some (None, st)"
proof (cases "is_present f (pt_entry f st t i)")
  case True
  then obtain e where e: "ensure (table_ptr f st t) i st =
      Some (Some (table_ptr f st (next_table f (pt_entry f st t i))), set_entry f st t i e)"
    "is_present f e" "next_table f e = next_table f (pt_entry f st t i)"
    using ensure_present by blast
  have e': "is_present f e = is_present f (pt_entry f st t i)" using e True by simp
  note x = pt_ext_upgrade[OF wf p e' e(3)]
  have "pt_tab f st root (p @ [i]) = Some (next_table f (pt_entry f st t i))"
    using p(2) True by (simp add: pt_tab_snoc pt_step_def Let_def)
  then have "pt_tab f (set_entry f st t i e) root (p @ [i]) = Some (next_table f (pt_entry f st t i))"
    using pt_extD(4)[OF x(1) p(1)] by simp
  moreover have "table_ptr f st (next_table f (pt_entry f st t i)) =
      table_ptr f (set_entry f st t i e) (next_table f (pt_entry f st t i))"
    by (rule table_ptr_cong) simp
  ultimately show ?thesis using down e(1) x by simp
next
  case False
  obtain a st0 where "mm_alloc 0 st = Some (a, st0)"
    using mm_alloc_returns[of 0 st] by (auto simp: MAX_ORDER_def)
  then obtain r st1 where r: "fresh_table f st = Some (r, st1)"
    by (cases a) (auto simp: fresh_table_def)
  show ?thesis
  proof (cases r)
    case None
    then have "mm_alloc 0 st = Some (None, st1)" using r by (auto simp: fresh_table_def split: option.splits)
    then have "st1 = st" using mm_alloc_None[OF pt_wfD(1)[OF wf]] by simp
    then show ?thesis using oom ensure_absent[OF False] r None by simp
  next
    case (Some z)
    note ft = fresh_table_Some[OF wf r[unfolded Some]]
    have "unat z < phys_limit f" using ft(5) blk_0_mem[of z] pt_wfD(6)[OF wf] by auto
    then have l: "is_present f (link z)" "next_table f (link z) = z" using link_present ft(1) by auto
    note x = pt_ext_fresh_hook[OF wf p False r[unfolded Some] l zero_absent]
    have "table_ptr f st1 z = table_ptr f (set_entry f st1 t i (link z)) z" by (rule table_ptr_cong) simp
    then show ?thesis using down x ensure_absent[OF False] r Some by simp
  qed
qed

lemma ensure_path_ok:
  assumes "pt_wf f st root" "valid_path f (p @ is)" "pt_tab f st root p = Some t"
  shows "\<exists>r st'. ensure_path ensure (table_ptr f st t) is st = Some (r, st')
    \<and> pt_ext f root st st' \<and> same_leaves f root st st'
    \<and> (\<forall>ptr. r = Some ptr \<longrightarrow> (\<exists>t'. ptr = table_ptr f st' t' \<and> pt_tab f st' root (p @ is) = Some t'))"
  using assms
proof (induction "is" arbitrary: st p t)
  case Nil
  then show ?case by (auto simp: pt_ext_refl same_leaves_def)
next
  case (Cons i js)
  have vi: "valid_path f (p @ [i])" using Cons.prems(2) by (cases p) (auto simp: valid_path_def)
  from Cons.prems(1) vi Cons.prems(3) show ?case
  proof (cases rule: ensure_ok)
    case (down t1 st1)
    have "\<exists>r st'. ensure_path ensure (table_ptr f st1 t1) js st1 = Some (r, st')
      \<and> pt_ext f root st1 st' \<and> same_leaves f root st1 st'
      \<and> (\<forall>ptr. r = Some ptr \<longrightarrow> (\<exists>t'. ptr = table_ptr f st' t' \<and> pt_tab f st' root ((p @ [i]) @ js) = Some t'))"
      by (rule Cons.IH) (use down Cons.prems pt_extD(1) in auto)
    then show ?thesis using down pt_ext_trans by (fastforce simp: same_leaves_def)
  next
    case oom
    then show ?thesis using Cons.prems(1) by (auto simp: pt_ext_refl same_leaves_def)
  qed
qed

text \<open>The whole of \<open>map_4k\<close>: three calls of \<open>ensure_table\<close>, then the leaf.\<close>

lemma map_walk_ok:
  fixes e :: u64
  assumes wf: "pt_wf f st root" and va: "user_va f va"
  obtains (mapped) t st1 where
      "ensure_path ensure (table_ptr f st root) (va_path va) st = Some (Some (table_ptr f st1 t), st1)"
      "pt_ext f root st (set_entry f st1 t (va_idx 12 va) e)"
      "\<And>va'. user_va f va' \<Longrightarrow> pt_leaf f (set_entry f st1 t (va_idx 12 va) e) root va' =
         (if va_path va' = va_path va \<and> va_idx 12 va' = va_idx 12 va then e else pt_leaf f st root va')"
    | (oom) st1 where "ensure_path ensure (table_ptr f st root) (va_path va) st = Some (None, st1)"
      "pt_ext f root st st1" "same_leaves f root st st1"
proof -
  from ensure_path_ok[OF wf _ pt_tab.simps(1), of "va_path va"] valid_va_path[OF va]
  obtain r st1 where r: "ensure_path ensure (table_ptr f st root) (va_path va) st = Some (r, st1)"
    "pt_ext f root st st1" "same_leaves f root st st1"
    "\<And>ptr. r = Some ptr \<Longrightarrow> \<exists>t'. ptr = table_ptr f st1 t' \<and> pt_tab f st1 root (va_path va) = Some t'"
    by auto
  show ?thesis
  proof (cases r)
    case None
    then show ?thesis using oom r by simp
  next
    case (Some ptr)
    then obtain t where t: "ptr = table_ptr f st1 t" "pt_tab f st1 root (va_path va) = Some t" using r(4) by blast
    have wf1: "pt_wf f st1 root" by (rule pt_extD(1)[OF r(2)])
    show ?thesis
    proof (rule mapped[of st1 t])
      show "ensure_path ensure (table_ptr f st root) (va_path va) st = Some (Some (table_ptr f st1 t), st1)"
        using r(1) Some t(1) by simp
      show "pt_ext f root st (set_entry f st1 t (va_idx 12 va) e)"
        using pt_ext_trans[OF r(2) pt_ext_leaf[OF wf1 va t(2)]] .
      show "pt_leaf f (set_entry f st1 t (va_idx 12 va) e) root va' =
         (if va_path va' = va_path va \<and> va_idx 12 va' = va_idx 12 va then e else pt_leaf f st root va')"
        if "user_va f va'" for va'
        using write_leaf(3)[OF wf1 va t(2) that, of e] r(3) that by (simp add: same_leaves_def)
    qed
  qed
qed

end

end
