(* ===== verification/Page_Walk.thy ===== *)
theory Page_Walk
  imports Page_Tables
begin

text \<open>
  What the walk over page tables gives its users: clearing a leaf, which virtual addresses share a
  leaf, that growing one root leaves every other root alone, and the architecture-neutral interface
  of \<open>src/mm/src/paging.rs\<close>.
\<close>

subsection \<open>Removing a leaf\<close>

definition pt_clear :: "pt_fmt \<Rightarrow> mm_state \<Rightarrow> usize \<Rightarrow> usize \<Rightarrow> mm_state" where
  "pt_clear f st root va =
     (case pt_tab f st root (va_path va) of None \<Rightarrow> st | Some t \<Rightarrow> set_entry f st t (va_idx 12 va) 0)"

lemma pt_clear_ok:
  assumes wf: "pt_wf f st root" and va: "user_va f va"
  shows "pt_ext f root st (pt_clear f st root va)"
    "user_va f va' \<Longrightarrow> pt_leaf f (pt_clear f st root va) root va' =
       (if va_path va' = va_path va \<and> va_idx 12 va' = va_idx 12 va then 0 else pt_leaf f st root va')"
proof -
  show "pt_ext f root st (pt_clear f st root va)"
    using pt_ext_leaf[OF wf va] pt_ext_refl[OF wf] by (auto simp: pt_clear_def split: option.splits)
  show "pt_leaf f (pt_clear f st root va) root va' =
       (if va_path va' = va_path va \<and> va_idx 12 va' = va_idx 12 va then 0 else pt_leaf f st root va')"
    if va': "user_va f va'" for va'
  proof (cases "pt_tab f st root (va_path va)")
    case None
    then show ?thesis by (auto simp: pt_clear_def pt_leaf_def)
  next
    case (Some t)
    then show ?thesis using write_leaf(3)[OF wf va Some va', of 0] by (simp add: pt_clear_def)
  qed
qed

subsection \<open>Which addresses share a leaf\<close>

lemma va_idx_nat: "va_idx n va = (unat va div 2 ^ n) mod 512"
proof -
  have "drop_bit n va AND 0x1FF = take_bit 9 (drop_bit n va)"
    by (simp add: take_bit_eq_mask mask_eq_exp_minus_1)
  moreover have "take_bit 64 (unat va) = unat va" by (rule take_bit_nat_eq_self) simp
  ultimately have "va_idx n va = take_bit 9 (drop_bit n (unat va))"
    by (simp add: va_idx_def unsigned_take_bit_eq unsigned_drop_bit_eq)
  then show ?thesis by (simp add: take_bit_eq_mod drop_bit_eq_div)
qed

lemma page_number_digits:
  fixes x :: nat
  assumes "x < 2 ^ 48"
  shows "x div 2 ^ 12 = (x div 2 ^ 12) mod 512 + 512 * ((x div 2 ^ 21) mod 512
    + 512 * ((x div 2 ^ 30) mod 512 + 512 * ((x div 2 ^ 39) mod 512)))"
proof -
  have s: "x div 2 ^ (n + 9) = x div 2 ^ n div 512" for n
    by (simp add: power_add div_mult2_eq)
  have "(x div 2 ^ 39) mod 512 = x div 2 ^ 39"
    using assms by (intro mod_less) (simp add: less_mult_imp_div_less)
  then show ?thesis
    using s[of 12] s[of 21] s[of 30] mod_mult_div_eq[of "x div 2 ^ 12" 512]
      mod_mult_div_eq[of "x div 2 ^ 21" 512] mod_mult_div_eq[of "x div 2 ^ 30" 512] by simp
qed

lemma page_of_eq_iff: "page_of x = page_of y \<longleftrightarrow> unat x div 4096 = unat y div 4096"
proof -
  have m: "a - a mod 4096 = 4096 * (a div 4096)" for a :: nat by (simp add: minus_mod_eq_mult_div)
  show ?thesis unfolding word_unat_eq_iff unat_page_of m by simp
qed

definition low_va :: "usize \<Rightarrow> bool" where
  "low_va va \<longleftrightarrow> unat va < 2 ^ 48"

lemma same_leaf_slot_iff:
  assumes "low_va va" "low_va va'"
  shows "va_path va' = va_path va \<and> va_idx 12 va' = va_idx 12 va \<longleftrightarrow> page_of va' = page_of va"
proof
  assume eq: "va_path va' = va_path va \<and> va_idx 12 va' = va_idx 12 va"
  then have "unat va' div 2 ^ 12 = unat va div 2 ^ 12"
    using page_number_digits[of "unat va"] page_number_digits[of "unat va'"] assms
    by (simp add: va_path_def va_idx_nat low_va_def)
  then show "page_of va' = page_of va" by (simp add: page_of_eq_iff)
next
  assume "page_of va' = page_of va"
  then have "unat va' div 2 ^ 12 = unat va div 2 ^ 12" by (simp add: page_of_eq_iff)
  then have "unat va' div 2 ^ (12 + k) = unat va div 2 ^ (12 + k)" for k
    by (simp only: power_add div_mult2_eq)
  from this[of 0] this[of 9] this[of 18] this[of 27]
  show "va_path va' = va_path va \<and> va_idx 12 va' = va_idx 12 va"
    by (simp add: va_path_def va_idx_nat)
qed

text \<open>
  A page of user space that the tables can name: its root slot is a user slot and it lies in the
  48-bit address range.
\<close>

definition mappable :: "pt_fmt \<Rightarrow> usize \<Rightarrow> bool" where
  "mappable f va \<longleftrightarrow> low_va va \<and> user_va f va"

lemma mappable_page:
  assumes "mappable f va"
  shows "mappable f (page_of va)"
proof -
  have "unat (page_of va) div 2 ^ 12 = unat va div 2 ^ 12"
    using page_of_eq_iff[of "page_of va" va] by (simp add: page_of_aligned)
  then have "unat (page_of va) div 2 ^ (12 + 27) = unat va div 2 ^ (12 + 27)"
    by (simp only: power_add div_mult2_eq)
  moreover have "unat (page_of va) \<le> unat va" by (simp add: unat_page_of)
  ultimately show ?thesis
    using assms by (simp add: mappable_def low_va_def user_va_def va_idx_nat)
qed

subsection \<open>Isolation of roots\<close>

text \<open>Growing the tables of one root does not change a walk from another root with its own tables.\<close>

lemma pt_entry_frame:
  assumes "page_aligned (hhdm_off st)" "page_aligned u" "j < 512" "hhdm_off st' = hhdm_off st"
    "\<And>x. page_of x = table_ptr f st u \<Longrightarrow> ram st' x = ram st x"
  shows "pt_entry f st' u j = pt_entry f st u j"
proof -
  have tp: "table_ptr f st' u = table_ptr f st u" using assms(4) by (rule table_ptr_cong)
  show ?thesis
    unfolding pt_entry_def tp
    by (rule load64_cong) (use assms page_of_entry_byte[OF table_ptr_aligned[OF assms(1,2)]] in blast)
qed

lemma other_root_unchanged:
  assumes ext: "pt_ext f root st st'" and wf2: "pt_wf f st root2"
    and dis: "pt_pages f st root \<inter> pt_pages f st root2 = {}"
  shows "valid_path f q \<Longrightarrow> pt_tab f st' root2 q = pt_tab f st root2 q"
    "user_va f va \<Longrightarrow> pt_leaf f st' root2 va = pt_leaf f st root2 va"
proof -
  have ent: "pt_entry f st' u j = pt_entry f st u j"
    if q: "valid_path f q" "pt_tab f st root2 q = Some u" "j < 512" for q u j
  proof (rule pt_entry_frame)
    show "page_aligned (hhdm_off st)" "page_aligned u" using pt_wfD(2,3)[OF wf2] q by auto
    have u2: "u \<in> pt_pages f st root2" using q by (auto simp: pt_pages_def)
    have "unat u \<notin> free_bytes (frames st)" using pt_wfD(4)[OF wf2 q(1,2)] blk_0_mem[of u] by blast
    then have "u \<notin> pt_pages f st' root" using pt_extD(5)[OF ext] u2 dis blk_0_mem[of u] by blast
    then have "table_ptr f st u \<notin> table_ptr f st ` pt_pages f st' root" by auto
    then show "ram st' x = ram st x" if "page_of x = table_ptr f st u" for x
      using pt_extD(6)[OF ext, of x] that by simp
  qed (use q(3) pt_extD(2)[OF ext] in auto)
  show tab: "pt_tab f st' root2 q = pt_tab f st root2 q" if "valid_path f q" for q
  proof (rule pt_tab_cong[OF _ that])
    fix q u j assume "valid_path f (q @ [j])" "pt_tab f st root2 q = Some u"
    then show "pt_step f st' u j = pt_step f st u j"
      using ent[of q u j] valid_path_snocD[of f q j] by (simp add: pt_step_def)
  qed
  show "pt_leaf f st' root2 va = pt_leaf f st root2 va" if va: "user_va f va" for va
    by (rule pt_leaf_cong[OF tab va]) (use ent[OF valid_va_path[OF va]] in auto)
qed

subsection \<open>A fresh root\<close>

definition mm_ok :: "pt_fmt \<Rightarrow> mm_state \<Rightarrow> bool" where
  "mm_ok f st \<longleftrightarrow> buddy_inv (frames st) \<and> page_aligned (hhdm_off st)
     \<and> free_bytes (frames st) \<subseteq> {..< phys_limit f}"

lemma pt_wf_mm_ok: "pt_wf f st root \<Longrightarrow> mm_ok f st"
  by (simp add: pt_wf_def mm_ok_def)

lemma empty_root:
  assumes ok: "mm_ok f st" and t: "page_aligned t" "blk t 0 \<inter> free_bytes (frames st) = {}"
    and none: "\<forall>i < 512. i < user_slots f \<longrightarrow> \<not> is_present f (pt_entry f st t i)"
  shows "pt_wf f st t" "user_va f va \<Longrightarrow> pt_leaf f st t va = 0" "pt_pages f st t = {t}"
proof -
  have tab: "pt_tab f st t p = (if p = [] then Some t else None)" if "valid_path f p" for p
    using that none by (cases p) (auto simp: valid_path_def pt_step_def)
  show "pt_wf f st t"
    unfolding pt_wf_def using ok t tab by (auto simp: mm_ok_def split: if_splits)
  show "pt_leaf f st t va = 0" if "user_va f va"
    using tab[OF valid_va_path[OF that]] by (simp add: pt_leaf_def va_path_def)
  show "pt_pages f st t = {t}"
    unfolding pt_pages_def using tab by (auto intro!: exI[of _ "[]"] split: if_splits)
qed

subsection \<open>The architecture-neutral interface\<close>

text \<open>
  The flags of \<open>src/mm/src/paging.rs\<close> and the two entry points that each architecture provides to
  it (\<open>arch_map_page\<close>, \<open>arch_unmap_page\<close>); \<open>map_page\<close> and \<open>unmap_page\<close> forward to them.
\<close>

definition PF_PRESENT :: u64 where "PF_PRESENT = 1"
definition PF_WRITABLE :: u64 where "PF_WRITABLE = 2"
definition PF_USER :: u64 where "PF_USER = 4"
definition PF_EXECUTE :: u64 where "PF_EXECUTE = 8"
definition PF_NOCACHE :: u64 where "PF_NOCACHE = 16"

definition pf_truncate :: "u64 \<Rightarrow> u64" where
  "pf_truncate bits = bits AND 0x1F"

definition pf_contains :: "u64 \<Rightarrow> u64 \<Rightarrow> bool" where
  "pf_contains flags g \<longleftrightarrow> flags AND g = g"

record arch_paging =
  arch_map_page :: "usize \<Rightarrow> usize \<Rightarrow> usize \<Rightarrow> u64 \<Rightarrow> mm_state \<Rightarrow> (bool \<times> mm_state) panicking"
  arch_unmap_page :: "usize \<Rightarrow> usize \<Rightarrow> mm_state \<Rightarrow> mm_state"

definition map_page :: "arch_paging \<Rightarrow> usize \<Rightarrow> usize \<Rightarrow> usize \<Rightarrow> u64 \<Rightarrow> mm_state \<Rightarrow> (bool \<times> mm_state) panicking" where
  "map_page ar root virt phys flags st = arch_map_page ar root virt phys flags st"

definition unmap_page :: "arch_paging \<Rightarrow> usize \<Rightarrow> usize \<Rightarrow> mm_state \<Rightarrow> mm_state" where
  "unmap_page ar root virt st = arch_unmap_page ar root virt st"

text \<open>
  The contract of an architecture: mapping a page of user space either installs exactly that leaf or,
  when no page is left for a table, changes no walk; unmapping removes exactly that leaf. Neither
  touches memory outside the tables of its root.
\<close>

locale paging_arch =
  fixes ar :: arch_paging and f :: pt_fmt and leaf_of :: "usize \<Rightarrow> u64 \<Rightarrow> u64"
  assumes map_law: "pt_wf f st root \<Longrightarrow> mappable f va \<Longrightarrow> pf_contains flags PF_PRESENT \<Longrightarrow>
      \<exists>ok st'. map_page ar root va phys flags st = Some (ok, st') \<and> pt_ext f root st st'
        \<and> (\<forall>va'. mappable f va' \<longrightarrow> pt_leaf f st' root va' =
             (if ok \<and> page_of va' = page_of va then leaf_of phys flags else pt_leaf f st root va'))"
    and unmap_law: "pt_wf f st root \<Longrightarrow> mappable f va \<Longrightarrow>
      pt_ext f root st (unmap_page ar root va st)
      \<and> (\<forall>va'. mappable f va' \<longrightarrow> pt_leaf f (unmap_page ar root va st) root va' =
           (if page_of va' = page_of va then 0 else pt_leaf f st root va'))"
    and map_counts: "map_page ar root va phys flags st = Some (ok, st') \<Longrightarrow> shootdowns st' = shootdowns st"
    and unmap_counts: "shootdowns (unmap_page ar root va st) = shootdowns st"

subsection \<open>A small machine\<close>

text \<open>A concrete state: four free pages at \<open>0x4000\<close>, an empty root at \<open>0x1000\<close>.\<close>

definition demo_frames :: buddy where
  "demo_frames = \<lparr>free_lists = (replicate MAX_ORDER None)[2 := Some 0x4000], free_pages = 4, total_pages = 4\<rparr>"

definition demo_mm :: mm_state where
  "demo_mm = \<lparr>frames = demo_frames, ram = (\<lambda>_. 0), hhdm_off = 0xFFFF800000000000, shootdowns = 0\<rparr>"

lemma demo_frames_ok: "buddy_inv demo_frames" "free_bytes demo_frames = {0x4000 ..< 0x8000}"
proof -
  have p: "(2 :: nat) < MAX_ORDER" "bsz 2 dvd unat (0x4000 :: usize)" by (simp_all add: MAX_ORDER_def bsz_def)
  note s = single_block_inv[OF p, of demo_frames]
  show "buddy_inv demo_frames" by (rule s) (simp add: demo_frames_def)
  have "free_bytes demo_frames = blk 0x4000 2" by (rule s) (simp add: demo_frames_def)
  then show "free_bytes demo_frames = {0x4000 ..< 0x8000}" by (simp add: blk_def bsz_def)
qed

lemma load64_zero [simp]: "load64 (\<lambda>_. 0) p = 0"
  by (rule bit_word_eqI) (simp add: bit_load64)

end
