(* ===== verification/X86_Paging.thy ===== *)
theory X86_Paging
  imports Page_Walk
begin

text \<open>
  x86-64 page tables (\<open>src/arch/x86_64/src/paging.rs\<close>): PML4, PDPT, PD and PT, reached through the
  direct map. The theory models the code entry by entry and discharges the contract of
  \<open>paging_arch\<close> for it. The TLB instructions have no effect on memory; the value of CR3 is an
  argument where the code reads it.
\<close>

definition X86_PRESENT :: u64 where "X86_PRESENT = 1"
definition X86_WRITABLE :: u64 where "X86_WRITABLE = 2"
definition X86_USER :: u64 where "X86_USER = 4"
definition X86_NO_CACHE :: u64 where "X86_NO_CACHE = 16"
definition X86_NO_EXECUTE :: u64 where "X86_NO_EXECUTE = 2 ^ 63"

definition x86_alloc_zeroed_page :: "mm_state \<Rightarrow> (usize option \<times> mm_state) panicking" where
  "x86_alloc_zeroed_page st =
     (case mm_alloc 0 st of
        None \<Rightarrow> None
      | Some (None, st1) \<Rightarrow> Some (None, st1)
      | Some (Some phys, st1) \<Rightarrow>
          Some (Some phys, st1\<lparr>ram := fill_bytes (ram st1) (phys_to_virt st1 phys) 0 PAGE_SIZE\<rparr>))"

definition x86_ensure_table :: "u64 \<Rightarrow> usize \<Rightarrow> nat \<Rightarrow> mm_state \<Rightarrow> (usize option \<times> mm_state) panicking" where
  "x86_ensure_table flags parent idx st =
     (let intermediate_flags = flags AND (X86_PRESENT OR X86_WRITABLE OR X86_USER);
          entry = load64 (ram st) (entry_ptr parent idx)
      in if entry AND X86_PRESENT \<noteq> 0
         then (let upgraded = entry OR intermediate_flags;
                   st' = (if upgraded \<noteq> entry
                          then st\<lparr>ram := store64 (ram st) (entry_ptr parent idx) upgraded\<rparr> else st);
                   next_phys = entry AND NOT 0xFFF
               in Some (Some (phys_to_virt st' next_phys), st'))
         else (case x86_alloc_zeroed_page st of
                 None \<Rightarrow> None
               | Some (None, st1) \<Rightarrow> Some (None, st1)
               | Some (Some table_phys, st1) \<Rightarrow>
                   Some (Some (phys_to_virt st1 table_phys),
                         st1\<lparr>ram := store64 (ram st1) (entry_ptr parent idx) (table_phys OR intermediate_flags)\<rparr>)))"

definition x86_map_4k :: "usize \<Rightarrow> usize \<Rightarrow> usize \<Rightarrow> u64 \<Rightarrow> mm_state \<Rightarrow> (bool \<times> mm_state) panicking" where
  "x86_map_4k pml4_phys virt phys flags st =
     (let pml4 = phys_to_virt st pml4_phys
      in case x86_ensure_table flags pml4 (va_idx 39 virt) st of
           None \<Rightarrow> None
         | Some (None, st1) \<Rightarrow> Some (False, st1)
         | Some (Some pdpt, st1) \<Rightarrow>
             (case x86_ensure_table flags pdpt (va_idx 30 virt) st1 of
                None \<Rightarrow> None
              | Some (None, st2) \<Rightarrow> Some (False, st2)
              | Some (Some pd, st2) \<Rightarrow>
                  (case x86_ensure_table flags pd (va_idx 21 virt) st2 of
                     None \<Rightarrow> None
                   | Some (None, st3) \<Rightarrow> Some (False, st3)
                   | Some (Some pt, st3) \<Rightarrow>
                       Some (True, st3\<lparr>ram := store64 (ram st3) (entry_ptr pt (va_idx 12 virt)) (phys OR flags)\<rparr>))))"

definition x86_unmap_4k :: "usize \<Rightarrow> usize \<Rightarrow> mm_state \<Rightarrow> mm_state" where
  "x86_unmap_4k pml4_phys virt st =
     (let pml4 = phys_to_virt st pml4_phys;
          pdpt_entry = load64 (ram st) (entry_ptr pml4 (va_idx 39 virt))
      in if pdpt_entry AND X86_PRESENT = 0 then st
         else let pdpt = phys_to_virt st (pdpt_entry AND NOT 0xFFF);
                  pd_entry = load64 (ram st) (entry_ptr pdpt (va_idx 30 virt))
              in if pd_entry AND X86_PRESENT = 0 then st
                 else let pd = phys_to_virt st (pd_entry AND NOT 0xFFF);
                          pt_entry = load64 (ram st) (entry_ptr pd (va_idx 21 virt))
                      in if pt_entry AND X86_PRESENT = 0 then st
                         else let pt = phys_to_virt st (pt_entry AND NOT 0xFFF)
                              in st\<lparr>ram := store64 (ram st) (entry_ptr pt (va_idx 12 virt)) 0\<rparr>)"

definition x86_translate_flags :: "u64 \<Rightarrow> u64" where
  "x86_translate_flags bits =
     (let src = pf_truncate bits
      in (if pf_contains src PF_PRESENT then X86_PRESENT else 0)
         OR (if pf_contains src PF_WRITABLE then X86_WRITABLE else 0)
         OR (if pf_contains src PF_USER then X86_USER else 0)
         OR (if pf_contains src PF_NOCACHE then X86_NO_CACHE else 0)
         OR (if \<not> pf_contains src PF_EXECUTE then X86_NO_EXECUTE else 0))"

definition x86_arch_map_page :: "usize \<Rightarrow> usize \<Rightarrow> usize \<Rightarrow> u64 \<Rightarrow> mm_state \<Rightarrow> (bool \<times> mm_state) panicking" where
  "x86_arch_map_page root virt phys flags st = x86_map_4k root virt phys (x86_translate_flags flags) st"

definition x86_arch_unmap_page :: "usize \<Rightarrow> usize \<Rightarrow> mm_state \<Rightarrow> mm_state" where
  "x86_arch_unmap_page root virt st = x86_unmap_4k root virt st"

definition x86_paging :: arch_paging where
  "x86_paging = \<lparr>arch_map_page = x86_arch_map_page, arch_unmap_page = x86_arch_unmap_page\<rparr>"

text \<open>
  \<open>arch_alloc_page_table_root\<close>: a page whose lower half is empty and whose upper half is copied from
  the tables in CR3. Physical address 0 stands for failure.
\<close>

definition x86_alloc_page_table_root :: "usize \<Rightarrow> mm_state \<Rightarrow> (usize \<times> mm_state) panicking" where
  "x86_alloc_page_table_root cr3_raw st =
     (case mm_alloc 0 st of
        None \<Rightarrow> None
      | Some (None, st1) \<Rightarrow> Some (0, st1)
      | Some (Some phys, st1) \<Rightarrow>
          (let hhdm_offset = phys_to_virt st1 0;
               new_pml4 = phys + hhdm_offset;
               m0 = fold (\<lambda>i m. store64 m (entry_ptr new_pml4 i) 0) [0..<512] (ram st1);
               cr3_phys = cr3_raw AND NOT 0xFFF;
               src_pml4 = cr3_phys + hhdm_offset;
               m1 = fold (\<lambda>i m. store64 m (entry_ptr new_pml4 i) (load64 m (entry_ptr src_pml4 i))) [256..<512] m0
           in Some (phys, st1\<lparr>ram := m1\<rparr>)))"

subsection \<open>The format\<close>

definition x86_fmt :: pt_fmt where
  "x86_fmt = \<lparr>is_present = (\<lambda>e. e AND X86_PRESENT \<noteq> 0), next_table = (\<lambda>e. e AND NOT 0xFFF),
     use_hhdm = True, user_slots = 256, phys_limit = 2 ^ 64\<rparr>"

definition x86_iflags :: "u64 \<Rightarrow> u64" where
  "x86_iflags flags = flags AND (X86_PRESENT OR X86_WRITABLE OR X86_USER)"

lemma x86_fmt_simps [simp]:
  "is_present x86_fmt e \<longleftrightarrow> e AND X86_PRESENT \<noteq> 0" "next_table x86_fmt e = e AND NOT 0xFFF"
  "use_hhdm x86_fmt" "user_slots x86_fmt = 256" "phys_limit x86_fmt = 2 ^ 64"
  by (simp_all add: x86_fmt_def)

lemma x86_table_ptr [simp]: "table_ptr x86_fmt st t = phys_to_virt st t"
  by (simp add: table_ptr_def)

lemma and_1_iff: "(e :: u64) AND X86_PRESENT \<noteq> 0 \<longleftrightarrow> bit e 0"
  by (simp add: X86_PRESENT_def and_one_eq bit_0 odd_iff_mod_2_eq_one mod2_eq_if)

lemma iflags_mask: "x86_iflags flags = x86_iflags flags AND 7"
  by (rule bit_word_eqI) (auto simp: x86_iflags_def X86_PRESENT_def X86_WRITABLE_def X86_USER_def bit_simps)

lemma or_iflags_page: "(e OR x86_iflags flags) AND NOT 0xFFF = e AND NOT (0xFFF :: u64)"
proof -
  have "x86_iflags flags AND NOT 0xFFF = 0" by (subst iflags_mask) (simp add: and.assoc)
  then show ?thesis by (simp add: bit.conj_disj_distrib2)
qed

lemma page_aligned_mask: "page_aligned z \<Longrightarrow> z AND NOT 0xFFF = z"
proof -
  assume "page_aligned z"
  then have "align_down z PAGE_SIZE = z" using page_of_aligned by (simp add: page_of_def)
  then show ?thesis by (simp add: align_down_def PAGE_SIZE_def)
qed

lemma x86_fresh_table: "x86_alloc_zeroed_page st = fresh_table x86_fmt st"
  by (auto simp: x86_alloc_zeroed_page_def fresh_table_def zero_page_def split: option.splits prod.splits)

subsection \<open>The code meets the contract of the table walk\<close>

interpretation x86: table_code x86_fmt "x86_ensure_table (flags OR X86_PRESENT)"
  "\<lambda>z. z OR x86_iflags (flags OR X86_PRESENT)" for flags
proof
  show "\<not> is_present x86_fmt 0" by simp
next
  fix z assume z: "page_aligned z"
  have "bit (z OR x86_iflags (flags OR X86_PRESENT)) 0"
    by (simp add: x86_iflags_def X86_PRESENT_def bit_or_iff bit_and_iff)
  then show "is_present x86_fmt (z OR x86_iflags (flags OR X86_PRESENT))
      \<and> next_table x86_fmt (z OR x86_iflags (flags OR X86_PRESENT)) = z"
    using z by (simp add: and_1_iff or_iflags_page[simplified] page_aligned_mask[simplified])
next
  fix st t i assume p: "is_present x86_fmt (pt_entry x86_fmt st t i)"
  let ?e = "pt_entry x86_fmt st t i" and ?fl = "x86_iflags (flags OR X86_PRESENT)"
  have "x86_ensure_table (flags OR X86_PRESENT) (table_ptr x86_fmt st t) i st =
      Some (Some (table_ptr x86_fmt st (next_table x86_fmt ?e)), set_entry x86_fmt st t i (?e OR ?fl))"
    using p by (auto simp: x86_ensure_table_def Let_def pt_entry_def set_entry_def phys_to_virt_def
        x86_iflags_def[symmetric])
  moreover have "is_present x86_fmt (?e OR ?fl)" using p by (simp add: and_1_iff bit_or_iff)
  ultimately show "\<exists>e. x86_ensure_table (flags OR X86_PRESENT) (table_ptr x86_fmt st t) i st =
      Some (Some (table_ptr x86_fmt st (next_table x86_fmt ?e)), set_entry x86_fmt st t i e)
      \<and> is_present x86_fmt e \<and> next_table x86_fmt e = next_table x86_fmt ?e"
    by (intro exI[of _ "?e OR ?fl"]) (simp add: or_iflags_page[simplified])
next
  fix st t i assume p: "\<not> is_present x86_fmt (pt_entry x86_fmt st t i)"
  have off: "hhdm_off st1 = hhdm_off st" if "fresh_table x86_fmt st = Some (r, st1)" for r st1
    using that by (auto simp: fresh_table_def mm_alloc_def split: option.splits)
  show "x86_ensure_table (flags OR X86_PRESENT) (table_ptr x86_fmt st t) i st =
      map_option (\<lambda>(r, st1). case r of None \<Rightarrow> (None, st1)
        | Some z \<Rightarrow> (Some (table_ptr x86_fmt st1 z),
            set_entry x86_fmt st1 t i (z OR x86_iflags (flags OR X86_PRESENT)))) (fresh_table x86_fmt st)"
    using p off
    by (auto simp: x86_ensure_table_def Let_def pt_entry_def set_entry_def phys_to_virt_def
        x86_iflags_def[symmetric] x86_fresh_table split: option.splits)
qed

lemma x86_map_4k_path:
  "x86_map_4k root virt phys flags st =
     (case ensure_path (x86_ensure_table flags) (table_ptr x86_fmt st root) (va_path virt) st of
        None \<Rightarrow> None
      | Some (None, st') \<Rightarrow> Some (False, st')
      | Some (Some pt, st') \<Rightarrow>
          Some (True, st'\<lparr>ram := store64 (ram st') (entry_ptr pt (va_idx 12 virt)) (phys OR flags)\<rparr>))"
  by (auto simp: x86_map_4k_def Let_def va_path_def split: option.splits)

lemma x86_unmap_4k_path: "x86_unmap_4k root virt st = pt_clear x86_fmt st root virt"
  by (auto simp: x86_unmap_4k_def Let_def pt_clear_def va_path_def pt_step_def pt_entry_def set_entry_def
      split: option.splits)

lemma x86_translate_present:
  "pf_contains flags PF_PRESENT \<Longrightarrow> x86_translate_flags flags OR X86_PRESENT = x86_translate_flags flags"
proof -
  assume "pf_contains flags PF_PRESENT"
  then have "pf_contains (pf_truncate flags) PF_PRESENT"
    by (simp add: pf_contains_def pf_truncate_def PF_PRESENT_def and.assoc)
  then show ?thesis
    unfolding x86_translate_flags_def Let_def by (simp add: or.commute or.left_commute)
qed

lemma x86_ensure_counts:
  "x86_ensure_table flags parent idx st = Some (r, st') \<Longrightarrow> shootdowns st' = shootdowns st"
  by (auto simp: x86_ensure_table_def x86_alloc_zeroed_page_def mm_alloc_def Let_def
      split: if_splits option.splits)

lemma x86_path_counts:
  "ensure_path (x86_ensure_table flags) ptr is st = Some (r, st') \<Longrightarrow> shootdowns st' = shootdowns st"
  by (rule ensure_path_counts) (rule x86_ensure_counts)

interpretation x86_arch: paging_arch x86_paging x86_fmt "\<lambda>phys flags. phys OR x86_translate_flags flags"
proof
  fix st root va phys flags
  assume wf: "pt_wf x86_fmt st root" and va: "mappable x86_fmt va" and pr: "pf_contains flags PF_PRESENT"
  let ?fl = "x86_translate_flags flags" and ?e = "phys OR x86_translate_flags flags"
  have uv: "user_va x86_fmt va" using va by (simp add: mappable_def)
  have fl: "x86_ensure_table ?fl = x86_ensure_table (?fl OR X86_PRESENT)"
    by (simp add: x86_translate_present[OF pr])
  have slot: "va_path va' = va_path va \<and> va_idx 12 va' = va_idx 12 va \<longleftrightarrow> page_of va' = page_of va"
    if "mappable x86_fmt va'" for va' using same_leaf_slot_iff[of va va'] va that by (simp add: mappable_def)
  have m: "map_page x86_paging root va phys flags st = x86_map_4k root va phys ?fl st"
    by (simp add: map_page_def x86_paging_def x86_arch_map_page_def)
  from wf uv show "\<exists>ok st'. map_page x86_paging root va phys flags st = Some (ok, st') \<and> pt_ext x86_fmt root st st'
      \<and> (\<forall>va'. mappable x86_fmt va' \<longrightarrow> pt_leaf x86_fmt st' root va' =
           (if ok \<and> page_of va' = page_of va then ?e else pt_leaf x86_fmt st root va'))"
  proof (cases rule: x86.map_walk_ok[where flags = ?fl and e = ?e])
    case (mapped t st1)
    then have "map_page x86_paging root va phys flags st = Some (True, set_entry x86_fmt st1 t (va_idx 12 va) ?e)"
      unfolding m x86_map_4k_path fl by (simp add: set_entry_def)
    then show ?thesis using mapped(2,3) slot by (auto simp: mappable_def)
  next
    case (oom st1)
    then have "map_page x86_paging root va phys flags st = Some (False, st1)"
      unfolding m x86_map_4k_path fl by simp
    then show ?thesis using oom by (auto simp: same_leaves_def mappable_def)
  qed
next
  fix st root va assume wf: "pt_wf x86_fmt st root" and va: "mappable x86_fmt va"
  have uv: "user_va x86_fmt va" using va by (simp add: mappable_def)
  have u: "unmap_page x86_paging root va st = pt_clear x86_fmt st root va"
    by (simp add: unmap_page_def x86_paging_def x86_arch_unmap_page_def x86_unmap_4k_path)
  show "pt_ext x86_fmt root st (unmap_page x86_paging root va st)
      \<and> (\<forall>va'. mappable x86_fmt va' \<longrightarrow> pt_leaf x86_fmt (unmap_page x86_paging root va st) root va' =
           (if page_of va' = page_of va then 0 else pt_leaf x86_fmt st root va'))"
    using pt_clear_ok[OF wf uv] same_leaf_slot_iff[of va] va unfolding u by (auto simp: mappable_def)
next
  fix root va phys flags st ok st'
  assume "map_page x86_paging root va phys flags st = Some (ok, st')"
  then show "shootdowns st' = shootdowns st"
    by (auto simp: map_page_def x86_paging_def x86_arch_map_page_def x86_map_4k_path
        dest!: x86_path_counts split: option.splits)
next
  fix root va st
  show "shootdowns (unmap_page x86_paging root va st) = shootdowns st"
    by (simp add: unmap_page_def x86_paging_def x86_arch_unmap_page_def x86_unmap_4k_path pt_clear_def
        split: option.splits)
qed

subsection \<open>A fresh x86-64 root\<close>

lemma fold_store_other:
  assumes "page_aligned t" "\<forall>i \<in> set is. i < 512" "j < 512" "j \<notin> set is"
  shows "load64 (fold (\<lambda>i m. store64 m (entry_ptr t i) (v i m)) is m) (entry_ptr t j) = load64 m (entry_ptr t j)"
  using assms(2,4)
proof (induction "is" arbitrary: m)
  case (Cons i js)
  have "load64 (fold (\<lambda>i m. store64 m (entry_ptr t i) (v i m)) js (store64 m (entry_ptr t i) (v i m))) (entry_ptr t j) =
      load64 (store64 m (entry_ptr t i) (v i m)) (entry_ptr t j)"
    using Cons by simp
  then show ?case using load64_store64_entry[OF assms(1,1) _ assms(3), of i] Cons.prems by simp
qed simp

lemma fold_store_zero:
  assumes "page_aligned t" "\<forall>i \<in> set is. i < 512" "j \<in> set is"
  shows "load64 (fold (\<lambda>i m. store64 m (entry_ptr t i) 0) is m) (entry_ptr t j) = 0"
  using assms(2,3)
proof (induction "is" arbitrary: m)
  case (Cons i js)
  show ?case
  proof (cases "j \<in> set js")
    case True
    then show ?thesis using Cons by simp
  next
    case False
    then have "j = i" "j < 512" using Cons.prems by auto
    then show ?thesis
      using fold_store_other[OF assms(1) _ _ False, of "\<lambda>_ _. 0" "store64 m (entry_ptr t i) 0"] Cons.prems by simp
  qed
qed simp

lemma x86_root_ok:
  assumes ok: "mm_ok x86_fmt st"
  shows "\<exists>root st'. x86_alloc_page_table_root cr3 st = Some (root, st')
    \<and> ((root = 0 \<and> st' = st)
       \<or> (pt_wf x86_fmt st' root \<and> (\<forall>va. user_va x86_fmt va \<longrightarrow> pt_leaf x86_fmt st' root va = 0)))"
proof -
  have b: "buddy_inv (frames st)" using ok by (simp add: mm_ok_def)
  obtain r st1 where r: "mm_alloc 0 st = Some (r, st1)"
    using mm_alloc_returns[of 0 st] by (auto simp: MAX_ORDER_def)
  show ?thesis
  proof (cases r)
    case None
    then show ?thesis
      using r mm_alloc_None[OF b] by (simp add: x86_alloc_page_table_root_def del: upt_rec_numeral)
  next
    case (Some z)
    note al = mm_alloc_Some[OF b r[unfolded Some]]
    have z: "page_aligned z" using al(2) by (simp add: page_aligned_def bsz_def)
    define p where "p = z + phys_to_virt st1 0"
    have p: "page_aligned p" "p = phys_to_virt st1 z"
      using page_aligned_add[OF z] ok al(6) by (simp_all add: p_def phys_to_virt_def mm_ok_def)
    define m0 where "m0 = fold (\<lambda>i m. store64 m (entry_ptr p i) 0) [0..<512] (ram st1)"
    define m1 where "m1 = fold (\<lambda>i m. store64 m (entry_ptr p i)
      (load64 m (entry_ptr ((cr3 AND NOT 0xFFF) + phys_to_virt st1 0) i))) [256..<512] m0"
    define st2 where "st2 = st1\<lparr>ram := m1\<rparr>"
    have "load64 m1 (entry_ptr p i) = 0" if "i < 256" for i
      using fold_store_other[OF p(1), of "[256..<512]" i] fold_store_zero[OF p(1), of "[0..<512]" i "ram st1"] that
      by (simp add: m1_def m0_def del: upt_rec_numeral)
    then have none: "\<forall>i < 512. i < user_slots x86_fmt \<longrightarrow> \<not> is_present x86_fmt (pt_entry x86_fmt st2 z i)"
      using p(2) by (simp add: pt_entry_def st2_def phys_to_virt_def)
    have ok2: "mm_ok x86_fmt st2" using ok al by (auto simp: mm_ok_def st2_def)
    have dis: "blk z 0 \<inter> free_bytes (frames st2) = {}" using al(4) by (auto simp: st2_def)
    have "x86_alloc_page_table_root cr3 st = Some (z, st2)"
      using r Some by (simp add: x86_alloc_page_table_root_def Let_def st2_def m1_def m0_def p_def del: upt_rec_numeral)
    then show ?thesis using empty_root(1,2)[OF ok2 z dis none] by auto
  qed
qed

subsection \<open>Properties of the x86-64 page tables\<close>

text \<open>
  C2. Mapping a user page on x86-64 returns; when it reports success the hardware walk of every
  user address gives the new leaf on that page and the old leaf elsewhere, and when it reports
  failure every walk is as before. The tables stay a tree, and a root with its own tables keeps
  all its translations.
\<close>

theorem x86_map_page_correct:
  assumes wf: "pt_wf x86_fmt st root" and va: "mappable x86_fmt va" and pr: "pf_contains flags PF_PRESENT"
  shows "\<exists>ok st'. x86_arch_map_page root va phys flags st = Some (ok, st') \<and> pt_wf x86_fmt st' root
    \<and> (\<forall>va'. mappable x86_fmt va' \<longrightarrow> pt_leaf x86_fmt st' root va' =
         (if ok \<and> page_of va' = page_of va then phys OR x86_translate_flags flags else pt_leaf x86_fmt st root va'))
    \<and> (\<forall>root2 va'. pt_wf x86_fmt st root2 \<longrightarrow> pt_pages x86_fmt st root \<inter> pt_pages x86_fmt st root2 = {} \<longrightarrow>
         user_va x86_fmt va' \<longrightarrow> pt_leaf x86_fmt st' root2 va' = pt_leaf x86_fmt st root2 va')"
proof -
  obtain ok st' where m: "map_page x86_paging root va phys flags st = Some (ok, st')" "pt_ext x86_fmt root st st'"
    "\<And>va'. mappable x86_fmt va' \<Longrightarrow> pt_leaf x86_fmt st' root va' =
         (if ok \<and> page_of va' = page_of va then phys OR x86_translate_flags flags else pt_leaf x86_fmt st root va')"
    using x86_arch.map_law[OF wf va pr, of phys] by blast
  have "x86_arch_map_page root va phys flags st = Some (ok, st')"
    using m(1) by (simp add: map_page_def x86_paging_def)
  then show ?thesis using m(3) pt_extD(1)[OF m(2)] other_root_unchanged(2)[OF m(2)] by blast
qed

lemma demo_mm_wf: "pt_wf x86_fmt demo_mm 0x1000"
proof (rule empty_root(1))
  show "mm_ok x86_fmt demo_mm"
    using demo_frames_ok by (auto simp: mm_ok_def demo_mm_def page_aligned_def)
  show "blk 0x1000 0 \<inter> free_bytes (frames demo_mm) = {}"
    using demo_frames_ok by (auto simp: demo_mm_def blk_def bsz_def)
qed (simp_all add: page_aligned_def pt_entry_def demo_mm_def)

theorem x86_map_page_correct_witness:
  "pt_wf x86_fmt demo_mm 0x1000 \<and> (\<exists>ok st'. x86_arch_map_page 0x1000 0x400000 0x9000 (PF_PRESENT OR PF_USER) demo_mm = Some (ok, st')
     \<and> pt_leaf x86_fmt st' 0x1000 0x400000 =
         (if ok then 0x9000 OR x86_translate_flags (PF_PRESENT OR PF_USER) else 0))"
proof -
  have va: "mappable x86_fmt 0x400000"
    by (simp add: mappable_def low_va_def user_va_def va_idx_nat)
  have pr: "pf_contains (PF_PRESENT OR PF_USER) PF_PRESENT"
    by (simp add: pf_contains_def PF_PRESENT_def PF_USER_def)
  have z: "pt_leaf x86_fmt demo_mm 0x1000 va = 0" for va
    by (simp add: pt_leaf_def va_path_def pt_step_def pt_entry_def demo_mm_def)
  show ?thesis
    using x86_map_page_correct[OF demo_mm_wf va pr, of "0x9000"] va demo_mm_wf z by auto
qed

text \<open>
  C30. Unmapping on x86-64 removes exactly the leaf of its page: whatever was mapped there, the walk
  of the page gives 0 afterwards and every other user page keeps its leaf, also in other roots.
\<close>

theorem x86_unmap_page_correct:
  assumes wf: "pt_wf x86_fmt st root" and va: "mappable x86_fmt va"
  shows "pt_wf x86_fmt (x86_arch_unmap_page root va st) root
    \<and> (\<forall>va'. mappable x86_fmt va' \<longrightarrow> pt_leaf x86_fmt (x86_arch_unmap_page root va st) root va' =
         (if page_of va' = page_of va then 0 else pt_leaf x86_fmt st root va'))
    \<and> frames (x86_arch_unmap_page root va st) = frames st"
proof -
  have u: "unmap_page x86_paging root va st = x86_arch_unmap_page root va st"
    by (simp add: unmap_page_def x86_paging_def)
  have "frames (x86_arch_unmap_page root va st) = frames st"
    by (simp add: x86_arch_unmap_page_def x86_unmap_4k_path pt_clear_def split: option.splits)
  then show ?thesis
    using x86_arch.unmap_law[OF wf va] pt_extD(1) unfolding u by blast
qed

theorem x86_unmap_page_correct_witness:
  "pt_wf x86_fmt demo_mm 0x1000 \<and> pt_leaf x86_fmt (x86_arch_unmap_page 0x1000 0x400000 demo_mm) 0x1000 0x400FFF = 0"
proof -
  have va: "mappable x86_fmt 0x400000" "mappable x86_fmt 0x400FFF"
    by (simp_all add: mappable_def low_va_def user_va_def va_idx_nat)
  have "page_of 0x400FFF = page_of 0x400000" by (simp add: page_of_eq_iff)
  then show ?thesis using x86_unmap_page_correct[OF demo_mm_wf va(1)] va(2) demo_mm_wf by simp
qed

text \<open>
  C31. A new x86-64 root maps no user page, whatever the tables in CR3 contain: allocation of a root
  returns, and either fails with the state unchanged or gives a root whose user half is empty.
\<close>

theorem x86_new_root_empty:
  assumes "mm_ok x86_fmt st"
  shows "\<exists>root st'. x86_alloc_page_table_root cr3 st = Some (root, st')
    \<and> ((root = 0 \<and> st' = st)
       \<or> (pt_wf x86_fmt st' root \<and> (\<forall>va. user_va x86_fmt va \<longrightarrow> pt_leaf x86_fmt st' root va = 0)))"
  using assms by (rule x86_root_ok)

theorem x86_new_root_empty_witness:
  "mm_ok x86_fmt demo_mm \<and> (\<exists>root st'. x86_alloc_page_table_root 0x1000 demo_mm = Some (root, st')
    \<and> ((root = 0 \<and> st' = demo_mm)
       \<or> (pt_wf x86_fmt st' root \<and> (\<forall>va. user_va x86_fmt va \<longrightarrow> pt_leaf x86_fmt st' root va = 0))))"
  using x86_new_root_empty[of demo_mm "0x1000"] pt_wf_mm_ok[OF demo_mm_wf] by blast

end
