(* ===== verification/Aarch64_Paging.thy ===== *)
theory Aarch64_Paging
  imports Page_Walk
begin

text \<open>
  AArch64 page tables (\<open>src/arch/aarch64/src/paging.rs\<close>): four levels with a 4 KiB granule, reached by
  their physical addresses. The theory models the code and discharges the contract of \<open>paging_arch\<close>.
  The barrier and TLB instructions have no effect on memory.
\<close>

definition A64_VALID :: u64 where "A64_VALID = 1"
definition A64_TABLE :: u64 where "A64_TABLE = 2"
definition A64_ATTR_DEV :: u64 where "A64_ATTR_DEV = 4"
definition A64_USER :: u64 where "A64_USER = 0x40"
definition A64_RDONLY :: u64 where "A64_RDONLY = 0x80"
definition A64_INNER_SHR :: u64 where "A64_INNER_SHR = 0x300"
definition A64_AF :: u64 where "A64_AF = 0x400"
definition A64_NO_EXEC :: u64 where "A64_NO_EXEC = 2 ^ 54"

definition A64_ADDR :: u64 where "A64_ADDR = 0x0000FFFFFFFFF000"

definition a64_alloc_zeroed_page :: "mm_state \<Rightarrow> (usize option \<times> mm_state) panicking" where
  "a64_alloc_zeroed_page st =
     (case mm_alloc 0 st of
        None \<Rightarrow> None
      | Some (None, st1) \<Rightarrow> Some (None, st1)
      | Some (Some phys, st1) \<Rightarrow> Some (Some phys, st1\<lparr>ram := fill_bytes (ram st1) phys 0 PAGE_SIZE\<rparr>))"

definition a64_ensure_table :: "usize \<Rightarrow> nat \<Rightarrow> mm_state \<Rightarrow> (usize option \<times> mm_state) panicking" where
  "a64_ensure_table parent idx st =
     (let entry = load64 (ram st) (entry_ptr parent idx)
      in if entry AND A64_VALID \<noteq> 0 then Some (Some (entry AND A64_ADDR), st)
         else (case a64_alloc_zeroed_page st of
                 None \<Rightarrow> None
               | Some (None, st1) \<Rightarrow> Some (None, st1)
               | Some (Some table, st1) \<Rightarrow>
                   Some (Some table,
                     st1\<lparr>ram := store64 (ram st1) (entry_ptr parent idx) (table OR A64_TABLE OR A64_VALID)\<rparr>)))"

definition a64_map_4k :: "usize \<Rightarrow> usize \<Rightarrow> usize \<Rightarrow> u64 \<Rightarrow> mm_state \<Rightarrow> (bool \<times> mm_state) panicking" where
  "a64_map_4k pgd virt phys flags st =
     (case a64_ensure_table pgd (va_idx 39 virt) st of
        None \<Rightarrow> None
      | Some (None, st1) \<Rightarrow> Some (False, st1)
      | Some (Some p1, st1) \<Rightarrow>
          (case a64_ensure_table p1 (va_idx 30 virt) st1 of
             None \<Rightarrow> None
           | Some (None, st2) \<Rightarrow> Some (False, st2)
           | Some (Some p2, st2) \<Rightarrow>
               (case a64_ensure_table p2 (va_idx 21 virt) st2 of
                  None \<Rightarrow> None
                | Some (None, st3) \<Rightarrow> Some (False, st3)
                | Some (Some p3, st3) \<Rightarrow>
                    (let final_entry = phys OR flags OR 3
                     in Some (True, st3\<lparr>ram := store64 (ram st3) (entry_ptr p3 (va_idx 12 virt)) final_entry\<rparr>)))))"

definition a64_unmap_4k :: "usize \<Rightarrow> usize \<Rightarrow> mm_state \<Rightarrow> mm_state" where
  "a64_unmap_4k pgd virt st =
     (let e0 = load64 (ram st) (entry_ptr pgd (va_idx 39 virt))
      in if e0 AND A64_VALID = 0 then st
         else let p1 = e0 AND A64_ADDR; e1 = load64 (ram st) (entry_ptr p1 (va_idx 30 virt))
              in if e1 AND A64_VALID = 0 then st
                 else let p2 = e1 AND A64_ADDR; e2 = load64 (ram st) (entry_ptr p2 (va_idx 21 virt))
                      in if e2 AND A64_VALID = 0 then st
                         else let p3 = e2 AND A64_ADDR
                              in st\<lparr>ram := store64 (ram st) (entry_ptr p3 (va_idx 12 virt)) 0\<rparr>)"

definition a64_translate_flags :: "u64 \<Rightarrow> u64" where
  "a64_translate_flags bits =
     (let src = pf_truncate bits
      in (A64_VALID OR A64_AF OR A64_INNER_SHR)
         OR (if pf_contains src PF_USER then A64_USER else 0)
         OR (if \<not> pf_contains src PF_WRITABLE then A64_RDONLY else 0)
         OR (if \<not> pf_contains src PF_EXECUTE then A64_NO_EXEC else 0)
         OR (if pf_contains src PF_NOCACHE then A64_ATTR_DEV else 0))"

definition a64_arch_map_page :: "usize \<Rightarrow> usize \<Rightarrow> usize \<Rightarrow> u64 \<Rightarrow> mm_state \<Rightarrow> (bool \<times> mm_state) panicking" where
  "a64_arch_map_page root virt phys flags st = a64_map_4k root virt phys (a64_translate_flags flags) st"

definition a64_arch_unmap_page :: "usize \<Rightarrow> usize \<Rightarrow> mm_state \<Rightarrow> mm_state" where
  "a64_arch_unmap_page root virt st = a64_unmap_4k root virt st"

definition a64_paging :: arch_paging where
  "a64_paging = \<lparr>arch_map_page = a64_arch_map_page, arch_unmap_page = a64_arch_unmap_page\<rparr>"

text \<open>
  \<open>arch_alloc_page_table_root\<close>: a zeroed root with the kernel window and the UART mapped to
  themselves for the kernel. The result of each \<open>map_4k\<close> is ignored.
\<close>

partial_function (option) a64_identity_map :: "usize \<Rightarrow> u64 \<Rightarrow> usize \<Rightarrow> usize \<Rightarrow> mm_state \<Rightarrow> mm_state option" where
  "a64_identity_map pgd flags addr stop st =
     (if addr < stop
      then (case a64_map_4k pgd addr addr flags st of
              None \<Rightarrow> None
            | Some (ok, st') \<Rightarrow> a64_identity_map pgd flags (addr + PAGE_SIZE) stop st')
      else Some st)"

definition a64_alloc_page_table_root :: "mm_state \<Rightarrow> (usize \<times> mm_state) panicking" where
  "a64_alloc_page_table_root st =
     (case mm_alloc 0 st of
        None \<Rightarrow> None
      | Some (None, st1) \<Rightarrow> Some (0, st1)
      | Some (Some phys, st1) \<Rightarrow>
          (let st2 = st1\<lparr>ram := fill_bytes (ram st1) phys 0 PAGE_SIZE\<rparr>;
               rw_flags = A64_VALID OR A64_AF OR A64_INNER_SHR;
               device_flags = A64_VALID OR A64_AF OR A64_INNER_SHR OR A64_ATTR_DEV
           in Option.bind (a64_identity_map phys rw_flags 0x40000000 0x44000000 st2)
                (\<lambda>st3. map_option (Pair phys) (a64_identity_map phys device_flags 0x09000000 0x09100000 st3))))"

subsection \<open>The format\<close>

definition a64_fmt :: pt_fmt where
  "a64_fmt = \<lparr>is_present = (\<lambda>e. e AND A64_VALID \<noteq> 0), next_table = (\<lambda>e. e AND A64_ADDR),
     use_hhdm = False, user_slots = 512, phys_limit = 2 ^ 48\<rparr>"

lemma a64_fmt_simps [simp]:
  "is_present a64_fmt e \<longleftrightarrow> e AND A64_VALID \<noteq> 0" "next_table a64_fmt e = e AND A64_ADDR"
  "\<not> use_hhdm a64_fmt" "user_slots a64_fmt = 512" "phys_limit a64_fmt = 2 ^ 48"
  by (simp_all add: a64_fmt_def)

lemma a64_table_ptr [simp]: "table_ptr a64_fmt st t = t"
  by (simp add: table_ptr_def)

lemma a64_valid_iff: "(e :: u64) AND A64_VALID \<noteq> 0 \<longleftrightarrow> bit e 0"
  by (simp add: A64_VALID_def and_one_eq bit_0 odd_iff_mod_2_eq_one mod2_eq_if)

lemma bit_A64_ADDR: "bit A64_ADDR n \<longleftrightarrow> 12 \<le> n \<and> n < 48"
proof -
  have m: "A64_ADDR = mask 48 AND NOT (mask 12)"
    by (simp add: A64_ADDR_def mask_eq_exp_minus_1)
  show ?thesis unfolding m bit_and_iff bit_not_iff bit_mask_iff by auto
qed

lemma low_bits_clear: "page_aligned z \<Longrightarrow> n < 12 \<Longrightarrow> \<not> bit z n"
proof -
  assume "page_aligned z" "n < 12"
  then have "2 ^ Suc n dvd unat z"
    using dvd_trans[OF le_imp_power_dvd, of "Suc n" 12 2 "unat z"] by (simp add: page_aligned_def)
  then show ?thesis by (auto simp: bit_odd_unat elim!: dvdE)
qed

lemma high_bits_clear: "unat (z :: usize) < 2 ^ k \<Longrightarrow> k \<le> n \<Longrightarrow> \<not> bit z n"
proof -
  assume lt: "unat z < 2 ^ k" "k \<le> n"
  then have "unat z < 2 ^ n" using power_increasing[of k n "2 :: nat"] by linarith
  then show ?thesis by (simp add: bit_odd_unat)
qed

lemma a64_link_addr:
  assumes "page_aligned z" "unat z < 2 ^ 48"
  shows "(z OR A64_TABLE OR A64_VALID) AND A64_ADDR = z"
proof (rule bit_word_eqI)
  fix n assume "n < LENGTH(64)"
  have m: "A64_TABLE OR A64_VALID = mask 2"
    by (simp add: A64_TABLE_def A64_VALID_def mask_eq_exp_minus_1)
  show "bit ((z OR A64_TABLE OR A64_VALID) AND A64_ADDR) n = bit z n"
    using low_bits_clear[OF assms(1), of n] high_bits_clear[OF assms(2), of n]
    unfolding m bit_and_iff bit_or_iff bit_A64_ADDR bit_mask_iff by (cases "n < 12"; cases "n < 48") auto
qed

lemma a64_fresh_table: "a64_alloc_zeroed_page st = fresh_table a64_fmt st"
  by (auto simp: a64_alloc_zeroed_page_def fresh_table_def zero_page_def split: option.splits prod.splits)

subsection \<open>The code meets the contract of the table walk\<close>

interpretation a64: table_code a64_fmt a64_ensure_table "\<lambda>z. z OR A64_TABLE OR A64_VALID"
proof
  show "\<not> is_present a64_fmt 0" by simp
next
  fix z assume "page_aligned z" "unat z < phys_limit a64_fmt"
  moreover have "bit (z OR A64_TABLE OR A64_VALID) 0" by (simp add: A64_VALID_def bit_or_iff)
  ultimately show "is_present a64_fmt (z OR A64_TABLE OR A64_VALID)
      \<and> next_table a64_fmt (z OR A64_TABLE OR A64_VALID) = z"
    using a64_link_addr[of z] by (simp add: a64_valid_iff)
next
  fix st t i assume "is_present a64_fmt (pt_entry a64_fmt st t i)"
  then have "a64_ensure_table (table_ptr a64_fmt st t) i st =
      Some (Some (table_ptr a64_fmt st (next_table a64_fmt (pt_entry a64_fmt st t i))),
        set_entry a64_fmt st t i (pt_entry a64_fmt st t i))"
    by (simp add: a64_ensure_table_def Let_def pt_entry_def set_entry_def)
  then show "\<exists>e. a64_ensure_table (table_ptr a64_fmt st t) i st =
      Some (Some (table_ptr a64_fmt st (next_table a64_fmt (pt_entry a64_fmt st t i))), set_entry a64_fmt st t i e)
      \<and> is_present a64_fmt e \<and> next_table a64_fmt e = next_table a64_fmt (pt_entry a64_fmt st t i)"
    using \<open>is_present a64_fmt (pt_entry a64_fmt st t i)\<close> by blast
next
  fix st t i assume "\<not> is_present a64_fmt (pt_entry a64_fmt st t i)"
  then show "a64_ensure_table (table_ptr a64_fmt st t) i st =
      map_option (\<lambda>(r, st1). case r of None \<Rightarrow> (None, st1)
        | Some z \<Rightarrow> (Some (table_ptr a64_fmt st1 z), set_entry a64_fmt st1 t i (z OR A64_TABLE OR A64_VALID)))
        (fresh_table a64_fmt st)"
    by (auto simp: a64_ensure_table_def Let_def pt_entry_def set_entry_def a64_fresh_table split: option.splits)
qed

lemma a64_map_4k_path:
  "a64_map_4k root virt phys flags st =
     (case ensure_path a64_ensure_table (table_ptr a64_fmt st root) (va_path virt) st of
        None \<Rightarrow> None
      | Some (None, st') \<Rightarrow> Some (False, st')
      | Some (Some pt, st') \<Rightarrow>
          Some (True, st'\<lparr>ram := store64 (ram st') (entry_ptr pt (va_idx 12 virt)) (phys OR flags OR 3)\<rparr>))"
  by (auto simp: a64_map_4k_def Let_def va_path_def split: option.splits)

lemma a64_unmap_4k_path: "a64_unmap_4k root virt st = pt_clear a64_fmt st root virt"
  by (auto simp: a64_unmap_4k_def Let_def pt_clear_def va_path_def pt_step_def pt_entry_def set_entry_def
      split: option.splits)

lemma a64_map_4k_ok:
  assumes wf: "pt_wf a64_fmt st root" and va: "mappable a64_fmt va"
  shows "\<exists>ok st'. a64_map_4k root va phys flags st = Some (ok, st') \<and> pt_ext a64_fmt root st st'
      \<and> (\<forall>va'. mappable a64_fmt va' \<longrightarrow> pt_leaf a64_fmt st' root va' =
           (if ok \<and> page_of va' = page_of va then phys OR flags OR 3 else pt_leaf a64_fmt st root va'))"
proof -
  let ?e = "phys OR flags OR 3"
  have uv: "user_va a64_fmt va" using va by (simp add: mappable_def)
  have slot: "va_path va' = va_path va \<and> va_idx 12 va' = va_idx 12 va \<longleftrightarrow> page_of va' = page_of va"
    if "mappable a64_fmt va'" for va' using same_leaf_slot_iff[of va va'] va that by (simp add: mappable_def)
  from wf uv show ?thesis
  proof (cases rule: a64.map_walk_ok[where e = ?e])
    case (mapped t st1)
    then have "a64_map_4k root va phys flags st = Some (True, set_entry a64_fmt st1 t (va_idx 12 va) ?e)"
      unfolding a64_map_4k_path by (simp add: set_entry_def)
    then show ?thesis using mapped(2,3) slot by (auto simp: mappable_def)
  next
    case (oom st1)
    then have "a64_map_4k root va phys flags st = Some (False, st1)"
      unfolding a64_map_4k_path by simp
    then show ?thesis using oom by (auto simp: same_leaves_def mappable_def)
  qed
qed

lemma a64_ensure_counts:
  "a64_ensure_table parent idx st = Some (r, st') \<Longrightarrow> shootdowns st' = shootdowns st"
  by (auto simp: a64_ensure_table_def a64_alloc_zeroed_page_def mm_alloc_def Let_def
      split: if_splits option.splits)

lemma a64_path_counts:
  "ensure_path a64_ensure_table ptr is st = Some (r, st') \<Longrightarrow> shootdowns st' = shootdowns st"
  by (rule ensure_path_counts) (rule a64_ensure_counts)

interpretation a64_arch: paging_arch a64_paging a64_fmt "\<lambda>phys flags. phys OR a64_translate_flags flags OR 3"
proof
  fix st root va phys flags
  assume "pt_wf a64_fmt st root" "mappable a64_fmt va"
  then show "\<exists>ok st'. map_page a64_paging root va phys flags st = Some (ok, st') \<and> pt_ext a64_fmt root st st'
      \<and> (\<forall>va'. mappable a64_fmt va' \<longrightarrow> pt_leaf a64_fmt st' root va' =
           (if ok \<and> page_of va' = page_of va then phys OR a64_translate_flags flags OR 3
            else pt_leaf a64_fmt st root va'))"
    using a64_map_4k_ok[of st root va phys "a64_translate_flags flags"]
    by (simp add: map_page_def a64_paging_def a64_arch_map_page_def)
next
  fix st root va assume wf: "pt_wf a64_fmt st root" and va: "mappable a64_fmt va"
  have uv: "user_va a64_fmt va" using va by (simp add: mappable_def)
  have u: "unmap_page a64_paging root va st = pt_clear a64_fmt st root va"
    by (simp add: unmap_page_def a64_paging_def a64_arch_unmap_page_def a64_unmap_4k_path)
  show "pt_ext a64_fmt root st (unmap_page a64_paging root va st)
      \<and> (\<forall>va'. mappable a64_fmt va' \<longrightarrow> pt_leaf a64_fmt (unmap_page a64_paging root va st) root va' =
           (if page_of va' = page_of va then 0 else pt_leaf a64_fmt st root va'))"
    using pt_clear_ok[OF wf uv] same_leaf_slot_iff[of va] va unfolding u by (auto simp: mappable_def)
next
  fix root va phys flags st ok st'
  assume "map_page a64_paging root va phys flags st = Some (ok, st')"
  then show "shootdowns st' = shootdowns st"
    by (auto simp: map_page_def a64_paging_def a64_arch_map_page_def a64_map_4k_path
        dest!: a64_path_counts split: option.splits)
next
  fix root va st
  show "shootdowns (unmap_page a64_paging root va st) = shootdowns st"
    by (simp add: unmap_page_def a64_paging_def a64_arch_unmap_page_def a64_unmap_4k_path pt_clear_def
        split: option.splits)
qed

subsection \<open>A fresh AArch64 root\<close>

text \<open>Kernel-only leaves: absent, or a page mapped to itself without EL0 access.\<close>

definition a64_kernel_only :: "mm_state \<Rightarrow> usize \<Rightarrow> bool" where
  "a64_kernel_only st root \<longleftrightarrow> (\<forall>va. mappable a64_fmt va \<longrightarrow> (let e = pt_leaf a64_fmt st root va in
     e = 0 \<or> (e AND A64_USER = 0 \<and> e AND A64_ADDR = page_of va)))"

definition a64_kflags :: "u64 \<Rightarrow> bool" where
  "a64_kflags flags \<longleftrightarrow> flags AND A64_USER = 0 \<and> flags AND A64_ADDR = 0"

lemma a64_identity_leaf:
  assumes "page_aligned a" "unat a < 2 ^ 48" "a64_kflags flags"
  shows "(a OR flags OR 3) AND A64_USER = 0" "(a OR flags OR 3) AND A64_ADDR = a"
proof -
  have u: "A64_USER = 2 ^ 6" by (simp add: A64_USER_def)
  have "a AND A64_USER = 0"
    unfolding u and_exp_eq_0_iff_not_bit by (rule low_bits_clear[OF assms(1)]) simp
  moreover have "(3 :: u64) AND A64_USER = 0" by (simp add: A64_USER_def)
  ultimately show "(a OR flags OR 3) AND A64_USER = 0"
    using assms(3) by (simp add: bit.conj_disj_distrib2 a64_kflags_def)
  have "a AND A64_ADDR = a"
    by (rule bit_word_eqI)
      (metis low_bits_clear[OF assms(1)] high_bits_clear[OF assms(2)] bit_and_iff bit_A64_ADDR not_le)
  moreover have "(3 :: u64) AND A64_ADDR = 0" by (simp add: A64_ADDR_def)
  ultimately show "(a OR flags OR 3) AND A64_ADDR = a"
    using assms(3) by (simp add: bit.conj_disj_distrib2 a64_kflags_def)
qed

lemma a64_identity_map_ok:
  assumes "page_aligned addr" "page_aligned stop" "unat addr \<le> unat stop" "unat stop \<le> 2 ^ 48"
    "a64_kflags flags" "pt_wf a64_fmt st root" "a64_kernel_only st root"
  shows "\<exists>st'. a64_identity_map root flags addr stop st = Some st' \<and> pt_wf a64_fmt st' root
    \<and> a64_kernel_only st' root"
  using assms
proof (induction "unat stop - unat addr" arbitrary: addr st rule: less_induct)
  case less
  show ?case
  proof (cases "addr < stop")
    case True
    then have lt: "unat addr < unat stop" by (simp add: word_less_nat_alt)
    then have m: "mappable a64_fmt addr"
      using less.prems(4) by (simp add: mappable_def low_va_def user_va_def)
    obtain ok st1 where s1: "a64_map_4k root addr addr flags st = Some (ok, st1)" "pt_ext a64_fmt root st st1"
      "\<And>va'. mappable a64_fmt va' \<Longrightarrow> pt_leaf a64_fmt st1 root va' =
         (if ok \<and> page_of va' = page_of addr then addr OR flags OR 3 else pt_leaf a64_fmt st root va')"
      using a64_map_4k_ok[OF less.prems(6) m, of addr flags] by blast
    have a48: "unat addr < 2 ^ 48" using lt less.prems(4) by linarith
    note il = a64_identity_leaf[OF less.prems(1) a48 less.prems(5)]
    have k: "a64_kernel_only st1 root"
      using less.prems(7) s1(3) il page_of_aligned[OF less.prems(1)] by (simp add: a64_kernel_only_def Let_def)
    have al: "page_aligned PAGE_SIZE" by (simp add: page_aligned_def)
    have "4096 dvd unat stop - unat addr" using less.prems(1,2) by (simp add: page_aligned_def)
    then have "4096 \<le> unat stop - unat addr" by (rule dvd_imp_le) (use lt in simp)
    then have fit: "unat addr + 4096 \<le> unat stop" using lt by linarith
    have ua: "unat (addr + PAGE_SIZE) = unat addr + 4096"
      using a48 by (subst unat_add_nowrap) simp_all
    have "\<exists>st'. a64_identity_map root flags (addr + PAGE_SIZE) stop st1 = Some st' \<and> pt_wf a64_fmt st' root
        \<and> a64_kernel_only st' root"
      by (rule less.hyps)
        (use less.prems fit ua k pt_extD(1)[OF s1(2)] page_aligned_add[OF less.prems(1) al] in auto)
    then show ?thesis using s1(1) True by (subst a64_identity_map.simps) simp
  next
    case False
    then show ?thesis using less.prems by (subst a64_identity_map.simps) simp
  qed
qed

lemma a64_root_ok:
  assumes ok: "mm_ok a64_fmt st"
  shows "\<exists>root st'. a64_alloc_page_table_root st = Some (root, st')
    \<and> ((root = 0 \<and> st' = st) \<or> (pt_wf a64_fmt st' root \<and> a64_kernel_only st' root))"
proof -
  have b: "buddy_inv (frames st)" using ok by (simp add: mm_ok_def)
  obtain r st1 where r: "mm_alloc 0 st = Some (r, st1)"
    using mm_alloc_returns[of 0 st] by (auto simp: MAX_ORDER_def)
  show ?thesis
  proof (cases r)
    case None
    then show ?thesis using r mm_alloc_None[OF b] by (simp add: a64_alloc_page_table_root_def)
  next
    case (Some z)
    note al = mm_alloc_Some[OF b r[unfolded Some]]
    define st2 where "st2 = st1\<lparr>ram := fill_bytes (ram st1) z 0 PAGE_SIZE\<rparr>"
    have z: "page_aligned z" using al(2) by (simp add: page_aligned_def bsz_def)
    have ok2: "mm_ok a64_fmt st2" using ok al by (auto simp: mm_ok_def st2_def)
    have e: "pt_entry a64_fmt st2 z i = 0" if "i < 512" for i
      using load64_zero_page[OF z z that] by (simp add: pt_entry_def st2_def zero_page_def)
    have none: "\<forall>i < 512. i < user_slots a64_fmt \<longrightarrow> \<not> is_present a64_fmt (pt_entry a64_fmt st2 z i)"
      using e by simp
    have dis: "blk z 0 \<inter> free_bytes (frames st2) = {}" using al(4) by (auto simp: st2_def)
    note er = empty_root[OF ok2 z dis none]
    have k2: "a64_kernel_only st2 z" using er(2) by (simp add: a64_kernel_only_def mappable_def)
    let ?rw = "A64_VALID OR A64_AF OR A64_INNER_SHR"
    have kf: "a64_kflags ?rw" "a64_kflags (?rw OR A64_ATTR_DEV)"
      by (simp_all add: a64_kflags_def A64_VALID_def A64_AF_def A64_INNER_SHR_def A64_ATTR_DEV_def A64_USER_def A64_ADDR_def)
    obtain st3 where s3: "a64_identity_map z ?rw 0x40000000 0x44000000 st2 = Some st3"
      "pt_wf a64_fmt st3 z" "a64_kernel_only st3 z"
      using a64_identity_map_ok[OF _ _ _ _ kf(1) er(1) k2, of "0x40000000" "0x44000000"]
      by (auto simp: page_aligned_def)
    obtain st4 where s4: "a64_identity_map z (?rw OR A64_ATTR_DEV) 0x09000000 0x09100000 st3 = Some st4"
      "pt_wf a64_fmt st4 z" "a64_kernel_only st4 z"
      using a64_identity_map_ok[OF _ _ _ _ kf(2) s3(2,3), of "0x09000000" "0x09100000"]
      by (auto simp: page_aligned_def)
    show ?thesis
      using r Some s3 s4 by (simp add: a64_alloc_page_table_root_def Let_def st2_def or.assoc)
  qed
qed

subsection \<open>Properties of the AArch64 page tables\<close>

text \<open>
  C3. Mapping a user page on AArch64 returns; on success the hardware walk of every user address
  gives the new leaf on that page and the old leaf elsewhere, on failure every walk is as before.
  The tables stay a tree, and a root with its own tables keeps all its translations.
\<close>

theorem a64_map_page_correct:
  assumes wf: "pt_wf a64_fmt st root" and va: "mappable a64_fmt va"
  shows "\<exists>ok st'. a64_arch_map_page root va phys flags st = Some (ok, st') \<and> pt_wf a64_fmt st' root
    \<and> (\<forall>va'. mappable a64_fmt va' \<longrightarrow> pt_leaf a64_fmt st' root va' =
         (if ok \<and> page_of va' = page_of va then phys OR a64_translate_flags flags OR 3 else pt_leaf a64_fmt st root va'))
    \<and> (\<forall>root2 va'. pt_wf a64_fmt st root2 \<longrightarrow> pt_pages a64_fmt st root \<inter> pt_pages a64_fmt st root2 = {} \<longrightarrow>
         user_va a64_fmt va' \<longrightarrow> pt_leaf a64_fmt st' root2 va' = pt_leaf a64_fmt st root2 va')"
proof -
  obtain ok st' where m: "a64_map_4k root va phys (a64_translate_flags flags) st = Some (ok, st')"
    "pt_ext a64_fmt root st st'"
    "\<And>va'. mappable a64_fmt va' \<Longrightarrow> pt_leaf a64_fmt st' root va' =
         (if ok \<and> page_of va' = page_of va then phys OR a64_translate_flags flags OR 3 else pt_leaf a64_fmt st root va')"
    using a64_map_4k_ok[OF wf va, of phys "a64_translate_flags flags"] by blast
  then show ?thesis
    unfolding a64_arch_map_page_def using pt_extD(1)[OF m(2)] other_root_unchanged(2)[OF m(2)] by blast
qed

lemma demo_mm_a64_wf: "pt_wf a64_fmt demo_mm 0x1000"
proof (rule empty_root(1))
  show "mm_ok a64_fmt demo_mm"
    using demo_frames_ok by (auto simp: mm_ok_def demo_mm_def page_aligned_def)
  show "blk 0x1000 0 \<inter> free_bytes (frames demo_mm) = {}"
    using demo_frames_ok by (auto simp: demo_mm_def blk_def bsz_def)
qed (simp_all add: page_aligned_def pt_entry_def demo_mm_def)

theorem a64_map_page_correct_witness:
  "pt_wf a64_fmt demo_mm 0x1000 \<and> (\<exists>ok st'. a64_arch_map_page 0x1000 0x400000 0x9000 PF_USER demo_mm = Some (ok, st')
     \<and> pt_leaf a64_fmt st' 0x1000 0x400000 = (if ok then 0x9000 OR a64_translate_flags PF_USER OR 3 else 0))"
proof -
  have va: "mappable a64_fmt 0x400000"
    by (simp add: mappable_def low_va_def user_va_def)
  have z: "pt_leaf a64_fmt demo_mm 0x1000 va = 0" for va
    by (simp add: pt_leaf_def va_path_def pt_step_def pt_entry_def demo_mm_def)
  show ?thesis
    using a64_map_page_correct[OF demo_mm_a64_wf va, of "0x9000" PF_USER] va demo_mm_a64_wf z by auto
qed



end
