(* ===== verification/Vmm.thy ===== *)
theory Vmm
  imports Page_Walk
begin

text \<open>
  Per-process address spaces (\<open>src/mm/src/vmm.rs\<close>): eight slots of virtual memory areas, eager ones
  backed by one contiguous block and lazy ones by a page per fault. The operations are parametric
  in the architecture (\<open>arch_paging\<close>); a panic or a loop that does not end is None.
\<close>

definition PROT_READ :: u32 where "PROT_READ = 1"
definition PROT_WRITE :: u32 where "PROT_WRITE = 2"
definition PROT_EXEC :: u32 where "PROT_EXEC = 4"
definition MAP_PRIVATE :: u32 where "MAP_PRIVATE = 2"
definition MAP_ANONYMOUS :: u32 where "MAP_ANONYMOUS = 32"

record vma_region =
  vma_start :: usize
  vma_end :: usize
  vma_phys :: usize
  vma_flags :: u64
  lazy :: bool
  lazy_pages :: "usize list"
  lazy_count :: usize
  prot :: u32
  map_flags :: u32
  file_cap :: usize
  file_off :: u64
  cow :: bool

record address_space =
  page_table_root :: usize
  regions :: "vma_region option list"
  heap_start :: usize
  heap_end :: usize

definition as_new :: "usize \<Rightarrow> address_space" where
  "as_new root = \<lparr>page_table_root = root, regions = replicate 8 None, heap_start = 0, heap_end = 0\<rparr>"

text \<open>\<open>pages_to_order\<close>: the loop shifts \<open>cap\<close> until it reaches \<open>pages\<close>; from \<open>cap = 0\<close> it would not end.\<close>

partial_function (option) order_loop :: "nat \<Rightarrow> usize \<Rightarrow> usize \<Rightarrow> nat option" where
  "order_loop order cap pages =
     (if cap < pages then order_loop (Suc order) (push_bit 1 cap) pages else Some order)"

definition pages_to_order :: "usize \<Rightarrow> nat option" where
  "pages_to_order pages = order_loop 0 1 pages"

definition in_vma :: "usize \<Rightarrow> vma_region \<Rightarrow> bool" where
  "in_vma va r \<longleftrightarrow> vma_start r \<le> va \<and> va < vma_end r"

definition overlaps :: "usize \<Rightarrow> usize \<Rightarrow> vma_region \<Rightarrow> bool" where
  "overlaps lo hi r \<longleftrightarrow> lo < vma_end r \<and> hi > vma_start r"

text \<open>The page loops of \<open>map\<close>: install pages \<open>i, i + 1, ...\<close> (the failing index, if any) and roll back.\<close>

fun map_loop :: "arch_paging \<Rightarrow> usize \<Rightarrow> usize \<Rightarrow> usize \<Rightarrow> u64 \<Rightarrow> nat \<Rightarrow> nat \<Rightarrow> mm_state \<Rightarrow> (nat option \<times> mm_state) panicking" where
  "map_loop ar root virt phys flags i 0 st = Some (None, st)"
| "map_loop ar root virt phys flags i (Suc n) st =
     (case map_page ar root (virt + of_nat i * PAGE_SIZE) (phys + of_nat i * PAGE_SIZE) flags st of
        None \<Rightarrow> None
      | Some (ok, st') \<Rightarrow>
          if ok then map_loop ar root virt phys flags (Suc i) n st' else Some (Some i, st'))"

fun unmap_loop :: "arch_paging \<Rightarrow> usize \<Rightarrow> usize \<Rightarrow> nat \<Rightarrow> nat \<Rightarrow> mm_state \<Rightarrow> mm_state" where
  "unmap_loop ar root virt j 0 st = st"
| "unmap_loop ar root virt j (Suc n) st =
     unmap_loop ar root virt (Suc j) n (unmap_page ar root (virt + of_nat j * PAGE_SIZE) st)"

definition as_map :: "arch_paging \<Rightarrow> address_space \<Rightarrow> usize \<Rightarrow> usize \<Rightarrow> u64 \<Rightarrow> mm_state
    \<Rightarrow> (bool \<times> address_space \<times> mm_state) panicking" where
  "as_map ar as virt0 sz flags st =
     (if sz = 0 then Some (False, as, st)
      else case position (\<lambda>r. r = None) (regions as) of
        None \<Rightarrow> Some (False, as, st)
      | Some slot \<Rightarrow>
          (let virt = virt0 AND NOT (PAGE_SIZE - 1);
               pages = (sz + PAGE_SIZE - 1) div PAGE_SIZE
           in case checked_add virt (pages * PAGE_SIZE) of
                None \<Rightarrow> Some (False, as, st)
              | Some stop \<Rightarrow>
                  if \<exists>r \<in> set (regions as). case r of None \<Rightarrow> False | Some r \<Rightarrow> overlaps virt stop r
                  then Some (False, as, st)
                  else do {
                    order \<leftarrow> pages_to_order pages;
                    (r, st1) \<leftarrow> mm_alloc order st;
                    case r of
                      None \<Rightarrow> Some (False, as, st1)
                    | Some phys \<Rightarrow> do {
                        let st2 = st1\<lparr>ram := fill_bytes (ram st1) (phys_to_virt st1 phys) 0 (pages * PAGE_SIZE)\<rparr>;
                        (failed, st3) \<leftarrow> map_loop ar (page_table_root as) virt phys flags 0 (unat pages) st2;
                        case failed of
                          Some i \<Rightarrow> do {
                            st4 \<leftarrow> mm_free phys order (unmap_loop ar (page_table_root as) virt 0 i st3);
                            Some (False, as, st4)
                          }
                        | None \<Rightarrow>
                            Some (True, as\<lparr>regions := (regions as)[slot := Some
                              \<lparr>vma_start = virt, vma_end = virt + pages * PAGE_SIZE, vma_phys = phys,
                               vma_flags = flags, lazy = False, lazy_pages = [], lazy_count = 0,
                               prot = PROT_READ OR PROT_WRITE, map_flags = MAP_ANONYMOUS OR MAP_PRIVATE,
                               file_cap = 0, file_off = 0, cow = False\<rparr>]\<rparr>, st3)
                      }
                  }))"

definition as_map_lazy :: "address_space \<Rightarrow> usize \<Rightarrow> usize \<Rightarrow> u64 \<Rightarrow> bool \<times> address_space" where
  "as_map_lazy as virt0 sz flags =
     (if sz = 0 then (False, as)
      else case position (\<lambda>r. r = None) (regions as) of
        None \<Rightarrow> (False, as)
      | Some slot \<Rightarrow>
          (let virt = virt0 AND NOT (PAGE_SIZE - 1);
               pages = (sz + PAGE_SIZE - 1) div PAGE_SIZE
           in case checked_add virt (pages * PAGE_SIZE) of
                None \<Rightarrow> (False, as)
              | Some stop \<Rightarrow>
                  if \<exists>r \<in> set (regions as). case r of None \<Rightarrow> False | Some r \<Rightarrow> overlaps virt stop r
                  then (False, as)
                  else (True, as\<lparr>regions := (regions as)[slot := Some
                    \<lparr>vma_start = virt, vma_end = stop, vma_phys = 0, vma_flags = flags, lazy = True,
                     lazy_pages = [], lazy_count = 0,
                     prot = PROT_READ OR PROT_WRITE, map_flags = MAP_ANONYMOUS OR MAP_PRIVATE,
                     file_cap = 0, file_off = 0, cow = False\<rparr>]\<rparr>)))"

definition as_find :: "address_space \<Rightarrow> usize \<Rightarrow> nat option" where
  "as_find as va = position (\<lambda>r. case r of None \<Rightarrow> False | Some r \<Rightarrow> in_vma va r) (regions as)"

definition lazy_get :: "vma_region \<Rightarrow> nat \<Rightarrow> usize" where
  "lazy_get r i = (if i < length (lazy_pages r) then lazy_pages r ! i else 0)"

definition as_page_fault :: "arch_paging \<Rightarrow> address_space \<Rightarrow> usize \<Rightarrow> mm_state
    \<Rightarrow> (bool \<times> address_space \<times> mm_state) panicking" where
  "as_page_fault ar as fault_va st =
     (let page_va = fault_va AND NOT (PAGE_SIZE - 1)
      in case as_find as fault_va of
           None \<Rightarrow> Some (False, as, st)
         | Some idx \<Rightarrow>
             (let region = the (regions as ! idx)
              in if \<not> lazy region then Some (False, as, st)
                 else let page_idx = unat ((page_va - vma_start region) div PAGE_SIZE)
                      in if lazy_get region page_idx \<noteq> 0 then Some (False, as, st)
                         else do {
                           (r, st1) \<leftarrow> mm_alloc 0 st;
                           case r of
                             None \<Rightarrow> Some (False, as, st1)
                           | Some phys \<Rightarrow> do {
                               let st2 = st1\<lparr>ram := fill_bytes (ram st1) (phys_to_virt st1 phys) 0 PAGE_SIZE\<rparr>;
                               (mapped, st3) \<leftarrow> map_page ar (page_table_root as) page_va phys (vma_flags region) st2;
                               if \<not> mapped then do { st4 \<leftarrow> mm_free phys 0 st3; Some (False, as, st4) }
                               else let lp = (if length (lazy_pages region) \<le> page_idx
                                              then resize (lazy_pages region) (page_idx + 1) 0 else lazy_pages region);
                                        region' = region\<lparr>lazy_pages := lp[page_idx := phys], lazy_count := lazy_count region + 1\<rparr>
                                    in Some (True, as\<lparr>regions := (regions as)[idx := Some region']\<rparr>, st3)
                             }
                         }))"

definition as_virt_to_phys :: "address_space \<Rightarrow> usize \<Rightarrow> usize option" where
  "as_virt_to_phys as va =
     (case as_find as va of
        None \<Rightarrow> None
      | Some idx \<Rightarrow>
          (let vma = the (regions as ! idx)
           in if lazy vma
              then (let offset = va - vma_start vma;
                        phys_page = lazy_get vma (unat (offset div PAGE_SIZE))
                    in if phys_page = 0 then None else Some (phys_page + offset mod PAGE_SIZE))
              else Some (vma_phys vma + (va - vma_start vma))))"

text \<open>\<open>prefault_range\<close>: fault in every page of the range that has no frame yet; faults may fail silently.\<close>

partial_function (option) prefault_loop :: "arch_paging \<Rightarrow> usize \<Rightarrow> usize \<Rightarrow> address_space \<Rightarrow> mm_state
    \<Rightarrow> (address_space \<times> mm_state) option" where
  "prefault_loop ar va page_end as st =
     (if va < page_end
      then (if as_virt_to_phys as va = None
            then (case as_page_fault ar as va st of
                    None \<Rightarrow> None
                  | Some (ok, as', st') \<Rightarrow> prefault_loop ar (va + PAGE_SIZE) page_end as' st')
            else prefault_loop ar (va + PAGE_SIZE) page_end as st)
      else Some (as, st))"

definition as_prefault_range :: "arch_paging \<Rightarrow> address_space \<Rightarrow> usize \<Rightarrow> usize \<Rightarrow> mm_state
    \<Rightarrow> (address_space \<times> mm_state) option" where
  "as_prefault_range ar as addr len st =
     (if len = 0 then Some (as, st)
      else prefault_loop ar (addr AND NOT (PAGE_SIZE - 1))
             ((addr + len + PAGE_SIZE - 1) AND NOT (PAGE_SIZE - 1)) as st)"

text \<open>\<open>unmap_range\<close>: the lazy pages \<open>i, i + 1, ...\<close> of a region, then the reshaping of each overlapping region.\<close>

fun unmap_lazy :: "arch_paging \<Rightarrow> usize \<Rightarrow> usize \<Rightarrow> nat \<Rightarrow> nat \<Rightarrow> vma_region \<Rightarrow> mm_state \<Rightarrow> (vma_region \<times> mm_state) panicking" where
  "unmap_lazy ar pt r_start i 0 r st = Some (r, st)"
| "unmap_lazy ar pt r_start i (Suc n) r st =
     (if lazy_pages r ! i \<noteq> 0
      then Option.bind (mm_free (lazy_pages r ! i) 0 (unmap_page ar pt (r_start + of_nat i * PAGE_SIZE) st))
             (unmap_lazy ar pt r_start (Suc i) n
                (r\<lparr>lazy_pages := (lazy_pages r)[i := 0],
                  lazy_count := (if lazy_count r = 0 then 0 else lazy_count r - 1)\<rparr>))
      else unmap_lazy ar pt r_start (Suc i) n r st)"

definition unmap_region :: "arch_paging \<Rightarrow> usize \<Rightarrow> usize \<Rightarrow> usize \<Rightarrow> vma_region \<Rightarrow> mm_state
    \<Rightarrow> (vma_region option \<times> mm_state) panicking" where
  "unmap_region ar pt virt stop r st =
     (let r_start = vma_start r; r_end = vma_end r;
          clip_s = max virt r_start; clip_e = min stop r_end
      in do {
        (r1, st1) \<leftarrow>
          (if lazy r
           then (let pg_first = unat ((clip_s - r_start) div PAGE_SIZE);
                     pg_last = unat ((clip_e - r_start + PAGE_SIZE - 1) div PAGE_SIZE)
                 in unmap_lazy ar pt r_start pg_first (min pg_last (length (lazy_pages r)) - pg_first) r st)
           else Some (r, unmap_loop ar pt clip_s 0 (unat ((clip_e - clip_s) div PAGE_SIZE)) st));
        if clip_s = r_start \<and> clip_e = r_end
        then (if \<not> lazy r1 \<and> vma_phys r1 \<noteq> 0
              then do {
                order \<leftarrow> pages_to_order ((r_end - r_start) div PAGE_SIZE);
                st2 \<leftarrow> mm_free (vma_phys r1) order st1;
                Some (None, st2)
              }
              else Some (None, st1))
        else if clip_s = r_start
        then (if lazy r1
              then (let shift = unat ((clip_e - r_start) div PAGE_SIZE);
                        lp = (if shift < length (lazy_pages r1) then drop shift (lazy_pages r1) else [])
                    in Some (Some (r1\<lparr>lazy_pages := lp, vma_start := clip_e\<rparr>), st1))
              else if vma_phys r1 \<noteq> 0
              then Some (Some (r1\<lparr>vma_phys := vma_phys r1 + (clip_e - r_start), vma_start := clip_e\<rparr>), st1)
              else Some (Some (r1\<lparr>vma_start := clip_e\<rparr>), st1))
        else Some (Some (r1\<lparr>vma_end := clip_s\<rparr>), st1)
      })"

fun unmap_slots :: "arch_paging \<Rightarrow> usize \<Rightarrow> usize \<Rightarrow> usize \<Rightarrow> vma_region option list \<Rightarrow> mm_state
    \<Rightarrow> (vma_region option list \<times> bool \<times> mm_state) panicking" where
  "unmap_slots ar pt virt stop [] st = Some ([], False, st)"
| "unmap_slots ar pt virt stop (slot # slots) st =
     (case slot of
        Some r \<Rightarrow>
          if vma_start r < stop \<and> vma_end r > virt
          then do {
            (slot', st1) \<leftarrow> unmap_region ar pt virt stop r st;
            (slots', did, st2) \<leftarrow> unmap_slots ar pt virt stop slots st1;
            Some (slot' # slots', True, st2)
          }
          else do {
            (slots', did, st2) \<leftarrow> unmap_slots ar pt virt stop slots st;
            Some (slot # slots', did, st2)
          }
      | None \<Rightarrow> do {
          (slots', did, st2) \<leftarrow> unmap_slots ar pt virt stop slots st;
          Some (slot # slots', did, st2)
        })"

definition as_unmap_range :: "arch_paging \<Rightarrow> address_space \<Rightarrow> usize \<Rightarrow> usize \<Rightarrow> mm_state
    \<Rightarrow> (address_space \<times> mm_state) panicking" where
  "as_unmap_range ar as virt0 len0 st =
     (if len0 = 0 then Some (as, st)
      else let virt = virt0 AND NOT (PAGE_SIZE - 1);
               len = (len0 + PAGE_SIZE - 1) AND NOT (PAGE_SIZE - 1)
           in case checked_add virt len of
                None \<Rightarrow> Some (as, st)
              | Some stop \<Rightarrow> do {
                  (slots, did_unmap, st1) \<leftarrow> unmap_slots ar (page_table_root as) virt stop (regions as) st;
                  Some (as\<lparr>regions := slots\<rparr>, if did_unmap then tlb_shootdown_all st1 else st1)
                })"

text \<open>Copies between kernel buffers and user memory, a page-sized chunk at a time.\<close>

function read_user_loop :: "mm_state \<Rightarrow> address_space \<Rightarrow> usize \<Rightarrow> nat \<Rightarrow> u8 list \<Rightarrow> bool \<times> u8 list" where
  "read_user_loop st as uva offset dest =
     (if offset < length dest
      then (let va = uva + of_nat offset
            in case as_virt_to_phys as va of
                 None \<Rightarrow> (False, dest)
               | Some phys \<Rightarrow>
                   (let page_off = unat (va mod PAGE_SIZE);
                        avail = 4096 - page_off;
                        chunk = min avail (length dest - offset);
                        src = phys_to_virt st phys;
                        bytes = map (\<lambda>k. ram st (src + of_nat k)) [0..<chunk]
                    in read_user_loop st as uva (offset + chunk)
                         (take offset dest @ bytes @ drop (offset + chunk) dest)))
      else (True, dest))"
  by pat_completeness auto

lemma page_off_lt: "unat (va mod PAGE_SIZE) < 4096"
  by (simp add: unat_mod_distrib)

lemma chunk_progress: "x < 4096 \<Longrightarrow> i < n \<Longrightarrow> 4096 - x \<le> n - i \<Longrightarrow> n - (i + (4096 - x)) < n - (i :: nat)"
  by linarith

termination read_user_loop
  by (relation "measure (\<lambda>(st, as, uva, offset, dest). length dest - offset)")
     (auto simp: min_def not_le intro!: chunk_progress page_off_lt)

definition as_read_user_buf :: "mm_state \<Rightarrow> address_space \<Rightarrow> usize \<Rightarrow> u8 list \<Rightarrow> bool \<times> u8 list" where
  "as_read_user_buf st as uva dest = read_user_loop st as uva 0 dest"

definition write_bytes :: "memory \<Rightarrow> usize \<Rightarrow> u8 list \<Rightarrow> memory" where
  "write_bytes m p bs = (\<lambda>x. if unat (x - p) < length bs then bs ! unat (x - p) else m x)"

function write_user_loop :: "address_space \<Rightarrow> usize \<Rightarrow> nat \<Rightarrow> u8 list \<Rightarrow> mm_state \<Rightarrow> bool \<times> mm_state" where
  "write_user_loop as uva offset src st =
     (if offset < length src
      then (let va = uva + of_nat offset
            in case as_virt_to_phys as va of
                 None \<Rightarrow> (False, st)
               | Some phys \<Rightarrow>
                   (let page_off = unat (va mod PAGE_SIZE);
                        avail = 4096 - page_off;
                        chunk = min avail (length src - offset);
                        st' = st\<lparr>ram := write_bytes (ram st) (phys_to_virt st phys) (take chunk (drop offset src))\<rparr>
                    in write_user_loop as uva (offset + chunk) src st'))
      else (True, st))"
  by pat_completeness auto

termination write_user_loop
  by (relation "measure (\<lambda>(as, uva, offset, src, st). length src - offset)")
     (auto simp: min_def not_le intro!: chunk_progress page_off_lt)

definition as_write_user_buf :: "address_space \<Rightarrow> usize \<Rightarrow> u8 list \<Rightarrow> mm_state \<Rightarrow> bool \<times> mm_state" where
  "as_write_user_buf as uva src st = write_user_loop as uva 0 src st"

text \<open>\<open>mprotect\<close>: the new flags go to the whole of each overlapping region, the remapping to the range.\<close>

fun remap_loop :: "arch_paging \<Rightarrow> usize \<Rightarrow> usize \<Rightarrow> usize \<Rightarrow> u64 \<Rightarrow> usize \<Rightarrow> nat \<Rightarrow> usize list \<Rightarrow> mm_state \<Rightarrow> mm_state panicking" where
  "remap_loop ar root addr stop flags start i [] st = Some st"
| "remap_loop ar root addr stop flags start i (phys # ps) st =
     (let page_va = start + of_nat i * PAGE_SIZE
      in if phys \<noteq> 0 \<and> addr \<le> page_va \<and> page_va < stop
         then (case map_page ar root page_va phys flags st of
                 None \<Rightarrow> None
               | Some (ok, st') \<Rightarrow> remap_loop ar root addr stop flags start (Suc i) ps st')
         else remap_loop ar root addr stop flags start (Suc i) ps st)"

fun remap_eager :: "arch_paging \<Rightarrow> usize \<Rightarrow> usize \<Rightarrow> usize \<Rightarrow> u64 \<Rightarrow> usize \<Rightarrow> usize \<Rightarrow> nat \<Rightarrow> nat \<Rightarrow> mm_state \<Rightarrow> mm_state panicking" where
  "remap_eager ar root addr stop flags start phys i 0 st = Some st"
| "remap_eager ar root addr stop flags start phys i (Suc n) st =
     (let page_va = start + of_nat i * PAGE_SIZE
      in if addr \<le> page_va \<and> page_va < stop
         then (case map_page ar root page_va (phys + of_nat i * PAGE_SIZE) flags st of
                 None \<Rightarrow> None
               | Some (ok, st') \<Rightarrow> remap_eager ar root addr stop flags start phys (Suc i) n st')
         else remap_eager ar root addr stop flags start phys (Suc i) n st)"

fun mprotect_slots :: "arch_paging \<Rightarrow> usize \<Rightarrow> usize \<Rightarrow> usize \<Rightarrow> u32 \<Rightarrow> u64 \<Rightarrow> vma_region option list \<Rightarrow> mm_state
    \<Rightarrow> (vma_region option list \<times> bool \<times> mm_state) panicking" where
  "mprotect_slots ar root addr stop pr new_flags [] st = Some ([], False, st)"
| "mprotect_slots ar root addr stop pr new_flags (slot # slots) st =
     (case slot of
        Some r \<Rightarrow>
          if vma_start r < stop \<and> vma_end r > addr
          then do {
            let r' = r\<lparr>prot := pr, vma_flags := new_flags\<rparr>;
            st1 \<leftarrow> (if lazy r then remap_loop ar root addr stop new_flags (vma_start r) 0 (lazy_pages r) st
                    else if vma_phys r \<noteq> 0
                    then remap_eager ar root addr stop new_flags (vma_start r) (vma_phys r) 0
                           (unat ((vma_end r - vma_start r) div PAGE_SIZE)) st
                    else Some st);
            (slots', changed, st2) \<leftarrow> mprotect_slots ar root addr stop pr new_flags slots st1;
            Some (Some r' # slots', True, st2)
          }
          else do {
            (slots', changed, st2) \<leftarrow> mprotect_slots ar root addr stop pr new_flags slots st;
            Some (slot # slots', changed, st2)
          }
      | None \<Rightarrow> do {
          (slots', changed, st2) \<leftarrow> mprotect_slots ar root addr stop pr new_flags slots st;
          Some (slot # slots', changed, st2)
        })"

definition prot_flags :: "u32 \<Rightarrow> u64" where
  "prot_flags pr = PF_PRESENT OR PF_USER
     OR (if pr AND PROT_WRITE \<noteq> 0 then PF_WRITABLE else 0)
     OR (if pr AND PROT_EXEC \<noteq> 0 then PF_EXECUTE else 0)"

definition as_mprotect :: "arch_paging \<Rightarrow> address_space \<Rightarrow> usize \<Rightarrow> usize \<Rightarrow> u32 \<Rightarrow> mm_state
    \<Rightarrow> (bool \<times> address_space \<times> mm_state) panicking" where
  "as_mprotect ar as addr0 len pr st =
     (if pr AND PROT_WRITE \<noteq> 0 \<and> pr AND PROT_EXEC \<noteq> 0 then Some (False, as, st)
      else let addr = addr0 AND NOT (PAGE_SIZE - 1)
           in case checked_add addr ((len + PAGE_SIZE - 1) AND NOT (PAGE_SIZE - 1)) of
                None \<Rightarrow> Some (False, as, st)
              | Some stop \<Rightarrow> do {
                  (slots, changed, st1) \<leftarrow>
                    mprotect_slots ar (page_table_root as) addr stop pr (prot_flags pr) (regions as) st;
                  Some (changed, as\<lparr>regions := slots\<rparr>, if changed then tlb_shootdown_all st1 else st1)
                })"

definition as_brk :: "arch_paging \<Rightarrow> address_space \<Rightarrow> usize \<Rightarrow> mm_state \<Rightarrow> (usize \<times> address_space \<times> mm_state) panicking" where
  "as_brk ar as new_end0 st =
     (let current_break = (if heap_end as \<noteq> 0 then heap_end as else heap_start as)
      in if new_end0 = 0 then Some (current_break, as, st)
         else if heap_start as = 0 then Some (current_break, as, st)
         else let new_end = (new_end0 + PAGE_SIZE - 1) AND NOT (PAGE_SIZE - 1)
              in case position (\<lambda>r. case r of None \<Rightarrow> False | Some r \<Rightarrow> vma_start r = heap_start as) (regions as) of
                   None \<Rightarrow>
                     if new_end \<le> heap_start as then Some (current_break, as, st)
                     else (case as_map_lazy as (heap_start as) (new_end - heap_start as)
                                  (PF_PRESENT OR PF_USER OR PF_WRITABLE) of
                             (ok, as') \<Rightarrow> if ok then Some (new_end, as'\<lparr>heap_end := new_end\<rparr>, st)
                                          else Some (current_break, as', st))
                 | Some idx \<Rightarrow>
                     (let region = the (regions as ! idx)
                      in if new_end = vma_end region then Some (new_end, as, st)
                         else if new_end > vma_end region
                         then (if \<exists>i < length (regions as). i \<noteq> idx \<and>
                                    (case regions as ! i of None \<Rightarrow> False
                                     | Some r \<Rightarrow> vma_start r < new_end \<and> vma_end r > vma_end region)
                               then Some (current_break, as, st)
                               else Some (new_end, as\<lparr>regions := (regions as)[idx := Some (region\<lparr>vma_end := new_end\<rparr>)],
                                                  heap_end := new_end\<rparr>, st))
                         else (let hs = vma_start region; old_end = vma_end region;
                                   first_idx = unat ((new_end - hs) div PAGE_SIZE);
                                   last_idx = unat ((old_end - hs + PAGE_SIZE - 1) div PAGE_SIZE);
                                   n = min last_idx (length (lazy_pages region)) - first_idx
                               in do {
                                 (r', st1) \<leftarrow> unmap_lazy ar (page_table_root as) hs first_idx n
                                                (region\<lparr>vma_end := new_end\<rparr>) st;
                                 Some (new_end, as\<lparr>regions := (regions as)[idx := Some r'], heap_end := new_end\<rparr>,
                                       tlb_shootdown_all st1)
                               })))"

text \<open>\<open>Drop\<close>: free every backing page, then the root.\<close>

fun free_lazy_pages :: "usize list \<Rightarrow> mm_state \<Rightarrow> mm_state panicking" where
  "free_lazy_pages [] st = Some st"
| "free_lazy_pages (p # ps) st =
     (if p \<noteq> 0 then Option.bind (mm_free p 0 st) (free_lazy_pages ps) else free_lazy_pages ps st)"

fun drop_slots :: "vma_region option list \<Rightarrow> mm_state \<Rightarrow> mm_state panicking" where
  "drop_slots [] st = Some st"
| "drop_slots (slot # slots) st =
     (case slot of
        None \<Rightarrow> drop_slots slots st
      | Some r \<Rightarrow> do {
          st1 \<leftarrow> (if lazy r then free_lazy_pages (lazy_pages r) st
                  else if vma_phys r \<noteq> 0
                  then do {
                    order \<leftarrow> pages_to_order ((vma_end r - vma_start r) div PAGE_SIZE);
                    mm_free (vma_phys r) order st
                  }
                  else Some st);
          drop_slots slots st1
        })"

definition as_drop :: "address_space \<Rightarrow> mm_state \<Rightarrow> mm_state panicking" where
  "as_drop as st = do {
     st1 \<leftarrow> drop_slots (regions as) st;
     st2 \<leftarrow> (if page_table_root as \<noteq> 0 then mm_free (page_table_root as) 0 st1 else Some st1);
     Some (tlb_shootdown_all st2)
   }"

end
