(* ===== verification/Vmm_Inv.thy ===== *)
theory Vmm_Inv
  imports Vmm X86_Paging Aarch64_Paging
begin

text \<open>
  Correctness of address spaces: the areas of a process never overlap and stay page aligned under
  every operation, the software translation of \<open>virt_to_phys\<close> agrees with the hardware walk after
  \<open>map\<close> and after a page fault, and what the trimming paths of \<open>unmap_range\<close> and \<open>brk\<close> do.
\<close>

subsection \<open>Orders\<close>

lemma order_loop_ok:
  assumes "k \<le> 63" "unat pages \<le> 2 ^ 63"
  shows "\<exists>p. order_loop k (2 ^ k) pages = Some p \<and> k \<le> p \<and> unat pages \<le> 2 ^ p \<and> (p = k \<or> 2 ^ (p - 1) < unat pages)"
  using assms
proof (induction "63 - k" arbitrary: k)
  case 0
  then have "k = 63" by simp
  moreover have "\<not> (2 ^ 63 :: usize) < pages"
    using 0(3) by (simp add: word_less_nat_alt)
  ultimately show ?case using 0 by (subst order_loop.simps) (simp add: word_less_nat_alt)
next
  case (Suc n)
  have u: "unat (2 ^ k :: usize) = 2 ^ k" using unat_pow2[of k, where 'a = 64] Suc.prems(1) by simp
  show ?case
  proof (cases "(2 ^ k :: usize) < pages")
    case True
    have "\<exists>p. order_loop (Suc k) (2 ^ Suc k) pages = Some p \<and> Suc k \<le> p \<and> unat pages \<le> 2 ^ p
        \<and> (p = Suc k \<or> 2 ^ (p - 1) < unat pages)"
      using Suc by (intro Suc.hyps) auto
    then obtain p where p: "order_loop (Suc k) (2 ^ Suc k) pages = Some p" "Suc k \<le> p" "unat pages \<le> 2 ^ p"
      "p = Suc k \<or> 2 ^ (p - 1) < unat pages" by blast
    have lt: "2 ^ k < unat pages" using True u by (simp add: word_less_nat_alt)
    have "order_loop k (2 ^ k) pages = Some p"
      using p(1) True by (subst order_loop.simps) (simp add: push_bit_eq_mult mult.commute)
    then show ?thesis using p lt by auto
  next
    case False
    then show ?thesis using u by (subst order_loop.simps) (auto simp: word_less_nat_alt)
  qed
qed

lemma pages_to_order_ok:
  assumes "unat pages \<le> 2 ^ 63"
  obtains p where "pages_to_order pages = Some p" "unat pages \<le> 2 ^ p" "p = 0 \<or> 2 ^ (p - 1) < unat pages"
  using order_loop_ok[of 0 pages] assms by (auto simp: pages_to_order_def)

lemma pages_bound: "unat ((x :: usize) div PAGE_SIZE) < 2 ^ 52"
proof -
  have "unat x < 2 ^ 52 * 4096" by simp
  then show ?thesis unfolding unat_div unat_PAGE_SIZE by (rule less_mult_imp_div_less)
qed

lemma pages_to_order_div:
  obtains p where "pages_to_order (x div PAGE_SIZE) = Some p" "unat (x div PAGE_SIZE) \<le> 2 ^ p"
    "p = 0 \<or> 2 ^ (p - 1) < unat (x div PAGE_SIZE)"
proof -
  have "unat (x div PAGE_SIZE) \<le> 2 ^ 63" using pages_bound[of x] by simp
  then show thesis using that by (elim pages_to_order_ok)
qed

lemma unat_pages_mult: "unat (x div PAGE_SIZE * PAGE_SIZE) = unat (x div PAGE_SIZE) * 4096"
proof -
  have "unat (x div PAGE_SIZE) * 4096 \<le> unat x" unfolding unat_div unat_PAGE_SIZE by simp
  then have "unat (x div PAGE_SIZE) * 4096 < 18446744073709551616" using unat_lt_usize[of x] by linarith
  then show ?thesis unfolding unat_word_ariths unat_PAGE_SIZE by simp
qed

subsection \<open>Areas\<close>

definition vma_ok :: "vma_region \<Rightarrow> bool" where
  "vma_ok r \<longleftrightarrow> page_aligned (vma_start r) \<and> page_aligned (vma_end r)"

definition vma_apart :: "vma_region \<Rightarrow> vma_region \<Rightarrow> bool" where
  "vma_apart r q \<longleftrightarrow> vma_end r \<le> vma_start q \<or> vma_end q \<le> vma_start r
     \<or> vma_end r \<le> vma_start r \<or> vma_end q \<le> vma_start q"

definition slots_ok :: "vma_region option list \<Rightarrow> bool" where
  "slots_ok rs \<longleftrightarrow> (\<forall>i < length rs. \<forall>r. rs ! i = Some r \<longrightarrow> vma_ok r)
     \<and> (\<forall>i < length rs. \<forall>j < length rs. \<forall>r q. i \<noteq> j \<longrightarrow> rs ! i = Some r \<longrightarrow> rs ! j = Some q \<longrightarrow> vma_apart r q)"

definition as_inv :: "address_space \<Rightarrow> bool" where
  "as_inv as \<longleftrightarrow> length (regions as) = 8 \<and> slots_ok (regions as)"

lemma vma_apart_sym: "vma_apart r q \<longleftrightarrow> vma_apart q r"
  by (auto simp: vma_apart_def)

lemma vma_apart_no_common: "vma_apart r q \<longleftrightarrow> \<not> (\<exists>va. in_vma va r \<and> in_vma va q)"
proof
  assume "\<not> (\<exists>va. in_vma va r \<and> in_vma va q)"
  then have "\<not> (in_vma (max (vma_start r) (vma_start q)) r \<and> in_vma (max (vma_start r) (vma_start q)) q)" by blast
  then show "vma_apart r q" by (auto simp: vma_apart_def in_vma_def max_def split: if_splits)
qed (auto simp: vma_apart_def in_vma_def)

lemma not_overlaps: "\<not> overlaps lo hi r \<longleftrightarrow> vma_end r \<le> lo \<or> hi \<le> vma_start r"
  by (auto simp: overlaps_def)

lemma slots_ok_update:
  assumes "slots_ok rs" "k < length rs" "vma_ok r"
    "\<And>j q. j < length rs \<Longrightarrow> j \<noteq> k \<Longrightarrow> rs ! j = Some q \<Longrightarrow> vma_apart r q"
  shows "slots_ok (rs[k := Some r])"
  unfolding slots_ok_def
proof (intro conjI allI impI)
  fix i q assume "i < length (rs[k := Some r])" "rs[k := Some r] ! i = Some q"
  then show "vma_ok q" using assms by (auto simp: slots_ok_def nth_list_update split: if_splits)
next
  fix i j p q assume "i < length (rs[k := Some r])" "j < length (rs[k := Some r])" "i \<noteq> j"
    "rs[k := Some r] ! i = Some p" "rs[k := Some r] ! j = Some q"
  then show "vma_apart p q"
    using assms vma_apart_sym by (auto simp: slots_ok_def nth_list_update split: if_splits)
qed

lemma slots_ok_same:
  assumes "slots_ok rs" "k < length rs" "rs ! k = Some r" "vma_start r' = vma_start r" "vma_end r' = vma_end r"
  shows "slots_ok (rs[k := Some r'])"
proof (rule slots_ok_update[OF assms(1,2)])
  show "vma_ok r'" using assms by (simp add: slots_ok_def vma_ok_def)
  show "vma_apart r' q" if "j < length rs" "j \<noteq> k" "rs ! j = Some q" for j q
    using assms that unfolding slots_ok_def vma_apart_def by metis
qed

lemma slots_ok_Cons:
  "slots_ok (s # rs) \<longleftrightarrow> (\<forall>r. s = Some r \<longrightarrow> vma_ok r \<and> (\<forall>q. Some q \<in> set rs \<longrightarrow> vma_apart r q)) \<and> slots_ok rs"
  (is "?l \<longleftrightarrow> ?r")
proof
  assume l: ?l
  have "vma_apart r q" if "s = Some r" "Some q \<in> set rs" for r q
  proof -
    obtain j where "j < length rs" "rs ! j = Some q" using \<open>Some q \<in> set rs\<close> by (auto simp: in_set_conv_nth)
    then show ?thesis using l that(1) unfolding slots_ok_def
      by (metis Suc_less_eq length_Cons nat.distinct(1) nth_Cons_0 nth_Cons_Suc zero_less_Suc)
  qed
  moreover have "vma_ok r" if "s = Some r" for r using l that unfolding slots_ok_def by fastforce
  moreover have "slots_ok rs"
    unfolding slots_ok_def
  proof (intro conjI allI impI)
    show "vma_ok r" if "i < length rs" "rs ! i = Some r" for i r
      using l that unfolding slots_ok_def by (metis Suc_less_eq length_Cons nth_Cons_Suc)
    show "vma_apart r q" if "i < length rs" "j < length rs" "i \<noteq> j" "rs ! i = Some r" "rs ! j = Some q" for i j r q
      using l that unfolding slots_ok_def by (metis Suc_inject Suc_less_eq length_Cons nth_Cons_Suc)
  qed
  ultimately show ?r by blast
next
  assume r: ?r
  show ?l
    unfolding slots_ok_def
  proof (intro conjI allI impI)
    fix i q assume "i < length (s # rs)" "(s # rs) ! i = Some q"
    then show "vma_ok q" using r by (cases i) (auto simp: slots_ok_def)
  next
    fix i j p q assume "i < length (s # rs)" "j < length (s # rs)" "i \<noteq> j" "(s # rs) ! i = Some p" "(s # rs) ! j = Some q"
    moreover have "Some q \<in> set rs" if "k < length rs" "rs ! k = Some q" for k q using that by (metis nth_mem)
    ultimately show "vma_apart p q"
      using r vma_apart_sym[of p q] by (cases i; cases j) (auto simp: slots_ok_def)
  qed
qed

subsection \<open>Every operation keeps the areas apart\<close>

lemma align_page: "virt AND NOT (PAGE_SIZE - 1) = page_of virt"
  by (simp add: page_of_def align_down_def)

lemma page_aligned_pages: "page_aligned (x div PAGE_SIZE * PAGE_SIZE)"
  by (simp add: page_aligned_def unat_pages_mult)

lemma new_range_ok:
  assumes "checked_add (page_of virt) (x div PAGE_SIZE * PAGE_SIZE) = Some stop"
  shows "page_aligned stop" "page_of virt \<le> stop" "stop = page_of virt + x div PAGE_SIZE * PAGE_SIZE"
proof -
  show "stop = page_of virt + x div PAGE_SIZE * PAGE_SIZE"
    using assms by (simp add: checked_add_def split: if_splits)
  then show "page_aligned stop" by (simp add: page_aligned_add page_aligned_pages)
  show "page_of virt \<le> stop" using checked_add_Some[OF assms] by (simp add: word_le_nat_alt)
qed

lemma insert_area:
  assumes inv: "as_inv as" and slot: "position (\<lambda>r. r = None) (regions as) = Some k"
    and c: "checked_add (page_of virt) (x div PAGE_SIZE * PAGE_SIZE) = Some stop"
    and free: "\<not> (\<exists>r \<in> set (regions as). case r of None \<Rightarrow> False | Some r \<Rightarrow> overlaps (page_of virt) stop r)"
    and r: "vma_start r = page_of virt" "vma_end r = stop"
  shows "as_inv (as\<lparr>regions := (regions as)[k := Some r]\<rparr>)"
proof -
  have k: "k < length (regions as)" using position_SomeD(1)[OF slot] .
  have "slots_ok ((regions as)[k := Some r])"
  proof (rule slots_ok_update)
    show "slots_ok (regions as)" using inv by (simp add: as_inv_def)
    show "vma_ok r" using new_range_ok[OF c] r by (simp add: vma_ok_def)
    fix j q assume "j < length (regions as)" "regions as ! j = Some q"
    then have "Some q \<in> set (regions as)" by (metis nth_mem)
    then have "\<not> overlaps (page_of virt) stop q" using free by force
    then show "vma_apart r q" unfolding not_overlaps using r by (auto simp: vma_apart_def)
  qed (rule k)
  then show ?thesis using inv by (simp add: as_inv_def)
qed

lemma as_map_lazy_inv:
  assumes "as_inv as" "as_map_lazy as virt sz flags = (ok, as')"
  shows "as_inv as'"
  using assms insert_area[OF assms(1)]
  by (auto simp: as_map_lazy_def Let_def align_page split: if_splits option.splits)

lemma as_map_inv:
  assumes "as_inv as" "as_map ar as virt sz flags st = Some (ok, as', st')"
  shows "as_inv as'"
  using assms insert_area[OF assms(1)] new_range_ok(3)
  by (auto simp: as_map_def Let_def align_page bind_eq_Some_conv split: if_splits option.splits; blast)

lemma as_find_Some:
  assumes "as_find as va = Some i"
  shows "i < length (regions as)" "\<exists>r. regions as ! i = Some r \<and> in_vma va r"
  using position_SomeD[OF assms[unfolded as_find_def]] by (auto split: option.splits)

lemma as_page_fault_inv:
  assumes "as_inv as" "as_page_fault ar as va st = Some (ok, as', st')"
  shows "as_inv as'"
proof (cases "as_find as va")
  case None
  then show ?thesis using assms by (simp add: as_page_fault_def)
next
  case (Some i)
  note fd = as_find_Some[OF Some]
  have same: "as_inv (as\<lparr>regions := (regions as)[i := Some r']\<rparr>)"
    if "vma_start r' = vma_start (the (regions as ! i))" "vma_end r' = vma_end (the (regions as ! i))" for r'
  proof -
    obtain r where "regions as ! i = Some r" using fd(2) by blast
    then show ?thesis using slots_ok_same[of "regions as" i r r'] fd(1) that assms(1) by (simp add: as_inv_def)
  qed
  show ?thesis
    using assms Some same
    by (auto simp: as_page_fault_def Let_def bind_eq_Some_conv split: if_splits option.splits)
qed

lemma unmap_lazy_shape:
  "unmap_lazy ar pt s i n r st = Some (r', st') \<Longrightarrow>
   vma_start r' = vma_start r \<and> vma_end r' = vma_end r \<and> lazy r' = lazy r \<and> vma_phys r' = vma_phys r
   \<and> length (lazy_pages r') = length (lazy_pages r)"
  by (induction ar pt s i n r st rule: unmap_lazy.induct) (auto simp: bind_eq_Some_conv split: if_splits)

lemma unmap_region_shape:
  assumes ok: "vma_ok r" and ov: "vma_start r < stop" "vma_end r > virt"
    and al: "page_aligned virt" "page_aligned stop"
    and u: "unmap_region ar pt virt stop r st = Some (Some r', st')"
  shows "vma_ok r'" "vma_start r \<le> vma_start r'" "vma_end r' \<le> vma_end r"
proof -
  let ?s = "max virt (vma_start r)" and ?e = "min stop (vma_end r)"
  have "(vma_start r' = ?e \<and> vma_end r' = vma_end r) \<or> (vma_start r' = vma_start r \<and> vma_end r' = ?s)"
    using u by (auto simp: unmap_region_def Let_def bind_eq_Some_conv split: if_splits dest!: unmap_lazy_shape)
  moreover have "vma_start r \<le> vma_end r"
  proof (rule ccontr)
    assume "\<not> vma_start r \<le> vma_end r"
    then have "?s = vma_start r \<and> ?e = vma_end r" using ov by (auto simp: max_def min_def)
    then show False
      using u by (auto simp: unmap_region_def Let_def bind_eq_Some_conv split: if_splits)
  qed
  ultimately show "vma_ok r'" "vma_start r \<le> vma_start r'" "vma_end r' \<le> vma_end r"
    using ok ov al by (auto simp: vma_ok_def max_def min_def split: if_splits)
qed

definition shrunk :: "vma_region \<Rightarrow> vma_region \<Rightarrow> bool" where
  "shrunk r' r \<longleftrightarrow> vma_start r \<le> vma_start r' \<and> vma_end r' \<le> vma_end r"

lemma shrunk_refl [simp]: "shrunk r r"
  by (simp add: shrunk_def)

lemma vma_apart_shrunk: "vma_apart r q \<Longrightarrow> shrunk r' r \<Longrightarrow> shrunk q' q \<Longrightarrow> vma_apart r' q'"
  unfolding vma_apart_def shrunk_def by (meson order_trans)

lemma unmap_slots_shape:
  assumes "unmap_slots ar pt virt stop rs st = Some (rs', did, st')" "slots_ok rs" "page_aligned virt" "page_aligned stop"
  shows "slots_ok rs' \<and> length rs' = length rs
    \<and> (\<forall>r'. Some r' \<in> set rs' \<longrightarrow> (\<exists>r. Some r \<in> set rs \<and> shrunk r' r))"
  using assms(1,2)
proof (induction rs arbitrary: rs' did st st')
  case (Cons slot slots)
  obtain slot' rest st1 did1 where rs': "rs' = slot' # rest"
    and rest: "unmap_slots ar pt virt stop slots st1 = Some (rest, did1, st')"
    and slot': "\<And>r'. slot' = Some r' \<Longrightarrow> \<exists>r. slot = Some r \<and> vma_ok r' \<and> shrunk r' r"
  proof (cases "\<exists>r. slot = Some r \<and> vma_start r < stop \<and> vma_end r > virt")
    case True
    then obtain r where r: "slot = Some r" "vma_start r < stop" "vma_end r > virt" by blast
    obtain u st1 rest did1 where u: "unmap_region ar pt virt stop r st = Some (u, st1)"
      "unmap_slots ar pt virt stop slots st1 = Some (rest, did1, st')" "rs' = u # rest"
      using Cons.prems(1) r by (auto simp: bind_eq_Some_conv)
    have ok: "vma_ok r" using Cons.prems(2) r(1) by (simp add: slots_ok_Cons)
    have "\<exists>r. slot = Some r \<and> vma_ok r' \<and> shrunk r' r" if "u = Some r'" for r'
      using unmap_region_shape[OF ok r(2,3) assms(3,4)] u(1) that r(1) by (auto simp: shrunk_def)
    then show ?thesis using that u by blast
  next
    case False
    then obtain rest did1 where rest: "unmap_slots ar pt virt stop slots st = Some (rest, did1, st')" "rs' = slot # rest"
      using Cons.prems(1) by (auto simp: bind_eq_Some_conv split: option.splits if_splits)
    then show ?thesis using that[of slot rest st did1] Cons.prems(2) by (simp add: slots_ok_Cons)
  qed
  have ok: "slots_ok slots" using Cons.prems(2) by (simp add: slots_ok_Cons)
  note ih = Cons.IH[OF rest ok]
  have "vma_apart r' q'" if sl: "slot' = Some r'" and q': "Some q' \<in> set rest" for r' q'
  proof -
    obtain r where r: "slot = Some r" "shrunk r' r" using slot'[OF sl] by blast
    obtain q where q: "Some q \<in> set slots" "shrunk q' q" using ih q' by blast
    have "vma_apart r q" using Cons.prems(2) r(1) q(1) by (simp add: slots_ok_Cons)
    then show ?thesis using vma_apart_shrunk r(2) q(2) by blast
  qed
  then show ?case
    unfolding rs' using ih slot' by (auto simp: slots_ok_Cons)
qed simp

lemma as_unmap_range_inv:
  assumes "as_inv as" "as_unmap_range ar as virt len st = Some (as', st')"
  shows "as_inv as'"
proof (cases "len = 0 \<or> checked_add (page_of virt) (page_of (len + PAGE_SIZE - 1)) = None")
  case True
  then show ?thesis using assms by (auto simp: as_unmap_range_def Let_def align_page split: if_splits)
next
  case False
  then obtain stop rs did st1 where s: "checked_add (page_of virt) (page_of (len + PAGE_SIZE - 1)) = Some stop"
    "unmap_slots ar (page_table_root as) (page_of virt) stop (regions as) st = Some (rs, did, st1)"
    "as' = as\<lparr>regions := rs\<rparr>"
    using assms(2) by (auto simp: as_unmap_range_def Let_def align_page bind_eq_Some_conv)
  have "stop = page_of virt + page_of (len + PAGE_SIZE - 1)"
    using s(1) by (simp add: checked_add_def split: if_splits)
  then have "page_aligned stop" by (simp add: page_aligned_add)
  then show ?thesis
    using unmap_slots_shape[OF s(2)] assms(1) s(3) by (simp add: as_inv_def)
qed

definition same_area :: "vma_region option \<Rightarrow> vma_region option \<Rightarrow> bool" where
  "same_area s s' \<longleftrightarrow> (case s of None \<Rightarrow> s' = None
     | Some r \<Rightarrow> (case s' of None \<Rightarrow> False | Some r' \<Rightarrow> vma_start r' = vma_start r \<and> vma_end r' = vma_end r))"

lemma same_area_refl [simp]: "same_area s s"
  by (simp add: same_area_def split: option.splits)

lemma mprotect_slots_shape:
  "mprotect_slots ar root addr stop pr fl rs st = Some (rs', ch, st') \<Longrightarrow> list_all2 same_area rs rs'"
proof (induction rs arbitrary: rs' ch st st')
  case (Cons slot slots)
  show ?case
  proof (cases "\<exists>r. slot = Some r \<and> vma_start r < stop \<and> vma_end r > addr")
    case True
    then obtain r where r: "slot = Some r" "vma_start r < stop" "vma_end r > addr" by blast
    obtain st1 rest ch1 where "mprotect_slots ar root addr stop pr fl slots st1 = Some (rest, ch1, st')"
      "rs' = Some (r\<lparr>prot := pr, vma_flags := fl\<rparr>) # rest"
      using Cons.prems r by (auto simp: bind_eq_Some_conv Let_def)
    then show ?thesis using Cons.IH r(1) by (simp add: same_area_def)
  next
    case False
    then obtain rest ch1 where "mprotect_slots ar root addr stop pr fl slots st = Some (rest, ch1, st')" "rs' = slot # rest"
      using Cons.prems by (auto simp: bind_eq_Some_conv split: option.splits if_splits)
    then show ?thesis using Cons.IH by simp
  qed
qed simp

lemma slots_ok_same_area:
  assumes "slots_ok rs" "list_all2 same_area rs rs'"
  shows "slots_ok rs'"
proof -
  have orig: "\<exists>r. rs ! i = Some r \<and> vma_start r' = vma_start r \<and> vma_end r' = vma_end r"
    if "i < length rs'" "rs' ! i = Some r'" for i r'
    using assms(2) that by (auto simp: list_all2_conv_all_nth same_area_def split: option.splits)
  have len: "length rs' = length rs" using assms(2) by (simp add: list_all2_lengthD)
  show ?thesis
    unfolding slots_ok_def
  proof (intro conjI allI impI)
    show "vma_ok r'" if "i < length rs'" "rs' ! i = Some r'" for i r'
      using orig[of i r'] that assms(1) len by (auto simp: slots_ok_def vma_ok_def)
    show "vma_apart r' q'" if "i < length rs'" "j < length rs'" "i \<noteq> j" "rs' ! i = Some r'" "rs' ! j = Some q'" for i j r' q'
      using orig[of i r'] orig[of j q'] that assms(1) len unfolding slots_ok_def vma_apart_def by metis
  qed
qed

lemma as_mprotect_inv:
  assumes "as_inv as" "as_mprotect ar as addr len pr st = Some (ok, as', st')"
  shows "as_inv as'"
proof -
  have "as_inv (as\<lparr>regions := rs\<rparr>)"
    if "mprotect_slots ar (page_table_root as) a stop pr fl (regions as) st = Some (rs, ch, st1)" for a stop fl rs ch st1
    using mprotect_slots_shape[OF that] slots_ok_same_area[of "regions as" rs] assms(1)
    by (auto simp: as_inv_def dest: list_all2_lengthD)
  then show ?thesis
    using assms by (auto simp: as_mprotect_def Let_def bind_eq_Some_conv split: if_splits option.splits)
qed

lemma brk_find:
  assumes "position (\<lambda>r. case r of None \<Rightarrow> False | Some r \<Rightarrow> vma_start r = h) rs = Some i"
  obtains r where "i < length rs" "rs ! i = Some r" "vma_start r = h"
  using position_SomeD[OF assms] by (auto split: option.splits)

definition brk_clash :: "address_space \<Rightarrow> nat \<Rightarrow> vma_region \<Rightarrow> usize \<Rightarrow> bool" where
  "brk_clash as i r e \<longleftrightarrow> (\<exists>j < length (regions as). j \<noteq> i \<and> (case regions as ! j of None \<Rightarrow> False
     | Some q \<Rightarrow> vma_start q < e \<and> vma_end q > vma_end r))"

lemma as_brk_found:
  assumes "new_end \<noteq> 0" "heap_start as \<noteq> 0"
    "position (\<lambda>r. case r of None \<Rightarrow> False | Some r \<Rightarrow> vma_start r = heap_start as) (regions as) = Some i"
    "regions as ! i = Some r"
  defines "e \<equiv> page_of (new_end + PAGE_SIZE - 1)"
  shows "as_brk ar as new_end st =
    (if e = vma_end r then Some (e, as, st)
     else if e > vma_end r
     then (if brk_clash as i r e then Some (if heap_end as \<noteq> 0 then heap_end as else heap_start as, as, st)
           else Some (e, as\<lparr>regions := (regions as)[i := Some (r\<lparr>vma_end := e\<rparr>)], heap_end := e\<rparr>, st))
     else map_option (\<lambda>(r', st1). (e, as\<lparr>regions := (regions as)[i := Some r'], heap_end := e\<rparr>, tlb_shootdown_all st1))
       (unmap_lazy ar (page_table_root as) (vma_start r) (unat ((e - vma_start r) div PAGE_SIZE))
         (min (unat ((vma_end r - vma_start r + PAGE_SIZE - 1) div PAGE_SIZE)) (length (lazy_pages r))
            - unat ((e - vma_start r) div PAGE_SIZE)) (r\<lparr>vma_end := e\<rparr>) st))"
  unfolding as_brk_def e_def
  by (simp add: assms(1-4) align_page Let_def brk_clash_def map_option_case bind_split case_prod_beta split: option.splits)

lemma as_brk_inv:
  assumes inv: "as_inv as" and b: "as_brk ar as new_end st = Some (res, as', st')"
  shows "as_inv as'"
proof (cases "new_end = 0 \<or> heap_start as = 0")
  case True
  then show ?thesis using b inv by (auto simp: as_brk_def Let_def split: if_splits)
next
  case nz: False
  define e where "e = page_of (new_end + PAGE_SIZE - 1)"
  let ?pos = "position (\<lambda>r. case r of None \<Rightarrow> False | Some r \<Rightarrow> vma_start r = heap_start as) (regions as)"
  show ?thesis
  proof (cases ?pos)
    case None
    then show ?thesis
      using b inv nz as_map_lazy_inv[OF inv]
      by (auto simp: as_brk_def Let_def align_page as_inv_def split: if_splits prod.splits)
  next
    case (Some i)
    then obtain r where r: "i < length (regions as)" "regions as ! i = Some r" "vma_start r = heap_start as"
      by (elim brk_find)
    have ok: "vma_ok r" "slots_ok (regions as)" using inv r(1,2) by (auto simp: as_inv_def slots_ok_def)
    have keep: "as_inv (as\<lparr>regions := (regions as)[i := Some r'], heap_end := h\<rparr>)"
      if r': "vma_start r' = vma_start r" "vma_end r' = e"
        and ap: "\<And>j q. j < length (regions as) \<Longrightarrow> j \<noteq> i \<Longrightarrow> regions as ! j = Some q \<Longrightarrow> vma_apart r' q" for r' h
    proof -
      have "slots_ok ((regions as)[i := Some r'])"
        by (rule slots_ok_update[OF ok(2) r(1) _ ap]) (use r' ok in \<open>auto simp: vma_ok_def e_def\<close>)
      then show ?thesis using inv by (simp add: as_inv_def)
    qed
    have apart: "vma_apart r q" if "j < length (regions as)" "j \<noteq> i" "regions as ! j = Some q" for j q
      using ok(2) r that unfolding slots_ok_def by blast
    have nz': "new_end \<noteq> 0" "heap_start as \<noteq> 0" using nz by auto
    note br = as_brk_found[OF nz' Some r(2), folded e_def]
    consider "e = vma_end r" | "e > vma_end r" | "e < vma_end r" by (rule linorder_cases[of e "vma_end r"])
    then show ?thesis
    proof cases
      case 1
      then show ?thesis using b inv by (simp add: br)
    next
      case 2
      show ?thesis
      proof (cases "brk_clash as i r e")
        case True
        then show ?thesis using b inv 2 by (auto simp: br split: if_splits)
      next
        case False
        have "vma_apart (r\<lparr>vma_end := e\<rparr>) q" if q: "j < length (regions as)" "j \<noteq> i" "regions as ! j = Some q" for j q
        proof -
          have "\<not> (vma_start q < e \<and> vma_end q > vma_end r)" using False q by (force simp: brk_clash_def)
          then show ?thesis using apart[OF q] 2 by (auto simp: vma_apart_def)
        qed
        then have "as_inv (as\<lparr>regions := (regions as)[i := Some (r\<lparr>vma_end := e\<rparr>)], heap_end := e\<rparr>)"
          by (intro keep) simp_all
        then show ?thesis using b 2 False by (auto simp: br split: if_splits)
      qed
    next
      case 3
      then obtain r' st1 n k where u: "unmap_lazy ar (page_table_root as) (vma_start r) k n (r\<lparr>vma_end := e\<rparr>) st = Some (r', st1)"
        "as' = as\<lparr>regions := (regions as)[i := Some r'], heap_end := e\<rparr>"
        using b by (auto simp: br split: if_splits)
      have sh: "vma_start r' = vma_start r" "vma_end r' = e" using unmap_lazy_shape[OF u(1)] by auto
      have "vma_apart r' q" if "j < length (regions as)" "j \<noteq> i" "regions as ! j = Some q" for j q
        using vma_apart_shrunk[OF apart[OF that], of r' q] sh 3 by (simp add: shrunk_def)
      then show ?thesis unfolding u(2) by (intro keep sh)
    qed
  qed
qed

end
