(* ===== verification/Vmm_Map.thy ===== *)
theory Vmm_Map
  imports Vmm_Inv
begin

text \<open>
  Mapping and faulting against the page tables: what \<open>map\<close> and \<open>handle_user_page_fault\<close> do to the
  hardware walk and to the memory behind it, proved once over the architecture contract
  \<open>paging_arch\<close> and used for both architectures.
\<close>

subsection \<open>Frames behind the direct map\<close>

text \<open>Tables and data are reached the same way: through the direct map, or with the map at offset 0.\<close>

definition hhdm_ok :: "pt_fmt \<Rightarrow> mm_state \<Rightarrow> bool" where
  "hhdm_ok f st \<longleftrightarrow> use_hhdm f \<or> hhdm_off st = 0"

lemma table_ptr_hhdm: "hhdm_ok f st \<Longrightarrow> table_ptr f st t = phys_to_virt st t"
  by (auto simp: hhdm_ok_def table_ptr_def phys_to_virt_def)

lemma page_of_shift:
  assumes "page_aligned off"
  shows "page_of (p + off) = page_of p + off"
proof -
  have "p - page_of p < PAGE_SIZE" using in_page_iff[of "page_of p" p] by simp
  moreover have "(p + off) - (page_of p + off) = p - page_of p" by simp
  ultimately show ?thesis
    using in_page_iff[of "page_of p + off" "p + off"] page_aligned_add[OF page_aligned_page_of assms] by simp
qed

lemma unat_mem_page: "unat x \<in> blk (page_of x) 0"
  by (simp add: blk_def unat_page_of bsz_def)

lemma in_fill_block:
  assumes "order < MAX_ORDER" "bsz order dvd unat a" "unat n \<le> bsz order" "p - a < n"
  shows "unat p \<in> blk a order"
proof -
  have d: "unat (p - a) < bsz order" using assms(3,4) by (simp add: word_less_nat_alt)
  have "unat (a + (p - a)) = unat a + unat (p - a)"
    using blk_fits[OF assms(1,2)] d by (intro unat_add_nowrap) simp
  then show ?thesis using d by (simp add: blk_def)
qed

lemma alloc_fill_keeps:
  assumes wf: "pt_wf f st root" and hh: "hhdm_ok f st" and order: "order < MAX_ORDER"
    and al: "mm_alloc order st = Some (Some a, st1)" and n: "unat n \<le> bsz order"
  defines "st2 \<equiv> st1\<lparr>ram := fill_bytes (ram st1) (phys_to_virt st1 a) 0 n\<rparr>"
  shows "valid_path f q \<Longrightarrow> pt_tab f st2 root q = pt_tab f st root q" "pt_wf f st2 root"
    "user_va f va \<Longrightarrow> pt_leaf f st2 root va = pt_leaf f st root va"
    "hhdm_off st2 = hhdm_off st" "free_bytes (frames st2) = free_bytes (frames st) - blk a order"
    "bsz order dvd unat a" "blk a order \<subseteq> free_bytes (frames st)" "hhdm_ok f st2"
proof -
  note s = mm_alloc_Some[OF pt_wfD(1)[OF wf] al]
  have ent: "pt_entry f st2 u j = pt_entry f st u j"
    if q: "valid_path f q" "pt_tab f st root q = Some u" "j < 512" for q u j
  proof (rule pt_entry_frame)
    show "page_aligned (hhdm_off st)" "page_aligned u" using pt_wfD(2,3)[OF wf] q by auto
    show "ram st2 x = ram st x" if x: "page_of x = table_ptr f st u" for x
    proof -
      define p where "p = x - hhdm_off st"
      have xp: "x = p + hhdm_off st" by (simp add: p_def)
      have "page_of p + hhdm_off st = u + hhdm_off st"
        using x page_of_shift[OF pt_wfD(2)[OF wf], of p] table_ptr_hhdm[OF hh, of u]
        by (simp add: xp phys_to_virt_def)
      then have "page_of p = u" by simp
      then have "unat p \<in> blk u 0" using unat_mem_page[of p] by simp
      then have "unat p \<notin> free_bytes (frames st)" using pt_wfD(4)[OF wf q(1,2)] by blast
      then have "unat p \<notin> blk a order" using s(3) by blast
      then have "\<not> p - a < n" using in_fill_block[OF order s(2) n] by blast
      moreover have "x - phys_to_virt st1 a = p - a" using s(6) by (simp add: xp phys_to_virt_def)
      ultimately show ?thesis using s(5) by (simp add: st2_def fill_bytes_def)
    qed
  qed (use q(3) s in \<open>auto simp: st2_def\<close>)
  show tab: "pt_tab f st2 root q = pt_tab f st root q" if "valid_path f q" for q
  proof (rule pt_tab_cong[OF _ that])
    fix q u j assume "valid_path f (q @ [j])" "pt_tab f st root q = Some u"
    then show "pt_step f st2 u j = pt_step f st u j"
      using ent[of q u j] valid_path_snocD[of f q j] by (simp add: pt_step_def)
  qed
  show fb: "free_bytes (frames st2) = free_bytes (frames st) - blk a order" "hhdm_off st2 = hhdm_off st"
    using s by (auto simp: st2_def)
  show "pt_wf f st2 root"
    by (rule pt_wf_cong[OF wf tab]) (use fb s in \<open>auto simp: st2_def\<close>)
  show "pt_leaf f st2 root va = pt_leaf f st root va" if va: "user_va f va" for va
    by (rule pt_leaf_cong[OF tab va]) (use ent[OF valid_va_path[OF va]] in auto)
  show "bsz order dvd unat a" "blk a order \<subseteq> free_bytes (frames st)" by (fact s)+
  show "hhdm_ok f st2" using hh fb(2) by (simp add: hhdm_ok_def)
qed

text \<open>Growing the tables does not touch a frame that is neither free nor a table.\<close>

lemma pt_ext_frame_data:
  assumes ext: "pt_ext f root st st'" and hh: "hhdm_ok f st" and al: "page_aligned (hhdm_off st)"
    and p: "page_of p \<notin> pt_pages f st root" "unat (page_of p) \<notin> free_bytes (frames st)"
  shows "ram st' (phys_to_virt st p) = ram st (phys_to_virt st p)"
proof (rule pt_extD(6)[OF ext])
  have "page_of p \<notin> pt_pages f st' root"
    using pt_extD(5)[OF ext] p blk_0_mem[of "page_of p"] by blast
  then show "page_of (phys_to_virt st p) \<notin> table_ptr f st ` pt_pages f st' root"
    using page_of_shift[OF al, of p] table_ptr_hhdm[OF hh] by (auto simp: phys_to_virt_def)
qed

subsection \<open>Mapping a range\<close>

definition range_pages :: "usize \<Rightarrow> nat \<Rightarrow> nat \<Rightarrow> usize set" where
  "range_pages virt i m = {virt + of_nat k * PAGE_SIZE | k. i \<le> k \<and> k < m}"

lemma range_pages_Suc: "i < m \<Longrightarrow> range_pages virt i m = insert (virt + of_nat i * PAGE_SIZE) (range_pages virt (Suc i) m)"
  by (auto simp: range_pages_def) (metis Suc_leI le_neq_implies_less)

lemma range_pages_empty: "range_pages virt i i = {}"
  by (auto simp: range_pages_def)

lemma page_aligned_mult: "page_aligned (of_nat k * PAGE_SIZE)"
proof -
  have "unat (of_nat k * PAGE_SIZE :: usize) = (unat (of_nat k :: usize) * 4096) mod 2 ^ 64"
    by (simp add: unat_word_ariths)
  moreover have "4096 dvd (unat (of_nat k :: usize) * 4096) mod 2 ^ 64" by (rule dvd_mod) simp_all
  ultimately show ?thesis by (simp add: page_aligned_def)
qed

lemma range_page_aligned: "page_aligned virt \<Longrightarrow> page_of (virt + of_nat k * PAGE_SIZE) = virt + of_nat k * PAGE_SIZE"
  by (rule page_of_aligned[OF page_aligned_add]) (simp_all add: page_aligned_mult)

lemma unat_range_page:
  assumes "unat virt + n * 4096 < 2 ^ 64" "k \<le> n"
  shows "unat (virt + of_nat k * PAGE_SIZE) = unat virt + k * 4096"
proof -
  have kn: "k * 4096 \<le> n * 4096" using assms(2) by simp
  then have k: "k * 4096 < 2 ^ 64" using assms(1) by linarith
  then have "unat (of_nat k :: usize) = k" by (simp add: unsigned_of_nat take_bit_nat_eq_self)
  then have "unat (of_nat k * PAGE_SIZE :: usize) = k * 4096"
    using k unfolding unat_word_ariths unat_PAGE_SIZE by simp
  then show ?thesis using assms(1) kn by (subst unat_add_nowrap) simp_all
qed

lemma range_pages_iff:
  assumes al: "page_aligned virt" and b: "unat virt + n * 4096 < 2 ^ 64"
  shows "page_of va \<in> range_pages virt 0 n \<longleftrightarrow> unat virt \<le> unat va \<and> unat va < unat virt + n * 4096"
proof
  assume "page_of va \<in> range_pages virt 0 n"
  then obtain k where k: "k < n" "page_of va = virt + of_nat k * PAGE_SIZE" by (auto simp: range_pages_def)
  have "unat (page_of va) = unat virt + k * 4096" unfolding k(2) using unat_range_page[OF b] k(1) by simp
  moreover have "unat (page_of va) \<le> unat va" "unat va < unat (page_of va) + 4096" by (simp_all add: unat_page_of)
  moreover have "k * 4096 + 4096 \<le> n * 4096" using k(1) by simp
  ultimately show "unat virt \<le> unat va \<and> unat va < unat virt + n * 4096" by linarith
next
  assume r: "unat virt \<le> unat va \<and> unat va < unat virt + n * 4096"
  define k where "k = (unat va - unat virt) div 4096"
  have "unat va - unat virt < n * 4096" using r by linarith
  then have k: "k < n" unfolding k_def by (rule less_mult_imp_div_less)
  obtain v where v: "unat virt = 4096 * v" using al by (auto simp: page_aligned_def elim: dvdE)
  have va: "unat va = (unat va - unat virt) + v * 4096" using r v by simp
  have "unat va div 4096 = k + v" unfolding k_def by (subst va) simp
  then have "unat (page_of va) = unat virt + k * 4096"
    unfolding unat_page_of minus_mod_eq_mult_div using v by simp
  then have "page_of va = virt + of_nat k * PAGE_SIZE"
    using unat_range_page[OF b, of k] k by (simp add: word_unat_eq_iff)
  then show "page_of va \<in> range_pages virt 0 n" using k by (auto simp: range_pages_def)
qed

lemma as_find_unique:
  assumes "as_inv as" "i < length (regions as)" "regions as ! i = Some r" "in_vma va r"
  shows "as_find as va = Some i"
proof -
  have "as_find as va \<noteq> None"
    using assms(2-4) nth_mem[OF assms(2)] unfolding as_find_def position_None_iff by (auto intro!: bexI[of _ "Some r"])
  then obtain j where j: "as_find as va = Some j" by blast
  obtain q where q: "j < length (regions as)" "regions as ! j = Some q" "in_vma va q"
    using as_find_Some[OF j] by blast
  have "j = i"
  proof (rule ccontr)
    assume "j \<noteq> i"
    then have "vma_apart q r" using assms(1-3) q unfolding as_inv_def slots_ok_def by blast
    then show False using assms(4) q(3) vma_apart_no_common by blast
  qed
  then show ?thesis using j by simp
qed

lemma ext_tables_avoid:
  assumes "pt_ext f root st st'" "B \<inter> free_bytes (frames st) = {}" "\<forall>t \<in> pt_pages f st root. blk t 0 \<inter> B = {}"
  shows "\<forall>t \<in> pt_pages f st' root. blk t 0 \<inter> B = {}"
  using pt_extD(5)[OF assms(1)] assms(2,3) by blast

lemma mm_free_keeps:
  assumes wf: "pt_wf f st root" and o: "order < MAX_ORDER" "bsz order dvd unat a"
    and free: "blk a order \<inter> free_bytes (frames st) = {}"
    and tabs: "\<forall>t \<in> pt_pages f st root. blk t 0 \<inter> blk a order = {}" and lim: "blk a order \<subseteq> {..< phys_limit f}"
  obtains st' where "mm_free a order st = Some st'" "pt_wf f st' root" "ram st' = ram st" "hhdm_off st' = hhdm_off st"
    "shootdowns st' = shootdowns st" "\<And>va. pt_leaf f st' root va = pt_leaf f st root va"
    "free_bytes (frames st') \<subseteq> free_bytes (frames st) \<union> blk a order"
proof -
  obtain b p where b: "buddy_free a order (frames st) = Some b" "buddy_inv b"
    "free_bytes b = (free_bytes (frames st) \<union> blk a order) - slot_blk (free_lists (frames st)) p"
    using buddy_free_sound[OF pt_wfD(1)[OF wf] o free] by metis
  define st' where "st' = st\<lparr>frames := b\<rparr>"
  have e: "pt_entry f st' u j = pt_entry f st u j" for u j
    by (simp add: pt_entry_def st'_def table_ptr_def phys_to_virt_def)
  have step: "pt_step f st' = pt_step f st" by (intro ext) (simp add: pt_step_def e)
  have tab: "pt_tab f st' t q = pt_tab f st t q" for t q
    by (induction q arbitrary: t) (simp_all add: step)
  show ?thesis
  proof (rule that)
    show "mm_free a order st = Some st'" using b(1) by (simp add: mm_free_def st'_def)
    show "pt_wf f st' root"
      unfolding pt_wf_def tab
    proof (intro conjI allI impI)
      show "buddy_inv (frames st')" "page_aligned (hhdm_off st')" using b(2) pt_wfD(2)[OF wf] by (simp_all add: st'_def)
      show "free_bytes (frames st') \<subseteq> {..< phys_limit f}" using b(3) pt_wfD(6)[OF wf] lim by (auto simp: st'_def)
      fix q t assume q: "valid_path f q" "pt_tab f st root q = Some t"
      then have "t \<in> pt_pages f st root" by (auto simp: pt_pages_def)
      then show "page_aligned t" "blk t 0 \<inter> free_bytes (frames st') = {}"
        using pt_wfD(3,4)[OF wf q] tabs b(3) by (auto simp: st'_def)
    next
      fix p q t assume "valid_path f p" "valid_path f q" "pt_tab f st root p = Some t" "pt_tab f st root q = Some t"
      then show "p = q" by (rule pt_wfD(5)[OF wf])
    qed
    show "pt_leaf f st' root va = pt_leaf f st root va" for va by (simp add: pt_leaf_def tab e split: option.splits)
    show "free_bytes (frames st') \<subseteq> free_bytes (frames st) \<union> blk a order" using b(3) by (auto simp: st'_def)
  qed (simp_all add: st'_def)
qed

definition map_pages :: "usize \<Rightarrow> usize" where
  "map_pages sz = (sz + PAGE_SIZE - 1) div PAGE_SIZE"

text \<open>The checks of \<open>map\<close> and \<open>map_lazy\<close> before anything is allocated.\<close>

definition map_accepts :: "address_space \<Rightarrow> usize \<Rightarrow> usize \<Rightarrow> nat \<Rightarrow> usize \<Rightarrow> bool" where
  "map_accepts as virt sz slot stop \<longleftrightarrow> sz \<noteq> 0 \<and> position (\<lambda>r. r = None) (regions as) = Some slot
     \<and> checked_add (page_of virt) (map_pages sz * PAGE_SIZE) = Some stop
     \<and> \<not> (\<exists>r \<in> set (regions as). case r of None \<Rightarrow> False | Some r \<Rightarrow> overlaps (page_of virt) stop r)"

definition eager_region :: "usize \<Rightarrow> usize \<Rightarrow> usize \<Rightarrow> u64 \<Rightarrow> vma_region" where
  "eager_region virt stop phys flags = \<lparr>vma_start = virt, vma_end = stop, vma_phys = phys,
     vma_flags = flags, lazy = False, lazy_pages = [], lazy_count = 0, prot = PROT_READ OR PROT_WRITE,
     map_flags = MAP_ANONYMOUS OR MAP_PRIVATE, file_cap = 0, file_off = 0, cow = False\<rparr>"

lemma as_map_accepted:
  assumes "map_accepts as virt sz slot stop"
  shows "as_map ar as virt sz flags st = do {
    order \<leftarrow> pages_to_order (map_pages sz);
    (r, st1) \<leftarrow> mm_alloc order st;
    case r of None \<Rightarrow> Some (False, as, st1)
    | Some phys \<Rightarrow> do {
        (failed, st3) \<leftarrow> map_loop ar (page_table_root as) (page_of virt) phys flags 0 (unat (map_pages sz))
          (st1\<lparr>ram := fill_bytes (ram st1) (phys_to_virt st1 phys) 0 (map_pages sz * PAGE_SIZE)\<rparr>);
        case failed of
          Some i \<Rightarrow> do {
            st4 \<leftarrow> mm_free phys order (unmap_loop ar (page_table_root as) (page_of virt) 0 i st3);
            Some (False, as, st4)
          }
        | None \<Rightarrow> Some (True, as\<lparr>regions := (regions as)[slot :=
            Some (eager_region (page_of virt) (page_of virt + map_pages sz * PAGE_SIZE) phys flags)]\<rparr>, st3)
      }}"
proof -
  have c: "sz \<noteq> 0" "position (\<lambda>r. r = None) (regions as) = Some slot"
    "checked_add (page_of virt) (map_pages sz * PAGE_SIZE) = Some stop"
    "\<not> (\<exists>r \<in> set (regions as). case r of None \<Rightarrow> False | Some r \<Rightarrow> overlaps (page_of virt) stop r)"
    using assms unfolding map_accepts_def by blast+
  show ?thesis
    unfolding as_map_def Let_def align_page map_pages_def[symmetric] eager_region_def
    using c by simp
qed

lemma as_map_rejected:
  assumes "\<nexists>slot stop. map_accepts as virt sz slot stop"
  shows "as_map ar as virt sz flags st = Some (False, as, st)"
  using assms unfolding as_map_def Let_def align_page map_pages_def[symmetric] map_accepts_def
  by (auto split: option.splits)

lemma map_accepts_range:
  assumes "map_accepts as virt sz slot stop"
  shows "unat (page_of virt) + unat (map_pages sz) * 4096 < 2 ^ 64"
    "unat stop = unat (page_of virt) + unat (map_pages sz) * 4096"
proof -
  have "unat stop = unat (page_of virt) + unat (map_pages sz * PAGE_SIZE)"
    using assms by (simp add: map_accepts_def checked_add_Some)
  then show "unat stop = unat (page_of virt) + unat (map_pages sz) * 4096"
    by (simp add: map_pages_def unat_pages_mult)
  then show "unat (page_of virt) + unat (map_pages sz) * 4096 < 2 ^ 64" using unat_lt_usize[of stop] by simp
qed

text \<open>
  A mapped range: the software translation, the hardware walk and the memory behind them agree, and
  the memory is zero.
\<close>

definition mapped_range :: "pt_fmt \<Rightarrow> (usize \<Rightarrow> u64 \<Rightarrow> u64) \<Rightarrow> usize \<Rightarrow> usize \<Rightarrow> usize \<Rightarrow> u64 \<Rightarrow> address_space \<Rightarrow> mm_state \<Rightarrow> bool" where
  "mapped_range f leaf_of virt stop phys flags as st \<longleftrightarrow> (\<forall>va. virt \<le> va \<longrightarrow> va < stop \<longrightarrow>
     as_virt_to_phys as va = Some (phys + (va - virt))
     \<and> pt_leaf f st (page_table_root as) va = leaf_of (phys + (page_of va - virt)) flags
     \<and> ram st (phys_to_virt st (phys + (va - virt))) = 0)"

lemma mappable_of_page:
  assumes "mappable f (page_of va)"
  shows "mappable f va"
proof -
  have eq: "unat (page_of va) div 2 ^ 12 = unat va div 2 ^ 12"
    using page_of_eq_iff[of "page_of va" va] by (simp add: page_of_aligned)
  then have "unat (page_of va) div 2 ^ (12 + 27) = unat va div 2 ^ (12 + 27)"
    by (simp only: power_add div_mult2_eq)
  moreover have "unat va < 2 ^ 48"
  proof -
    have "unat va div 2 ^ 12 < 2 ^ 36"
      using assms unfolding eq[symmetric] mappable_def low_va_def by (intro less_mult_imp_div_less) simp
    then show ?thesis by (simp add: div_less_iff_less_mult)
  qed
  ultimately show ?thesis
    using assms by (simp add: mappable_def low_va_def user_va_def va_idx_nat)
qed

context paging_arch
begin

lemma map_loop_ok:
  assumes "pt_wf f st root" "page_aligned virt" "pf_contains flags PF_PRESENT"
    "\<And>k. i \<le> k \<Longrightarrow> k < i + n \<Longrightarrow> mappable f (virt + of_nat k * PAGE_SIZE)"
  shows "\<exists>failed st'. map_loop ar root virt phys flags i n st = Some (failed, st') \<and> pt_ext f root st st'
    \<and> shootdowns st' = shootdowns st
    \<and> (\<exists>m. i \<le> m \<and> m \<le> i + n \<and> failed = (if m = i + n then None else Some m)
       \<and> (\<forall>va. mappable f va \<longrightarrow> pt_leaf f st' root va =
            (if page_of va \<in> range_pages virt i m then leaf_of (phys + (page_of va - virt)) flags
             else pt_leaf f st root va)))"
  using assms
proof (induction n arbitrary: i st)
  case 0
  then show ?case by (auto simp: pt_ext_refl range_pages_empty intro!: exI[of _ i])
next
  case (Suc n)
  let ?va = "virt + of_nat i * PAGE_SIZE"
  have m: "mappable f ?va" using Suc.prems(4) by simp
  obtain ok st1 where s1: "map_page ar root ?va (phys + of_nat i * PAGE_SIZE) flags st = Some (ok, st1)"
    "pt_ext f root st st1" "\<And>va'. mappable f va' \<Longrightarrow> pt_leaf f st1 root va' =
      (if ok \<and> page_of va' = ?va then leaf_of (phys + of_nat i * PAGE_SIZE) flags else pt_leaf f st root va')"
    using map_law[OF Suc.prems(1) m Suc.prems(3), of "phys + of_nat i * PAGE_SIZE"]
    unfolding range_page_aligned[OF Suc.prems(2)] by blast
  note c1 = map_counts[OF s1(1)]
  show ?case
  proof (cases ok)
    case False
    then have "map_loop ar root virt phys flags i (Suc n) st = Some (Some i, st1)" using s1(1) by simp
    then show ?thesis
      using s1 False c1 by (auto simp: range_pages_empty intro!: exI[of _ i])
  next
    case True
    obtain failed st' m where r: "map_loop ar root virt phys flags (Suc i) n st1 = Some (failed, st')"
      "pt_ext f root st1 st'" "shootdowns st' = shootdowns st1" "Suc i \<le> m" "m \<le> Suc i + n"
      "failed = (if m = Suc i + n then None else Some m)"
      "\<And>va. mappable f va \<Longrightarrow> pt_leaf f st' root va =
         (if page_of va \<in> range_pages virt (Suc i) m then leaf_of (phys + (page_of va - virt)) flags
          else pt_leaf f st1 root va)"
      using Suc.IH[OF pt_extD(1)[OF s1(2)] Suc.prems(2,3), of "Suc i"] Suc.prems(4) by fastforce
    have "pt_leaf f st' root va = (if page_of va \<in> range_pages virt i m then leaf_of (phys + (page_of va - virt)) flags
        else pt_leaf f st root va)" if "mappable f va" for va
      using r(7)[OF that] s1(3)[OF that] True range_pages_Suc[of i m virt] r(4) by auto
    moreover have "map_loop ar root virt phys flags i (Suc n) st = Some (failed, st')"
      using s1(1) True r(1) by simp
    ultimately show ?thesis
      using pt_ext_trans[OF s1(2) r(2)] r(3-6) c1 by (intro exI[of _ failed] exI[of _ st'] conjI exI[of _ m]) auto
  qed
qed

lemma unmap_loop_ok:
  assumes "pt_wf f st root" "page_aligned virt"
    "\<And>k. i \<le> k \<Longrightarrow> k < i + n \<Longrightarrow> mappable f (virt + of_nat k * PAGE_SIZE)"
  shows "pt_ext f root st (unmap_loop ar root virt i n st) \<and> shootdowns (unmap_loop ar root virt i n st) = shootdowns st
    \<and> (\<forall>va. mappable f va \<longrightarrow> pt_leaf f (unmap_loop ar root virt i n st) root va =
         (if page_of va \<in> range_pages virt i (i + n) then 0 else pt_leaf f st root va))"
  using assms
proof (induction n arbitrary: i st)
  case 0
  then show ?case by (simp add: pt_ext_refl range_pages_empty)
next
  case (Suc n)
  let ?va = "virt + of_nat i * PAGE_SIZE"
  let ?st1 = "unmap_page ar root ?va st"
  have m: "mappable f ?va" using Suc.prems(3) by simp
  have s1: "pt_ext f root st ?st1" "\<And>va'. mappable f va' \<Longrightarrow> pt_leaf f ?st1 root va' =
      (if page_of va' = ?va then 0 else pt_leaf f st root va')"
    using unmap_law[OF Suc.prems(1) m] unfolding range_page_aligned[OF Suc.prems(2)] by blast+
  have ih: "pt_ext f root ?st1 (unmap_loop ar root virt (Suc i) n ?st1)
    \<and> shootdowns (unmap_loop ar root virt (Suc i) n ?st1) = shootdowns ?st1
    \<and> (\<forall>va. mappable f va \<longrightarrow> pt_leaf f (unmap_loop ar root virt (Suc i) n ?st1) root va =
         (if page_of va \<in> range_pages virt (Suc i) (Suc i + n) then 0 else pt_leaf f ?st1 root va))"
    by (rule Suc.IH[OF pt_extD(1)[OF s1(1)] Suc.prems(2)]) (use Suc.prems(3) in auto)
  then show ?case
    using s1 pt_ext_trans[OF s1(1)] unmap_counts range_pages_Suc[of i "i + Suc n" virt] by auto
qed

text \<open>
  The state after \<open>map\<close> allocated and cleared its block, and every state the table updates reach
  from there: the block is neither free nor a table.
\<close>

lemma block_is_private:
  assumes wf: "pt_wf f st root" and hh: "hhdm_ok f st" and order: "order < MAX_ORDER"
    and al: "mm_alloc order st = Some (Some a, st1)" and n: "unat n \<le> bsz order"
    and st2: "st2 = st1\<lparr>ram := fill_bytes (ram st1) (phys_to_virt st1 a) 0 n\<rparr>"
    and ext: "pt_ext f root st2 st3"
  shows "blk a order \<inter> free_bytes (frames st3) = {}" "\<forall>t \<in> pt_pages f st3 root. blk t 0 \<inter> blk a order = {}"
    "blk a order \<subseteq> {..< phys_limit f}" "d < n \<Longrightarrow> ram st3 (phys_to_virt st3 (a + d)) = 0"
proof -
  note k = alloc_fill_keeps[OF wf hh order al n, folded st2]
  have pages2: "pt_pages f st2 root = pt_pages f st root" using k(1) unfolding pt_pages_def by auto
  have "\<forall>t \<in> pt_pages f st root. blk t 0 \<inter> free_bytes (frames st) = {}"
    using pt_wfD(4)[OF wf] by (auto simp: pt_pages_def)
  then have t2: "\<forall>t \<in> pt_pages f st2 root. blk t 0 \<inter> blk a order = {}"
    unfolding pages2 using k(7) by blast
  have f2: "blk a order \<inter> free_bytes (frames st2) = {}" using k(5) by blast
  show "blk a order \<inter> free_bytes (frames st3) = {}" using f2 pt_extD(3)[OF ext] by blast
  show "\<forall>t \<in> pt_pages f st3 root. blk t 0 \<inter> blk a order = {}" by (rule ext_tables_avoid[OF ext f2 t2])
  show "blk a order \<subseteq> {..< phys_limit f}" using k(7) pt_wfD(6)[OF wf] by blast
  show "ram st3 (phys_to_virt st3 (a + d)) = 0" if d: "d < n"
  proof -
    define p where "p = a + d"
    have "p - a < n" using d by (simp add: p_def)
    then have p: "unat p \<in> blk a order" using in_fill_block[OF order k(6) n] by blast
    obtain v where v: "unat a = 4096 * v" using k(6) bsz_4096_dvd[of order] by (metis dvd_def dvd_trans)
    have pg: "unat (page_of p) \<in> blk a order"
    proof -
      have "unat a \<le> unat (page_of p)"
      proof -
        have "v \<le> unat p div 4096" using p v by (auto simp: blk_def less_eq_div_iff_mult_less_eq mult.commute)
        then have "4096 * v \<le> 4096 * (unat p div 4096)" by simp
        then show ?thesis using v by (simp add: unat_page_of minus_mod_eq_mult_div)
      qed
      moreover have "unat (page_of p) \<le> unat p" by (simp add: unat_page_of)
      ultimately show ?thesis using p by (auto simp: blk_def)
    qed
    have "page_of p \<notin> pt_pages f st2 root" using t2 pg blk_0_mem[of "page_of p"] by blast
    moreover have "unat (page_of p) \<notin> free_bytes (frames st2)" using f2 pg by blast
    ultimately have "ram st3 (phys_to_virt st2 p) = ram st2 (phys_to_virt st2 p)"
      by (rule pt_ext_frame_data[OF ext k(8) pt_wfD(2)[OF k(2)]])
    moreover have "phys_to_virt st2 p - phys_to_virt st1 a = d"
      by (simp add: p_def st2 phys_to_virt_def)
    moreover have "phys_to_virt st3 p = phys_to_virt st2 p" using pt_extD(2)[OF ext] by (simp add: phys_to_virt_def)
    ultimately show ?thesis using d by (simp add: p_def[symmetric] st2 fill_bytes_def)
  qed
qed

lemma order_of_pages:
  assumes "unat (map_pages sz) \<le> 1024"
  obtains order where "pages_to_order (map_pages sz) = Some order" "order < MAX_ORDER"
    "unat (map_pages sz * PAGE_SIZE) \<le> bsz order"
proof -
  obtain p where p: "pages_to_order (map_pages sz) = Some p" "unat (map_pages sz) \<le> 2 ^ p"
    "p = 0 \<or> 2 ^ (p - 1) < unat (map_pages sz)"
    unfolding map_pages_def by (rule pages_to_order_div)
  have "p < MAX_ORDER"
  proof (cases "p = 0")
    case False
    then have "(2 :: nat) ^ (p - 1) < 2 ^ 10" using p(3) assms by simp
    then have "p - 1 < 10" by (simp only: power_strict_increasing_iff[of 2] one_less_numeral_iff semiring_norm(76))
    then show ?thesis by (simp add: MAX_ORDER_def)
  qed (simp add: MAX_ORDER_def)
  moreover have "unat (map_pages sz * PAGE_SIZE) \<le> bsz p"
    using p(2) by (simp add: map_pages_def unat_pages_mult bsz_def)
  ultimately show thesis using that p(1) by blast
qed

lemma as_map_ok:
  assumes inv: "as_inv as" and wf: "pt_wf f st (page_table_root as)" and hh: "hhdm_ok f st"
    and fl: "pf_contains flags PF_PRESENT" and acc: "map_accepts as virt sz slot stop"
    and small: "unat (map_pages sz) \<le> 1024"
    and user: "\<And>k. k < unat (map_pages sz) \<Longrightarrow> mappable f (page_of virt + of_nat k * PAGE_SIZE)"
  shows "\<exists>ok as' st'. as_map ar as virt sz flags st = Some (ok, as', st')
    \<and> pt_wf f st' (page_table_root as) \<and> as_inv as'
    \<and> (if ok
       then (\<exists>phys. as' = as\<lparr>regions := (regions as)[slot := Some (eager_region (page_of virt) stop phys flags)]\<rparr>
              \<and> mapped_range f leaf_of (page_of virt) stop phys flags as' st')
            \<and> (\<forall>va. mappable f va \<longrightarrow> \<not> (page_of virt \<le> va \<and> va < stop) \<longrightarrow>
                 pt_leaf f st' (page_table_root as) va = pt_leaf f st (page_table_root as) va)
       else as' = as \<and> (\<forall>va. mappable f va \<longrightarrow>
                 pt_leaf f st' (page_table_root as) va = pt_leaf f st (page_table_root as) va
                 \<or> (page_of virt \<le> va \<and> va < stop \<and> pt_leaf f st' (page_table_root as) va = 0)))"
proof -
  let ?root = "page_table_root as" and ?v = "page_of virt" and ?n = "unat (map_pages sz)"
  note rg = map_accepts_range[OF acc]
  have stop: "stop = ?v + map_pages sz * PAGE_SIZE"
    using acc by (auto simp: map_accepts_def checked_add_def split: if_splits)
  obtain order where o: "pages_to_order (map_pages sz) = Some order" "order < MAX_ORDER"
    "unat (map_pages sz * PAGE_SIZE) \<le> bsz order" using order_of_pages[OF small] by blast
  obtain r st1 where r: "mm_alloc order st = Some (r, st1)" using mm_alloc_returns[OF o(2)] by blast
  note un = as_map_accepted[OF acc, of ar flags st]
  show ?thesis
  proof (cases r)
    case None
    then have "st1 = st" using mm_alloc_None[OF pt_wfD(1)[OF wf]] r by simp
    then have "as_map ar as virt sz flags st = Some (False, as, st)" using un o(1) r None by simp
    then show ?thesis using wf inv by (auto intro!: exI[of _ False])
  next
    case (Some phys)
    define st2 where "st2 = st1\<lparr>ram := fill_bytes (ram st1) (phys_to_virt st1 phys) 0 (map_pages sz * PAGE_SIZE)\<rparr>"
    note k = alloc_fill_keeps[OF wf hh o(2) r[unfolded Some] o(3), folded st2_def]
    obtain failed st3 m where lp: "map_loop ar ?root ?v phys flags 0 ?n st2 = Some (failed, st3)"
      "pt_ext f ?root st2 st3" "m \<le> ?n" "failed = (if m = ?n then None else Some m)"
      "\<And>va. mappable f va \<Longrightarrow> pt_leaf f st3 ?root va =
         (if page_of va \<in> range_pages ?v 0 m then leaf_of (phys + (page_of va - ?v)) flags else pt_leaf f st2 ?root va)"
      using map_loop_ok[OF k(2) page_aligned_page_of fl, of 0 ?n virt phys] user by auto
    note pr = block_is_private[OF wf hh o(2) r[unfolded Some] o(3) st2_def]
    have leaf2: "pt_leaf f st2 ?root va = pt_leaf f st ?root va" if "mappable f va" for va
      using k(3) that by (simp add: mappable_def)
    have bm: "unat ?v + m * 4096 < 2 ^ 64"
      using rg(1) mult_le_mono1[OF lp(3), of 4096] by linarith
    have inr: "page_of va \<in> range_pages ?v 0 m \<Longrightarrow> ?v \<le> va \<and> va < stop" for va
      using range_pages_iff[OF page_aligned_page_of bm, of va] rg(2) mult_le_mono1[OF lp(3), of 4096]
      by (simp add: word_le_nat_alt word_less_nat_alt)
    show ?thesis
    proof (cases "m = ?n")
      case False
      let ?st4 = "unmap_loop ar ?root ?v 0 m st3"
      have mm: "m < ?n" using False lp(3) by simp
      have ul: "pt_ext f ?root st3 ?st4" "\<And>va. mappable f va \<Longrightarrow> pt_leaf f ?st4 ?root va =
          (if page_of va \<in> range_pages ?v 0 m then 0 else pt_leaf f st3 ?root va)"
        using unmap_loop_ok[OF pt_extD(1)[OF lp(2)] page_aligned_page_of, of 0 m virt] user mm by auto
      note ext4 = pt_ext_trans[OF lp(2) ul(1)]
      obtain st5 where fr: "mm_free phys order ?st4 = Some st5" "pt_wf f st5 ?root"
        "\<And>va. pt_leaf f st5 ?root va = pt_leaf f ?st4 ?root va"
        using mm_free_keeps[OF pt_extD(1)[OF ext4] o(2) k(6) pr(1)[OF ext4] pr(2)[OF ext4] pr(3)[OF ext4]] by blast
      have "as_map ar as virt sz flags st = Some (False, as, st5)"
        unfolding un using o(1) r Some lp(1,4) False fr(1) by (simp add: st2_def)
      then show ?thesis using fr ul(2) lp(5) leaf2 inr inv by (auto split: if_splits)
    next
      case True
      let ?as = "as\<lparr>regions := (regions as)[slot := Some (eager_region ?v stop phys flags)]\<rparr>"
      have eq: "as_map ar as virt sz flags st = Some (True, ?as, st3)"
        unfolding un using o(1) r Some lp(1,4) True by (simp add: st2_def stop)
      have inv': "as_inv ?as" by (rule as_map_inv[OF inv eq])
      have slot: "slot < length (regions as)" using acc position_SomeD(1) by (auto simp: map_accepts_def)
      have "mapped_range f leaf_of ?v stop phys flags ?as st3"
        unfolding mapped_range_def
      proof (intro allI impI conjI)
        fix va assume va: "?v \<le> va" "va < stop"
        have "in_vma va (eager_region ?v stop phys flags)" using va by (simp add: in_vma_def eager_region_def)
        then have "as_find ?as va = Some slot" using as_find_unique[OF inv', of slot] slot by simp
        then show "as_virt_to_phys ?as va = Some (phys + (va - ?v))"
          using slot by (simp add: as_virt_to_phys_def eager_region_def Let_def)
        have rp: "page_of va \<in> range_pages ?v 0 ?n"
          using range_pages_iff[OF page_aligned_page_of rg(1)] va rg(2) by (simp add: word_le_nat_alt word_less_nat_alt)
        have "mappable f va"
        proof -
          obtain j where j: "j < ?n" "page_of va = ?v + of_nat j * PAGE_SIZE" using rp by (auto simp: range_pages_def)
          then have "mappable f (page_of va)" using user by simp
          then show ?thesis by (rule mappable_of_page)
        qed
        then show "pt_leaf f st3 (page_table_root ?as) va = leaf_of (phys + (page_of va - ?v)) flags"
          using lp(5) rp True by simp
        have "va - ?v < map_pages sz * PAGE_SIZE"
          using va rg(2) by (simp add: word_less_nat_alt word_le_nat_alt unat_sub map_pages_def unat_pages_mult)
        then show "ram st3 (phys_to_virt st3 (phys + (va - ?v))) = 0" by (rule pr(4)[OF lp(2)])
      qed
      moreover have "pt_leaf f st3 ?root va = pt_leaf f st ?root va" if "mappable f va" "\<not> (?v \<le> va \<and> va < stop)" for va
        using lp(5)[OF that(1)] leaf2[OF that(1)] inr[of va] that(2) by auto
      ultimately show ?thesis using eq inv' pt_extD(1)[OF lp(2)] by auto
    qed
  qed
qed

end

end
