(* ===== verification/Vmm_Fault.thy ===== *)
theory Vmm_Fault
  imports Vmm_Map
begin

text \<open>
  Demand paging: what \<open>handle_user_page_fault\<close> does to the software translation, to the hardware
  walk and to the memory behind them.
\<close>

text \<open>The index of a page in its area, and the offset in the page, do not depend on the byte.\<close>

lemma page_in_area:
  assumes "page_aligned start" "start \<le> va"
  shows "unat ((va - start) div PAGE_SIZE) = unat va div 4096 - unat start div 4096"
    "(va - start) mod PAGE_SIZE = va - page_of va" "start \<le> page_of va" "page_of va \<le> va"
proof -
  have u: "unat (va - start) = unat va - unat start" using assms(2) by (simp add: unat_sub word_le_nat_alt)
  obtain k where k: "unat start = 4096 * k" using assms(1) by (auto simp: page_aligned_def)
  have le: "4096 * k \<le> unat va" using assms(2) k by (simp add: word_le_nat_alt)
  show "unat ((va - start) div PAGE_SIZE) = unat va div 4096 - unat start div 4096"
    unfolding unat_div_distrib u k by simp
  show "start \<le> page_of va"
    using k le by (simp add: word_le_nat_alt unat_page_of minus_mod_eq_mult_div less_eq_div_iff_mult_less_eq mult.commute)
  show pv: "page_of va \<le> va" by (simp add: word_le_nat_alt unat_page_of)
  have "(unat va - 4096 * k) mod 4096 = unat va mod 4096"
    using le by (metis le_add_diff_inverse mod_mult_self2 mult.commute add.commute)
  then show "(va - start) mod PAGE_SIZE = va - page_of va"
    using pv by (simp add: word_unat_eq_iff unat_mod_distrib u k unat_sub word_le_nat_alt unat_page_of)
qed

lemma lazy_get_resize:
  "lazy_get (r\<lparr>lazy_pages := (if length (lazy_pages r) \<le> i then resize (lazy_pages r) (i + 1) 0 else lazy_pages r)[i := p],
     lazy_count := c\<rparr>) j = (if j = i then p else lazy_get r j)"
  by (auto simp: lazy_get_def resize_def nth_append nth_list_update)

definition faulted_in :: "pt_fmt \<Rightarrow> (usize \<Rightarrow> u64 \<Rightarrow> u64) \<Rightarrow> usize \<Rightarrow> usize \<Rightarrow> u64 \<Rightarrow> address_space \<Rightarrow> mm_state \<Rightarrow> bool" where
  "faulted_in f leaf_of page phys flags as st \<longleftrightarrow> (\<forall>va. page_of va = page \<longrightarrow>
     as_virt_to_phys as va = Some (phys + (va - page))
     \<and> pt_leaf f st (page_table_root as) va = leaf_of phys flags
     \<and> ram st (phys_to_virt st (phys + (va - page))) = 0)"

text \<open>Recording a faulted page changes the software translation of that page only.\<close>

lemma fault_translation:
  assumes inv: "as_inv as" and slot: "as_find as va = Some i" "regions as ! i = Some r" and lz: "lazy r"
    and lg: "\<And>j. lazy_get r' j = (if j = unat ((page_of va - vma_start r) div PAGE_SIZE) then p else lazy_get r j)"
    and same: "vma_start r' = vma_start r" "vma_end r' = vma_end r" "lazy r'"
    and inv': "as_inv (as\<lparr>regions := (regions as)[i := Some r']\<rparr>)"
  shows "page_of va' = page_of va \<Longrightarrow> p \<noteq> 0 \<Longrightarrow>
      as_virt_to_phys (as\<lparr>regions := (regions as)[i := Some r']\<rparr>) va' = Some (p + (va' - page_of va))"
    and "page_of va' \<noteq> page_of va \<Longrightarrow>
      as_virt_to_phys (as\<lparr>regions := (regions as)[i := Some r']\<rparr>) va' = as_virt_to_phys as va'"
proof -
  let ?as = "as\<lparr>regions := (regions as)[i := Some r']\<rparr>"
  have i: "i < length (regions as)" "in_vma va r" using as_find_Some[OF slot(1)] slot(2) by auto
  have ok: "page_aligned (vma_start r)" "page_aligned (vma_end r)"
    using inv i(1) slot(2) unfolding as_inv_def slots_ok_def vma_ok_def by blast+
  have st: "vma_start r \<le> va" "va < vma_end r" using i(2) by (auto simp: in_vma_def)
  have idx: "unat ((page_of va - vma_start r) div PAGE_SIZE) = unat va div 4096 - unat (vma_start r) div 4096"
    using page_in_area(1)[OF ok(1) page_in_area(3)[OF ok(1) st(1)]] by (simp add: unat_page_of minus_mod_eq_mult_div)
  have fnd: "as_find ?as w = as_find as w" for w
  proof -
    have "(\<lambda>x. case x of None \<Rightarrow> False | Some r \<Rightarrow> in_vma w r) (Some r') = (\<lambda>x. case x of None \<Rightarrow> False | Some r \<Rightarrow> in_vma w r) (regions as ! i)"
      using same slot(2) by (simp add: in_vma_def)
    then show ?thesis unfolding as_find_def by (simp add: position_update_same)
  qed
  { assume eq: "page_of va' = page_of va" and p: "p \<noteq> 0"
    have q: "unat va' div 4096 = unat va div 4096" using eq by (simp add: page_of_eq_iff)
    have "vma_start r \<le> page_of va'" using page_in_area(3)[OF ok(1) st(1)] eq by simp
    moreover have "page_of va' \<le> va'" by (simp add: word_le_nat_alt unat_page_of)
    ultimately have s': "vma_start r \<le> va'" by (rule order_trans)
    have e': "va' < vma_end r"
    proof -
      obtain k where k: "unat (vma_end r) = k * 4096" using ok(2) by (auto simp: page_aligned_def mult.commute)
      then have "unat va div 4096 < k" using st(2) by (simp add: word_less_nat_alt div_less_iff_less_mult)
      then show ?thesis using k q by (simp add: word_less_nat_alt div_less_iff_less_mult[symmetric])
    qed
    have "as_find ?as va' = Some i"
      by (rule as_find_unique[OF inv', of i r']) (use i same s' e' in \<open>auto simp: in_vma_def\<close>)
    moreover have "lazy_get r' (unat ((va' - vma_start r) div PAGE_SIZE)) = p"
      unfolding lg idx page_in_area(1)[OF ok(1) s'] q by simp
    ultimately show "as_virt_to_phys ?as va' = Some (p + (va' - page_of va))"
      using i(1) same p page_in_area(2)[OF ok(1) s'] eq by (simp add: as_virt_to_phys_def Let_def) }
  { assume ne: "page_of va' \<noteq> page_of va"
    show "as_virt_to_phys ?as va' = as_virt_to_phys as va'"
    proof (cases "as_find as va' = Some i")
      case False
      then show ?thesis unfolding as_virt_to_phys_def fnd by (auto split: option.splits simp: Let_def)
    next
      case True
      then have s': "vma_start r \<le> va'" using as_find_Some[OF True] slot(2) by (auto simp: in_vma_def)
      have "unat va' div 4096 - unat (vma_start r) div 4096 \<noteq> unat va div 4096 - unat (vma_start r) div 4096"
        using ne s' st(1) by (simp add: page_of_eq_iff word_le_nat_alt div_le_mono eq_diff_iff)
      then have "lazy_get r' (unat ((va' - vma_start r) div PAGE_SIZE)) = lazy_get r (unat ((va' - vma_start r) div PAGE_SIZE))"
        unfolding lg idx page_in_area(1)[OF ok(1) s'] by simp
      then show ?thesis unfolding as_virt_to_phys_def fnd using True i(1) slot(2) same lz by (simp add: Let_def)
    qed }
qed

context paging_arch
begin

lemma as_page_fault_ok:
  assumes inv: "as_inv as" and wf: "pt_wf f st (page_table_root as)" and hh: "hhdm_ok f st"
    and slot: "as_find as va = Some i" "regions as ! i = Some r" and lz: "lazy r"
    and absent: "as_virt_to_phys as va = None" and fl: "pf_contains (vma_flags r) PF_PRESENT"
    and user: "mappable f va" and page0: "0 \<notin> free_bytes (frames st)"
  shows "\<exists>ok as' st'. as_page_fault ar as va st = Some (ok, as', st')
    \<and> pt_wf f st' (page_table_root as) \<and> as_inv as'
    \<and> (\<forall>va'. mappable f va' \<longrightarrow> page_of va' \<noteq> page_of va \<or> \<not> ok \<longrightarrow>
         pt_leaf f st' (page_table_root as) va' = pt_leaf f st (page_table_root as) va'
         \<and> as_virt_to_phys as' va' = as_virt_to_phys as va')
    \<and> (if ok then \<exists>phys. faulted_in f leaf_of (page_of va) phys (vma_flags r) as' st' else as' = as)"
proof -
  let ?root = "page_table_root as" and ?idx = "unat ((page_of va - vma_start r) div PAGE_SIZE)"
  have i: "i < length (regions as)" "in_vma va r" using as_find_Some[OF slot(1)] slot(2) by auto
  have al: "page_aligned (vma_start r)" using inv i(1) slot(2) unfolding as_inv_def slots_ok_def vma_ok_def by blast
  have sv: "vma_start r \<le> va" using i(2) by (simp add: in_vma_def)
  have idx: "?idx = unat ((va - vma_start r) div PAGE_SIZE)"
    using page_in_area(1)[OF al page_in_area(3)[OF al sv]] page_in_area(1)[OF al sv]
    by (simp add: unat_page_of minus_mod_eq_mult_div)
  have lg0: "lazy_get r ?idx = 0"
    unfolding idx using absent slot lz by (simp add: as_virt_to_phys_def Let_def split: if_splits)
  have pu: "mappable f (page_of va)" using mappable_page[OF user] by simp
  have o: "(0 :: nat) < MAX_ORDER" "unat PAGE_SIZE \<le> bsz 0" by (simp_all add: MAX_ORDER_def bsz_def)
  obtain q st1 where r: "mm_alloc 0 st = Some (q, st1)" using mm_alloc_returns[OF o(1)] by blast
  show ?thesis
  proof (cases q)
    case None
    then have "st1 = st" using mm_alloc_None[OF pt_wfD(1)[OF wf]] r by simp
    then have "as_page_fault ar as va st = Some (False, as, st)"
      using slot lz lg0 r None unfolding as_page_fault_def Let_def align_page by simp
    then show ?thesis using wf inv by (intro exI[of _ False] exI[of _ as] exI[of _ st]) simp
  next
    case (Some phys)
    define st2 where "st2 = st1\<lparr>ram := fill_bytes (ram st1) (phys_to_virt st1 phys) 0 PAGE_SIZE\<rparr>"
    note k = alloc_fill_keeps[OF wf hh o(1) r[unfolded Some] o(2), folded st2_def]
    note pr = block_is_private[OF wf hh o(1) r[unfolded Some] o(2) st2_def]
    obtain ok st3 where m: "map_page ar ?root (page_of va) phys (vma_flags r) st2 = Some (ok, st3)"
      "pt_ext f ?root st2 st3" "\<And>va'. mappable f va' \<Longrightarrow> pt_leaf f st3 ?root va' =
        (if ok \<and> page_of va' = page_of va then leaf_of phys (vma_flags r) else pt_leaf f st2 ?root va')"
      using map_law[OF k(2) pu fl, of phys] unfolding page_of_aligned[OF page_aligned_page_of] by blast
    have leaf2: "pt_leaf f st2 ?root va' = pt_leaf f st ?root va'" if "mappable f va'" for va'
      using k(3) that by (simp add: mappable_def)
    show ?thesis
    proof (cases ok)
      case False
      obtain st4 where fr: "mm_free phys 0 st3 = Some st4" "pt_wf f st4 ?root"
        "\<And>va. pt_leaf f st4 ?root va = pt_leaf f st3 ?root va"
        by (rule mm_free_keeps[OF pt_extD(1)[OF m(2)] o(1) k(6) pr(1)[OF m(2)] pr(2)[OF m(2)] pr(3)[OF m(2)]]) (rule that)
      have "as_page_fault ar as va st = Some (False, as, st4)"
        using slot lz lg0 r Some m(1) False fr(1) unfolding as_page_fault_def Let_def align_page st2_def by simp
      moreover have "pt_leaf f st4 ?root va' = pt_leaf f st ?root va'" if "mappable f va'" for va'
        using fr(3) m(3)[OF that] leaf2[OF that] False by simp
      ultimately show ?thesis using fr(2) inv by (intro exI[of _ False] exI[of _ as] exI[of _ st4]) simp
    next
      case True
      let ?lp = "(if length (lazy_pages r) \<le> ?idx then resize (lazy_pages r) (?idx + 1) 0 else lazy_pages r)[?idx := phys]"
      let ?r = "r\<lparr>lazy_pages := ?lp, lazy_count := lazy_count r + 1\<rparr>"
      let ?as = "as\<lparr>regions := (regions as)[i := Some ?r]\<rparr>"
      have eq: "as_page_fault ar as va st = Some (True, ?as, st3)"
        using slot lz lg0 r Some m(1) True unfolding as_page_fault_def Let_def align_page st2_def by simp
      have inv': "as_inv ?as" by (rule as_page_fault_inv[OF inv eq])
      have tr: "as_virt_to_phys ?as va' = (if page_of va' = page_of va then Some (phys + (va' - page_of va)) else as_virt_to_phys as va')" for va'
      proof -
        have "phys \<noteq> 0" using k(7) page0 blk_0_mem[of 0] by auto
        moreover note fault_translation[OF inv slot lz lazy_get_resize _ _ _ inv', of va']
        ultimately show ?thesis using lz by simp
      qed
      have "faulted_in f leaf_of (page_of va) phys (vma_flags r) ?as st3"
        unfolding faulted_in_def
      proof (intro allI impI conjI)
        fix va' assume e: "page_of va' = page_of va"
        show "as_virt_to_phys ?as va' = Some (phys + (va' - page_of va))" using tr e by simp
        have "mappable f va'" by (rule mappable_of_page[OF pu[folded e]])
        then show "pt_leaf f st3 (page_table_root ?as) va' = leaf_of phys (vma_flags r)" using m(3) True e by simp
        have "va' - page_of va < PAGE_SIZE" using e[symmetric] in_page_iff[of "page_of va" va'] by simp
        then show "ram st3 (phys_to_virt st3 (phys + (va' - page_of va))) = 0" by (rule pr(4)[OF m(2)])
      qed
      moreover have "pt_leaf f st3 ?root va' = pt_leaf f st ?root va' \<and> as_virt_to_phys ?as va' = as_virt_to_phys as va'"
        if "mappable f va'" "page_of va' \<noteq> page_of va" for va'
        using m(3)[OF that(1)] leaf2[OF that(1)] tr that(2) by simp
      ultimately show ?thesis using eq inv' pt_extD(1)[OF m(2)]
        by (intro exI[of _ True] exI[of _ ?as] exI[of _ st3]) (simp only: if_True simp_thms, blast)
    qed
  qed
qed

end

end
