(* ===== verification/Vmm_Arch.thy ===== *)
theory Vmm_Arch
  imports Vmm_Fault X86_Paging Aarch64_Paging
begin

text \<open>
  The address space on the two architectures: mapping and demand paging on the tables of
  \<open>X86_Paging\<close> and \<open>Aarch64_Paging\<close>, and what holds of every address space its operations reach.
\<close>

subsection \<open>Reachable address spaces\<close>

text \<open>
  One step of an address space: any operation, on any state of memory and allocator. The heap
  bounds are public fields which the loader sets.
\<close>

inductive as_step :: "arch_paging \<Rightarrow> address_space \<Rightarrow> address_space \<Rightarrow> bool" for ar where
  map_op: "as_map ar as virt sz flags st = Some (ok, as', st') \<Longrightarrow> as_step ar as as'"
| lazy_op: "as_map_lazy as virt sz flags = (ok, as') \<Longrightarrow> as_step ar as as'"
| fault_op: "as_page_fault ar as va st = Some (ok, as', st') \<Longrightarrow> as_step ar as as'"
| prefault_op: "as_prefault_range ar as addr len st = Some (as', st') \<Longrightarrow> as_step ar as as'"
| unmap_op: "as_unmap_range ar as virt len st = Some (as', st') \<Longrightarrow> as_step ar as as'"
| mprotect_op: "as_mprotect ar as addr len pr st = Some (ok, as', st') \<Longrightarrow> as_step ar as as'"
| brk_op: "as_brk ar as new_end st = Some (res, as', st') \<Longrightarrow> as_step ar as as'"
| heap_op: "as_step ar as (as\<lparr>heap_start := hs, heap_end := he\<rparr>)"

lemma prefault_loop_inv:
  assumes "prefault_loop ar va page_end as st = Some r"
  shows "as_inv as \<longrightarrow> as_inv (fst r)"
  using assms
proof (rule prefault_loop.raw_induct[where P = "\<lambda>ar va page_end as st r. as_inv as \<longrightarrow> as_inv (fst r)", rotated])
  fix f ar va page_end as st r
  assume ih: "\<And>ar va page_end as st r. f ar va page_end as st = Some r \<Longrightarrow> as_inv as \<longrightarrow> as_inv (fst r)"
    and eq: "(if va < page_end
       then (if as_virt_to_phys as va = None
             then (case as_page_fault ar as va st of None \<Rightarrow> None
                   | Some (ok, as', st') \<Rightarrow> f ar (va + PAGE_SIZE) page_end as' st')
             else f ar (va + PAGE_SIZE) page_end as st)
       else Some (as, st)) = Some r"
  show "as_inv as \<longrightarrow> as_inv (fst r)"
    using eq as_page_fault_inv
    by (auto split: if_splits option.splits dest!: ih; blast)
qed

lemma as_step_inv: "as_step ar as as' \<Longrightarrow> as_inv as \<Longrightarrow> as_inv as'"
proof (induction rule: as_step.induct)
  case (prefault_op as addr len st as' st')
  then show ?case
    by (auto simp: as_prefault_range_def dest!: prefault_loop_inv split: if_splits)
next
  case (heap_op as hs he)
  then show ?case by (simp add: as_inv_def)
qed (blast intro: as_map_inv as_map_lazy_inv as_page_fault_inv as_unmap_range_inv as_mprotect_inv as_brk_inv)+

lemma as_new_inv: "as_inv (as_new root)"
  by (simp add: as_inv_def as_new_def slots_ok_def)

lemma as_reachable_inv: "(as_step ar)\<^sup>*\<^sup>* (as_new root) as \<Longrightarrow> as_inv as"
  by (induction rule: rtranclp_induct) (simp_all add: as_new_inv as_step_inv)

text \<open>An address space with one lazy page at \<open>0x400000\<close>, as \<open>map_lazy\<close> makes it.\<close>

definition demo_region :: vma_region where
  "demo_region = \<lparr>vma_start = 0x400000, vma_end = 0x401000, vma_phys = 0, vma_flags = PF_PRESENT,
     lazy = True, lazy_pages = [], lazy_count = 0, prot = PROT_READ OR PROT_WRITE,
     map_flags = MAP_ANONYMOUS OR MAP_PRIVATE, file_cap = 0, file_off = 0, cow = False\<rparr>"

definition demo_as :: address_space where
  "demo_as = (as_new 0x1000)\<lparr>regions := (replicate 8 None)[0 := Some demo_region]\<rparr>"

lemma demo_accepts: "map_accepts (as_new 0x1000) 0x400000 0x1000 0 0x401000" "map_pages 0x1000 = 1"
proof -
  show p: "map_pages 0x1000 = 1" by (simp add: map_pages_def PAGE_SIZE_def)
  have v: "page_of 0x400000 = 0x400000" by (rule page_of_aligned) (simp add: page_aligned_def)
  have "position (\<lambda>r. r = None) (replicate 8 None) = Some 0" by (simp add: position_Some_iff)
  then show "map_accepts (as_new 0x1000) 0x400000 0x1000 0 0x401000"
    by (simp add: map_accepts_def p v as_new_def checked_add_def PAGE_SIZE_def)
qed

lemma demo_as_step: "as_map_lazy (as_new 0x1000) 0x400000 0x1000 PF_PRESENT = (True, demo_as)"
  using demo_accepts unfolding map_accepts_def as_map_lazy_def Let_def align_page map_pages_def[symmetric]
  by (auto simp: demo_as_def demo_region_def as_new_def page_of_aligned page_aligned_def)

lemma demo_as_area: "regions demo_as ! 0 = Some demo_region" "page_table_root demo_as = 0x1000"
  by (simp_all add: demo_as_def as_new_def)

text \<open>
  C4. Whatever sequence of \<open>map\<close>, \<open>map_lazy\<close>, page faults, prefaults, \<open>unmap_range\<close>, \<open>mprotect\<close> and
  \<open>brk\<close> an address space goes through, successful or not, it keeps exactly eight slots, every
  area starts and ends on a page boundary, and no address belongs to two areas, so that \<open>find\<close>
  answers with the only area that covers the address.
\<close>

theorem areas_never_overlap:
  assumes "(as_step ar)\<^sup>*\<^sup>* (as_new root) as"
  shows "length (regions as) = 8
    \<and> (\<forall>i < 8. \<forall>r. regions as ! i = Some r \<longrightarrow> page_aligned (vma_start r) \<and> page_aligned (vma_end r)
         \<and> (\<forall>va. in_vma va r \<longrightarrow> as_find as va = Some i))"
  using as_reachable_inv[OF assms] as_find_unique[OF as_reachable_inv[OF assms]]
  by (simp add: as_inv_def slots_ok_def vma_ok_def)

theorem areas_never_overlap_witness: "(as_step x86_paging)\<^sup>*\<^sup>* (as_new 0x1000) demo_as \<and> as_find demo_as 0x400FFF = Some 0"
proof -
  have st: "(as_step x86_paging)\<^sup>*\<^sup>* (as_new 0x1000) demo_as"
    by (intro r_into_rtranclp as_step.lazy_op[OF demo_as_step])
  then show ?thesis using areas_never_overlap[OF st] demo_as_area by (auto simp: demo_region_def in_vma_def)
qed

subsection \<open>Mapping\<close>

text \<open>
  C5. \<open>AddressSpace::map\<close> on x86-64, for up to 4 MiB: it returns. On success one area is added, and
  on every address of it the software translation, the hardware walk and zeroed memory agree; the
  walk of every other user address is unchanged. On failure (out of frames at any point of the
  walk) the address space is unchanged and every user address keeps its leaf or, inside the
  range only, has lost it. The tables remain a tree either way.
\<close>

theorem x86_as_map_correct:
  assumes "as_inv as" "pt_wf x86_fmt st (page_table_root as)" "pf_contains flags PF_PRESENT"
    "map_accepts as virt sz slot stop" "unat (map_pages sz) \<le> 1024"
    "\<forall>k < unat (map_pages sz). mappable x86_fmt (page_of virt + of_nat k * PAGE_SIZE)"
  shows "\<exists>ok as' st'. as_map x86_paging as virt sz flags st = Some (ok, as', st')
    \<and> pt_wf x86_fmt st' (page_table_root as) \<and> as_inv as'
    \<and> (if ok
       then (\<exists>phys. as' = as\<lparr>regions := (regions as)[slot := Some (eager_region (page_of virt) stop phys flags)]\<rparr>
              \<and> mapped_range x86_fmt (\<lambda>phys flags. phys OR x86_translate_flags flags) (page_of virt) stop phys flags as' st')
            \<and> (\<forall>va. mappable x86_fmt va \<longrightarrow> \<not> (page_of virt \<le> va \<and> va < stop) \<longrightarrow>
                 pt_leaf x86_fmt st' (page_table_root as) va = pt_leaf x86_fmt st (page_table_root as) va)
       else as' = as \<and> (\<forall>va. mappable x86_fmt va \<longrightarrow>
                 pt_leaf x86_fmt st' (page_table_root as) va = pt_leaf x86_fmt st (page_table_root as) va
                 \<or> (page_of virt \<le> va \<and> va < stop \<and> pt_leaf x86_fmt st' (page_table_root as) va = 0)))"
  by (rule x86_arch.as_map_ok) (use assms in \<open>simp_all add: hhdm_ok_def\<close>)

theorem x86_as_map_correct_witness:
  "pt_wf x86_fmt demo_mm 0x1000 \<and> (\<exists>ok as' st'. as_map x86_paging (as_new 0x1000) 0x400000 0x1000 PF_PRESENT demo_mm = Some (ok, as', st')
     \<and> pt_wf x86_fmt st' 0x1000)"
proof -
  have "mappable x86_fmt (page_of 0x400000)"
    by (simp add: mappable_def low_va_def user_va_def va_idx_nat page_of_aligned page_aligned_def)
  then show ?thesis
    using x86_as_map_correct[OF as_new_inv _ _ demo_accepts(1), of demo_mm PF_PRESENT] demo_mm_wf demo_accepts(2)
    by (auto simp: as_new_def pf_contains_def)
qed


lemma demo_hhdm0_wf: "pt_wf a64_fmt (demo_mm\<lparr>hhdm_off := 0\<rparr>) 0x1000"
proof (rule empty_root(1))
  show "mm_ok a64_fmt (demo_mm\<lparr>hhdm_off := 0\<rparr>)"
    using demo_frames_ok by (auto simp: mm_ok_def demo_mm_def page_aligned_def)
  show "blk 0x1000 0 \<inter> free_bytes (frames (demo_mm\<lparr>hhdm_off := 0\<rparr>)) = {}"
    using demo_frames_ok by (auto simp: demo_mm_def blk_def bsz_def)
qed (simp_all add: page_aligned_def pt_entry_def demo_mm_def)


subsection \<open>The size limit of eager mappings\<close>

lemma order_of_many_pages:
  assumes "pages_to_order pages = Some order" "1024 < unat pages" "unat pages \<le> 2 ^ order"
  shows "MAX_ORDER \<le> order"
proof (rule ccontr)
  assume "\<not> MAX_ORDER \<le> order"
  then have "(2 :: nat) ^ order \<le> 2 ^ 10" by (intro power_increasing) (simp_all add: MAX_ORDER_def)
  then show False using assms(2,3) by simp
qed

text \<open>
  \<open>map\<close> has no size check of its own: an accepted request for more than 1024 pages (4 MiB) asks
  the buddy allocator for an order it does not have, and its assertion stops the kernel.
\<close>

theorem as_map_too_large_panics:
  assumes "map_accepts as virt sz slot stop" "1024 < unat (map_pages sz)"
  shows "as_map ar as virt sz flags st = None"
proof -
  obtain order where o: "pages_to_order (map_pages sz) = Some order" "unat (map_pages sz) \<le> 2 ^ order"
    unfolding map_pages_def by (rule pages_to_order_div)
  have "MAX_ORDER \<le> order" by (rule order_of_many_pages[OF o(1) assms(2) o(2)])
  then have "mm_alloc order st = None" by (simp add: mm_alloc_def buddy_alloc_def)
  then show ?thesis unfolding as_map_accepted[OF assms(1)] using o(1) by simp
qed

theorem as_map_too_large_panics_witness: "as_map a64_paging (as_new 0x1000) 0x400000 0x401000 PF_PRESENT demo_mm = None"
proof (rule as_map_too_large_panics)
  have p: "map_pages 0x401000 = 0x401" by (simp add: map_pages_def PAGE_SIZE_def)
  have v: "page_of 0x400000 = 0x400000" by (rule page_of_aligned) (simp add: page_aligned_def)
  have "position (\<lambda>r. r = None) (replicate 8 None) = Some 0" by (simp add: position_Some_iff)
  then show "map_accepts (as_new 0x1000) 0x400000 0x401000 0 0x801000"
    by (simp add: map_accepts_def p v as_new_def checked_add_def PAGE_SIZE_def)
  show "1024 < unat (map_pages 0x401000)" by (simp add: p)
qed

end
