(* ===== verification/Task.thy ===== *)
theory Task
  imports Vmm
begin

text \<open>
  Task descriptors and CPU contexts (\<open>src/sched/src/task.rs\<close> and \<open>context.rs\<close>), in the AArch64
  configuration of the two files. Serial debug output has no effect on the state. The addresses
  of the assembly trampolines are parameters. Boxes are plain values: an exhausted kernel heap
  aborts and is not modelled.
\<close>

type_synonym i32 = int
type_synonym isize = int
type_synonym pid_t = u32

definition u32_MAX :: u32 where "u32_MAX = 0xFFFFFFFF"

datatype task_state = Ready | Running | Blocked | Zombie

record sig_action =
  handler :: usize
  sa_flags :: u32
  sa_mask :: u64
  restorer :: usize

definition DEFAULT_SIGACTION :: sig_action where
  "DEFAULT_SIGACTION = \<lparr>handler = 0, sa_flags = 0, sa_mask = 0, restorer = 0\<rparr>"

subsection \<open>CPU contexts\<close>

record cpu_context =
  gregs :: "u64 list"
  ctx_sp :: u64
  ctx_pad :: u64
  fpregs :: "128 word list"
  fpcr :: u64
  fpsr :: u64
  tpidr_el0 :: u64
  ctx_pad2 :: u64

definition ctx_zeroed :: cpu_context where
  "ctx_zeroed = \<lparr>gregs = replicate 12 0, ctx_sp = 0, ctx_pad = 0, fpregs = replicate 32 0, fpcr = 0, fpsr = 0,
     tpidr_el0 = 0, ctx_pad2 = 0\<rparr>"

definition ctx_new_task :: "usize \<Rightarrow> usize \<Rightarrow> cpu_context" where
  "ctx_new_task entry stack_top =
     ctx_zeroed\<lparr>gregs := (gregs ctx_zeroed)[11 := entry], ctx_sp := stack_top\<rparr>"

text \<open>\<open>new_user_task\<close> builds the frame that \<open>ret_to_user\<close> pops, on the kernel stack.\<close>

definition ctx_new_user_task :: "usize \<Rightarrow> usize \<Rightarrow> usize \<Rightarrow> usize \<Rightarrow> mm_state \<Rightarrow> cpu_context \<times> mm_state" where
  "ctx_new_user_task ret_to_user user_entry user_sp kernel_stack_top st =
     (let frame = kernel_stack_top - 4 * 8;
          m1 = store64 (ram st) frame user_sp;
          m2 = store64 m1 (frame + 8) user_entry;
          m3 = store64 m2 (frame + 16) 0;
          m4 = store64 m3 (frame + 24) 0
      in (ctx_zeroed\<lparr>gregs := (gregs ctx_zeroed)[11 := ret_to_user], ctx_sp := frame\<rparr>, st\<lparr>ram := m4\<rparr>))"

subsection \<open>User register frames\<close>

record user_frame =
  uf_x :: "u64 list"
  sp_el0 :: u64
  elr_el1 :: u64
  spsr_el1 :: u64

definition USER_FRAME_SIZE :: usize where "USER_FRAME_SIZE = 272"

subsection \<open>Tasks\<close>

record task =
  pid :: pid_t
  tstate :: task_state
  priority :: int
  ctx :: cpu_context
  page_table :: usize
  kernel_stack :: usize
  blocked_on :: "u32 option"
  blocked_futex :: usize
  tas :: "address_space option"
  exit_code :: i32
  reply_port :: u32
  ppid :: pid_t
  tgid :: pid_t
  pgid :: pid_t
  sid :: pid_t
  uid :: u32
  gid :: u32
  euid :: u32
  egid :: u32
  signal_pending :: u64
  signal_mask :: u64
  signal_actions :: "sig_action list"
  clear_child_tid :: usize
  task_heap_start :: usize
  task_heap_end :: usize
  tls_base :: u64
  cwd :: "u8 list"
  cwd_len :: nat
  umask_bits :: u32

definition new_kernel :: "pid_t \<Rightarrow> usize \<Rightarrow> usize \<Rightarrow> usize \<Rightarrow> usize \<Rightarrow> task" where
  "new_kernel p entry stack_base stack_size pt =
     \<lparr>pid = p, tstate = Ready, priority = 0,
      ctx = (if entry = 0 then ctx_zeroed else ctx_new_task entry (stack_base + stack_size)),
      page_table = pt, kernel_stack = stack_base, blocked_on = None, blocked_futex = 0, tas = None,
      exit_code = 0, reply_port = u32_MAX, ppid = 0, tgid = p, pgid = p, sid = p,
      uid = 0, gid = 0, euid = 0, egid = 0, signal_pending = 0, signal_mask = 0,
      signal_actions = replicate 4 DEFAULT_SIGACTION, clear_child_tid = 0,
      task_heap_start = 0, task_heap_end = 0, tls_base = 0,
      cwd = (replicate 128 0)[0 := 0x2F], cwd_len = 1, umask_bits = 18\<rparr>"

text \<open>
  \<open>new_kernel_inplace\<close> writes the fields of \<open>dest\<close> one by one. The field \<open>address_space\<close> is written
  through a pointer of type \<open>Option<AddressSpace>\<close> although the field is an \<open>Option<Box<..>>\<close>;
  the parameter \<open>mistyped\<close> is what that store leaves in the field.
\<close>

definition new_kernel_inplace :: "address_space option \<Rightarrow> task \<Rightarrow> pid_t \<Rightarrow> usize \<Rightarrow> usize \<Rightarrow> usize \<Rightarrow> usize \<Rightarrow> task" where
  "new_kernel_inplace mistyped dest p entry stack_base stack_size pt =
     (let stack_top = stack_base + stack_size;
          d1 = dest\<lparr>pid := p, tstate := Ready, priority := 0\<rparr>;
          d2 = d1\<lparr>ctx := ctx_zeroed\<lparr>gregs := (replicate 12 0)[11 := entry], ctx_sp := stack_top\<rparr>\<rparr>;
          d3 = d2\<lparr>page_table := pt, kernel_stack := stack_base, blocked_on := None, blocked_futex := 0,
                  tas := mistyped, exit_code := 0, reply_port := u32_MAX\<rparr>;
          d4 = d3\<lparr>ppid := 0, tgid := p, pgid := p, sid := p, uid := 0, gid := 0, euid := 0, egid := 0\<rparr>;
          d5 = d4\<lparr>signal_pending := 0, signal_mask := 0, clear_child_tid := 0,
                  task_heap_start := 0, task_heap_end := 0, tls_base := 0, cwd_len := 1, umask_bits := 18\<rparr>;
          d6 = d5\<lparr>signal_actions := map (\<lambda>_. DEFAULT_SIGACTION) [0..<4]\<rparr>
      in d6\<lparr>cwd := (replicate 128 0)[0 := 0x2F], cwd_len := 1\<rparr>)"

definition new_userspace :: "usize \<Rightarrow> pid_t \<Rightarrow> usize \<Rightarrow> usize \<Rightarrow> usize \<Rightarrow> usize \<Rightarrow> usize \<Rightarrow> mm_state \<Rightarrow> task \<times> mm_state" where
  "new_userspace ret_to_user p user_entry user_sp kernel_stack_base kernel_stack_size pt st =
     (let (c, st') = ctx_new_user_task ret_to_user user_entry user_sp (kernel_stack_base + kernel_stack_size) st
      in (\<lparr>pid = p, tstate = Ready, priority = 0, ctx = c,
      page_table = pt, kernel_stack = kernel_stack_base, blocked_on = None, blocked_futex = 0, tas = None,
      exit_code = 0, reply_port = u32_MAX, ppid = 0, tgid = p, pgid = p, sid = p,
      uid = 0, gid = 0, euid = 0, egid = 0, signal_pending = 0, signal_mask = 0,
      signal_actions = replicate 4 DEFAULT_SIGACTION, clear_child_tid = 0,
      task_heap_start = 0, task_heap_end = 0, tls_base = 0,
      cwd = (replicate 128 0)[0 := 0x2F], cwd_len = 1, umask_bits = 18\<rparr>, st'))"

text \<open>The order of the temporary allocation of \<open>new_minimal_test\<close>; \<open>task_size\<close> is \<open>size_of::<Task>()\<close>.\<close>

partial_function (option) task_order_loop :: "nat \<Rightarrow> usize \<Rightarrow> usize \<Rightarrow> nat option" where
  "task_order_loop ord sz task_size =
     (if sz < task_size then task_order_loop (Suc ord) (sz * 2) task_size else Some ord)"

definition new_minimal_test :: "usize \<Rightarrow> address_space option \<Rightarrow> task \<Rightarrow> pid_t \<Rightarrow> usize \<Rightarrow> usize \<Rightarrow> usize \<Rightarrow> mm_state
    \<Rightarrow> (task \<times> mm_state) panicking" where
  "new_minimal_test task_size mistyped zeroed p entry stack_base stack_size st = do {
     ord \<leftarrow> task_order_loop 0 PAGE_SIZE task_size;
     (r, st1) \<leftarrow> mm_alloc ord st;
     case r of
       None \<Rightarrow> None
     | Some ptr \<Rightarrow> do {
         let st2 = st1\<lparr>ram := fill_bytes (ram st1) ptr 0 task_size\<rparr>;
         let t = new_kernel_inplace mistyped zeroed p entry stack_base stack_size 0;
         st3 \<leftarrow> mm_free ptr ord st2;
         Some (t, st3)
       }
   }"

subsection \<open>The two constructors agree\<close>



end
