(* ===== verification/Run_Queue.thy ===== *)
theory Run_Queue
  imports Task
begin

text \<open>
  The run queue (\<open>src/sched/src/runqueue.rs\<close>): 256 task slots, a count and a cursor for round-robin
  selection. Methods that return a mutable reference to a task are modelled by the update they
  allow (\<open>modify_pid\<close>, \<open>modify_idx\<close>).
\<close>

definition MAX_TASKS :: nat where "MAX_TASKS = 256"

record run_queue =
  tasks :: "task option list"
  rq_len :: nat
  cursor :: nat

definition rq_new :: run_queue where
  "rq_new = \<lparr>tasks = replicate MAX_TASKS None, rq_len = 0, cursor = 0\<rparr>"

definition is_task :: "(task \<Rightarrow> bool) \<Rightarrow> task option \<Rightarrow> bool" where
  "is_task P s = (case s of None \<Rightarrow> False | Some t \<Rightarrow> P t)"

lemma is_task_simps [simp]: "is_task P None = False" "is_task P (Some t) = P t"
  by (simp_all add: is_task_def)

lemma is_taskE: "is_task P s \<Longrightarrow> (\<And>t. s = Some t \<Longrightarrow> P t \<Longrightarrow> R) \<Longrightarrow> R"
  by (cases s) auto

definition rq_enqueue :: "task \<Rightarrow> run_queue \<Rightarrow> bool \<times> run_queue" where
  "rq_enqueue t rq =
     (case position (\<lambda>s. s = None) (tasks rq) of
        None \<Rightarrow> (False, rq)
      | Some i \<Rightarrow> (True, rq\<lparr>tasks := (tasks rq)[i := Some t], rq_len := rq_len rq + 1\<rparr>))"

text \<open>The two scans of \<open>pick_next\<close>; an index outside the array would panic, hence the invariant below.\<close>

fun scan_ready :: "task option list \<Rightarrow> nat \<Rightarrow> nat \<Rightarrow> nat option" where
  "scan_ready ts i 0 = None"
| "scan_ready ts i (Suc n) =
     (if is_task (\<lambda>t. tstate t = Ready) (ts ! i) then Some i else scan_ready ts (Suc i) n)"

definition rq_pick_next :: "run_queue \<Rightarrow> nat option \<times> run_queue" where
  "rq_pick_next rq =
     (if rq_len rq = 0 then (None, rq)
      else case scan_ready (tasks rq) (cursor rq) (MAX_TASKS - cursor rq) of
             Some i \<Rightarrow> (Some i, rq\<lparr>cursor := (i + 1) mod MAX_TASKS\<rparr>)
           | None \<Rightarrow>
               (case scan_ready (tasks rq) 0 (cursor rq) of
                  Some i \<Rightarrow> (Some i, rq\<lparr>cursor := (i + 1) mod MAX_TASKS\<rparr>)
                | None \<Rightarrow> (None, rq)))"

definition rq_get :: "run_queue \<Rightarrow> nat \<Rightarrow> task option" where
  "rq_get rq idx = tasks rq ! idx"

definition find_pid_idx :: "run_queue \<Rightarrow> pid_t \<Rightarrow> nat option" where
  "find_pid_idx rq p = position (is_task (\<lambda>t. pid t = p)) (tasks rq)"

fun find_task :: "pid_t \<Rightarrow> task option list \<Rightarrow> task option" where
  "find_task p [] = None"
| "find_task p (s # ss) = (case s of Some t \<Rightarrow> if pid t = p then Some t else find_task p ss | None \<Rightarrow> find_task p ss)"

definition find_pid :: "run_queue \<Rightarrow> pid_t \<Rightarrow> task option" where
  "find_pid rq p = find_task p (tasks rq)"

fun modify_task :: "pid_t \<Rightarrow> (task \<Rightarrow> task) \<Rightarrow> task option list \<Rightarrow> task option list" where
  "modify_task p f [] = []"
| "modify_task p f (s # ss) =
     (case s of Some t \<Rightarrow> if pid t = p then Some (f t) # ss else s # modify_task p f ss
              | None \<Rightarrow> s # modify_task p f ss)"

definition modify_pid :: "pid_t \<Rightarrow> (task \<Rightarrow> task) \<Rightarrow> run_queue \<Rightarrow> run_queue" where
  "modify_pid p f rq = rq\<lparr>tasks := modify_task p f (tasks rq)\<rparr>"

definition modify_idx :: "nat \<Rightarrow> (task \<Rightarrow> task) \<Rightarrow> run_queue \<Rightarrow> run_queue" where
  "modify_idx i f rq = rq\<lparr>tasks := (tasks rq)[i := map_option f (tasks rq ! i)]\<rparr>"

definition rq_block_on_port :: "pid_t \<Rightarrow> u32 \<Rightarrow> run_queue \<Rightarrow> run_queue" where
  "rq_block_on_port p port = modify_pid p (\<lambda>t. t\<lparr>tstate := Blocked, blocked_on := Some port\<rparr>)"

definition unblock_task :: "u32 \<Rightarrow> task \<Rightarrow> task" where
  "unblock_task port t =
     (if blocked_on t = Some port \<and> tstate t = Blocked then t\<lparr>tstate := Ready, blocked_on := None\<rparr> else t)"

definition rq_unblock_port :: "u32 \<Rightarrow> run_queue \<Rightarrow> run_queue" where
  "rq_unblock_port port rq = rq\<lparr>tasks := map (map_option (unblock_task port)) (tasks rq)\<rparr>"

definition mark_zombie :: "pid_t \<Rightarrow> run_queue \<Rightarrow> run_queue" where
  "mark_zombie p = modify_pid p (\<lambda>t. t\<lparr>tstate := Zombie\<rparr>)"

definition rq_remove :: "nat \<Rightarrow> run_queue \<Rightarrow> task option \<times> run_queue" where
  "rq_remove idx rq =
     (let t = tasks rq ! idx
      in (t, rq\<lparr>tasks := (tasks rq)[idx := None], rq_len := (if t \<noteq> None then rq_len rq - 1 else rq_len rq)\<rparr>))"

subsection \<open>The slot count\<close>

definition live :: "task option list \<Rightarrow> nat" where
  "live ts = length (filter (\<lambda>s. s \<noteq> None) ts)"

definition rq_inv :: "run_queue \<Rightarrow> bool" where
  "rq_inv rq \<longleftrightarrow> length (tasks rq) = MAX_TASKS \<and> cursor rq < MAX_TASKS \<and> rq_len rq = live (tasks rq)"

lemma live_simps [simp]: "live [] = 0" "live (s # ts) = (if s = None then 0 else 1) + live ts"
  by (simp_all add: live_def)

lemma live_update:
  "i < length ts \<Longrightarrow> live (ts[i := s]) + (if ts ! i = None then 0 else 1) = live ts + (if s = None then 0 else 1)"
proof (induction ts arbitrary: i)
  case (Cons x ts)
  show ?case
  proof (cases i)
    case (Suc j)
    then show ?thesis using Cons.IH[of j] Cons.prems by simp
  qed simp
qed simp

lemma rq_new_inv: "rq_inv rq_new"
  by (simp add: rq_inv_def rq_new_def live_def MAX_TASKS_def)

lemma rq_enqueue_inv:
  assumes "rq_inv rq" "rq_enqueue t rq = (ok, rq')"
  shows "rq_inv rq'"
proof (cases "position (\<lambda>s. s = None) (tasks rq)")
  case None
  then show ?thesis using assms by (simp add: rq_enqueue_def)
next
  case (Some i)
  then show ?thesis
    using assms position_SomeD(1,2)[OF Some] live_update[of i "tasks rq" "Some t"]
    by (auto simp: rq_enqueue_def rq_inv_def)
qed

lemma rq_enqueue_True:
  "rq_enqueue t q = (True, q') \<Longrightarrow>
     \<exists>i. position (\<lambda>x. x = None) (tasks q) = Some i \<and> q' = q\<lparr>tasks := (tasks q)[i := Some t], rq_len := rq_len q + 1\<rparr>"
  by (auto simp: rq_enqueue_def split: option.splits)

lemma rq_pick_next_inv: "rq_inv rq \<Longrightarrow> rq_pick_next rq = (r, rq') \<Longrightarrow> rq_inv rq' \<and> tasks rq' = tasks rq"
  by (auto simp: rq_inv_def rq_pick_next_def MAX_TASKS_def split: if_splits option.splits)

lemma rq_remove_inv: "rq_inv rq \<Longrightarrow> idx < MAX_TASKS \<Longrightarrow> rq_inv (snd (rq_remove idx rq))"
  using live_update[of idx "tasks rq" None] by (auto simp: rq_inv_def rq_remove_def Let_def)

lemma modify_task_shape [simp]:
  "length (modify_task p f ts) = length ts" "live (modify_task p f ts) = live ts"
  by (induction ts) (auto split: option.splits)

lemma modify_pid_inv [simp]: "rq_inv (modify_pid p f rq) \<longleftrightarrow> rq_inv rq"
  by (simp add: rq_inv_def modify_pid_def)

lemma live_map_option: "live (map (map_option f) ts) = live ts"
  by (induction ts) auto

lemma modify_idx_inv: "rq_inv rq \<Longrightarrow> rq_inv (modify_idx i f rq)"
  using live_update[of i "tasks rq" "map_option f (tasks rq ! i)"]
  by (cases "i < length (tasks rq)") (auto simp: rq_inv_def modify_idx_def list_update_beyond split: if_splits)

lemma rq_unblock_port_inv: "rq_inv (rq_unblock_port port rq) \<longleftrightarrow> rq_inv rq"
  by (simp add: rq_inv_def rq_unblock_port_def live_map_option)

subsection \<open>Lookup by process id\<close>

definition pid_at :: "run_queue \<Rightarrow> nat \<Rightarrow> pid_t \<Rightarrow> bool" where
  "pid_at rq i p \<longleftrightarrow> i < length (tasks rq) \<and> is_task (\<lambda>t. pid t = p) (tasks rq ! i)"

definition pids_distinct :: "run_queue \<Rightarrow> bool" where
  "pids_distinct rq \<longleftrightarrow> (\<forall>i j p. pid_at rq i p \<longrightarrow> pid_at rq j p \<longrightarrow> i = j)"

lemma find_task_position:
  "find_task p ts = Option.bind (position (is_task (\<lambda>t. pid t = p)) ts) (\<lambda>i. ts ! i)"
proof (induction ts)
  case (Cons s ts)
  then show ?case
    by (cases s; cases "position (is_task (\<lambda>t. pid t = p)) ts") auto
qed simp

lemma modify_task_position:
  "modify_task p f ts = (case position (is_task (\<lambda>t. pid t = p)) ts of None \<Rightarrow> ts | Some i \<Rightarrow> ts[i := map_option f (ts ! i)])"
proof (induction ts)
  case (Cons s ts)
  then show ?case
    by (cases s; cases "position (is_task (\<lambda>t. pid t = p)) ts") auto
qed simp

lemma find_pid_idx_SomeD:
  assumes "find_pid_idx rq p = Some i"
  shows "i < length (tasks rq)" "\<exists>t. tasks rq ! i = Some t \<and> pid t = p"
  using position_SomeD[OF assms[unfolded find_pid_idx_def]] by (auto simp: is_task_def split: option.splits)

lemma modify_pid_nth:
  assumes "i < length (tasks rq)"
  shows "tasks (modify_pid p f rq) ! i =
    (if find_pid_idx rq p = Some i then map_option f (tasks rq ! i) else tasks rq ! i)"
  using assms by (auto simp: modify_pid_def modify_task_position find_pid_idx_def split: option.splits)

lemma pid_at_modify:
  assumes "\<And>t. pid (f t) = pid t"
  shows "pid_at (modify_pid p f rq) i q \<longleftrightarrow> pid_at rq i q"
  using assms modify_pid_nth[of i rq p f]
  by (auto simp: pid_at_def modify_pid_def is_task_def split: option.splits if_splits)

lemma find_pid_idx_unique: "pids_distinct rq \<Longrightarrow> pid_at rq i p \<Longrightarrow> find_pid_idx rq p = Some i"
proof -
  assume d: "pids_distinct rq" and i: "pid_at rq i p"
  have "find_pid_idx rq p \<noteq> None"
    using i nth_mem[of i "tasks rq"] unfolding find_pid_idx_def position_None_iff pid_at_def by blast
  then obtain j where j: "find_pid_idx rq p = Some j" by blast
  have "pid_at rq j p" using find_pid_idx_SomeD[OF j] by (auto simp: pid_at_def is_task_def)
  then show ?thesis using d i j unfolding pids_distinct_def by blast
qed

subsection \<open>Round-robin selection\<close>

definition ready_at :: "run_queue \<Rightarrow> nat \<Rightarrow> bool" where
  "ready_at rq i \<longleftrightarrow> i < MAX_TASKS \<and> is_task (\<lambda>t. tstate t = Ready) (tasks rq ! i)"

lemma scan_ready_Some:
  "scan_ready ts i n = Some k \<longleftrightarrow> i \<le> k \<and> k < i + n \<and> is_task (\<lambda>t. tstate t = Ready) (ts ! k)
     \<and> (\<forall>j. i \<le> j \<longrightarrow> j < k \<longrightarrow> \<not> is_task (\<lambda>t. tstate t = Ready) (ts ! j))"
proof (induction n arbitrary: i)
  case (Suc n)
  show ?case
  proof (cases "is_task (\<lambda>t. tstate t = Ready) (ts ! i)")
    case True
    then show ?thesis by (auto simp: le_less)
  next
    case False
    then have "scan_ready ts i (Suc n) = Some k \<longleftrightarrow> scan_ready ts (Suc i) n = Some k" by simp
    then show ?thesis unfolding Suc.IH using False by (metis Suc_leI add_Suc_right add_Suc le_neq_implies_less le_SucI Suc_leD)
  qed
qed auto

lemma scan_ready_None:
  "scan_ready ts i n = None \<longleftrightarrow> (\<forall>j. i \<le> j \<longrightarrow> j < i + n \<longrightarrow> \<not> is_task (\<lambda>t. tstate t = Ready) (ts ! j))"
proof (induction n arbitrary: i)
  case (Suc n)
  have "(\<forall>j. i \<le> j \<longrightarrow> j < i + Suc n \<longrightarrow> P j) \<longleftrightarrow> P i \<and> (\<forall>j. Suc i \<le> j \<longrightarrow> j < Suc i + n \<longrightarrow> P j)" for P
    by (metis Suc_leI add_Suc_right add_Suc le_neq_implies_less le_SucI Suc_leD le_refl less_add_Suc1)
  then show ?case using Suc.IH by (auto split: if_splits)
qed auto

text \<open>The distance of a slot ahead of the cursor, in scan order.\<close>

definition dist :: "run_queue \<Rightarrow> nat \<Rightarrow> nat" where
  "dist rq i = (if cursor rq \<le> i then i - cursor rq else MAX_TASKS - cursor rq + i)"

lemma pick_next_first:
  assumes inv: "rq_inv rq" and r: "ready_at rq i"
  obtains k rq' where "rq_pick_next rq = (Some k, rq')" "ready_at rq k" "dist rq k \<le> dist rq i"
    "cursor rq' = (k + 1) mod MAX_TASKS" "\<And>j. ready_at rq j \<Longrightarrow> dist rq k \<le> dist rq j"
proof -
  let ?c = "cursor rq" and ?ts = "tasks rq"
  have c: "?c < MAX_TASKS" "length ?ts = MAX_TASKS" using inv by (auto simp: rq_inv_def)
  have i: "i < MAX_TASKS" "is_task (\<lambda>t. tstate t = Ready) (?ts ! i)" using r by (auto simp: ready_at_def)
  have "?ts ! i \<in> set ?ts" "?ts ! i \<noteq> None" using i c by (auto elim: is_taskE)
  then have len: "rq_len rq \<noteq> 0" using inv by (auto simp: rq_inv_def live_def filter_empty_conv)
  show ?thesis
  proof (cases "scan_ready ?ts ?c (MAX_TASKS - ?c)")
    case (Some k)
    then have k: "?c \<le> k" "k < MAX_TASKS" "is_task (\<lambda>t. tstate t = Ready) (?ts ! k)"
      "\<And>j. ?c \<le> j \<Longrightarrow> j < k \<Longrightarrow> \<not> is_task (\<lambda>t. tstate t = Ready) (?ts ! j)"
      using c unfolding scan_ready_Some by auto
    have first: "dist rq k \<le> dist rq j" if "ready_at rq j" for j
      using k(1,2) k(4)[of j] that by (auto simp: dist_def ready_at_def not_le) (meson leI le_diff_conv diff_le_mono)
    show ?thesis
      by (rule that[of k "rq\<lparr>cursor := (k + 1) mod MAX_TASKS\<rparr>"])
         (use len Some k first r in \<open>auto simp: rq_pick_next_def ready_at_def\<close>)
  next
    case None
    then have no: "\<not> is_task (\<lambda>t. tstate t = Ready) (?ts ! j)" if "?c \<le> j" "j < MAX_TASKS" for j
      using c that unfolding scan_ready_None by auto
    then have ic: "i < ?c" using i not_le by blast
    obtain k where s: "scan_ready ?ts 0 ?c = Some k"
      using i ic scan_ready_None[of ?ts 0 ?c] by (cases "scan_ready ?ts 0 ?c") auto
    then have k: "k < ?c" "is_task (\<lambda>t. tstate t = Ready) (?ts ! k)"
      "\<And>j. j < k \<Longrightarrow> \<not> is_task (\<lambda>t. tstate t = Ready) (?ts ! j)"
      unfolding scan_ready_Some by auto
    have first: "dist rq k \<le> dist rq j" if "ready_at rq j" for j
      using k(1) k(3)[of j] no[of j] that by (auto simp: dist_def ready_at_def) (meson leI)
    show ?thesis
      by (rule that[of k "rq\<lparr>cursor := (k + 1) mod MAX_TASKS\<rparr>"])
         (use len None s k c first r in \<open>auto simp: rq_pick_next_def ready_at_def\<close>)
  qed
qed

text \<open>A pick that passes a ready slot over brings it closer.\<close>

lemma pick_next_closer:
  assumes inv: "rq_inv rq" and r: "ready_at rq i" and p: "rq_pick_next rq = (Some k, rq')" and ne: "k \<noteq> i"
  shows "dist rq' i < dist rq i"
proof -
  obtain k' rq1 where k: "rq_pick_next rq = (Some k', rq1)" "ready_at rq k'" "dist rq k' \<le> dist rq i"
    "cursor rq1 = (k' + 1) mod MAX_TASKS"
    using pick_next_first[OF inv r] by blast
  then have eq: "k' = k" "rq1 = rq'" using p by auto
  have b: "i < MAX_TASKS" "k < MAX_TASKS" "cursor rq < MAX_TASKS"
    using r k(2) inv eq by (auto simp: ready_at_def rq_inv_def)
  have c: "cursor rq' = (if k = MAX_TASKS - 1 then 0 else k + 1)" using k(4) eq b(2) by (auto simp: mod_Suc)
  show ?thesis
    using k(3) ne b c unfolding eq dist_def MAX_TASKS_def by (auto split: if_splits)
qed

subsection \<open>Fairness\<close>

text \<open>
  A schedule: a sequence of run queues in which each is picked from, and the next one has the cursor
  the pick left. Tasks may come, go and change state in between.
\<close>

definition schedule :: "(nat \<Rightarrow> run_queue) \<Rightarrow> (nat \<Rightarrow> nat) \<Rightarrow> bool" where
  "schedule rqs picks \<longleftrightarrow> (\<forall>n. rq_inv (rqs n) \<and> fst (rq_pick_next (rqs n)) = Some (picks n)
     \<and> cursor (rqs (Suc n)) = cursor (snd (rq_pick_next (rqs n))))"

lemma dist_cursor: "cursor rq = cursor rq' \<Longrightarrow> dist rq i = dist rq' i"
  by (simp add: dist_def)

lemma passed_over_distance:
  assumes s: "schedule rqs picks" and r: "\<forall>n < m. ready_at (rqs n) i" and no: "\<forall>n < m. picks n \<noteq> i"
  shows "dist (rqs m) i + m \<le> dist (rqs 0) i"
  using r no
proof (induction m)
  case (Suc m)
  have p: "rq_pick_next (rqs m) = (Some (picks m), snd (rq_pick_next (rqs m)))" "rq_inv (rqs m)"
    using s unfolding schedule_def by (metis prod.collapse, blast)
  have "dist (snd (rq_pick_next (rqs m))) i < dist (rqs m) i"
    by (rule pick_next_closer[OF p(2) _ p(1)]) (use Suc.prems in auto)
  moreover have "dist (rqs (Suc m)) i = dist (snd (rq_pick_next (rqs m))) i"
    using s unfolding schedule_def by (intro dist_cursor) blast
  ultimately show ?case using Suc by simp
qed simp


text \<open>A queue with one ready task in slot 0, and what picking from it gives.\<close>

definition demo_task :: task where
  "demo_task = new_kernel 1 0x80000 0x10000 0x10000 0"

definition demo_rq :: "nat \<Rightarrow> run_queue" where
  "demo_rq c = \<lparr>tasks = Some demo_task # replicate 255 None, rq_len = 1, cursor = c\<rparr>"

lemma demo_rq_inv: "c < MAX_TASKS \<Longrightarrow> rq_inv (demo_rq c)"
  by (simp add: rq_inv_def demo_rq_def MAX_TASKS_def live_def)

lemma demo_rq_pick:
  assumes "c < MAX_TASKS"
  shows "rq_pick_next (demo_rq c) = (Some 0, demo_rq 1)"
proof -
  have r: "ready_at (demo_rq c) 0"
    by (simp add: ready_at_def MAX_TASKS_def demo_rq_def demo_task_def new_kernel_def)
  obtain k rq' where k: "rq_pick_next (demo_rq c) = (Some k, rq')" "ready_at (demo_rq c) k"
    "cursor rq' = (k + 1) mod MAX_TASKS"
    using pick_next_first[OF demo_rq_inv[OF assms] r] by blast
  have "k = 0" using k(2) by (cases k) (auto simp: ready_at_def demo_rq_def MAX_TASKS_def)
  moreover have "rq_inv rq' \<and> tasks rq' = tasks (demo_rq c)" by (rule rq_pick_next_inv[OF demo_rq_inv[OF assms] k(1)])
  ultimately have "rq' = demo_rq 1"
    using k(3) by (auto simp: demo_rq_def rq_inv_def MAX_TASKS_def live_def)
  then show ?thesis using k(1) \<open>k = 0\<close> by simp
qed


end
