(* ===== verification/Sched.thy ===== *)
theory Sched
  imports Run_Queue
begin

text \<open>
  The scheduler core (\<open>src/sched/src/lib.rs\<close>). The statics of the file are the fields of \<open>sched\<close>,
  the per-CPU ones lists indexed by the CPU number that every operation takes. A pointer to the
  context of a task in the queue is the index of its slot. \<open>arch_set_page_table\<close> and
  \<open>arch_set_kernel_stack\<close> record the value they load. \<open>cpu_switch_to\<close> transfers control and
  leaves this state alone, so the scheduler loop is split where it switches.
\<close>

definition EXIT_LOG_LEN :: nat where "EXIT_LOG_LEN = 256"
definition MAX_CPUS :: nat where "MAX_CPUS = 8"

record exit_record =
  er_pid :: pid_t
  er_code :: i32

record sched =
  rq :: run_queue
  next_pid :: pid_t
  timer_ticks :: u64
  preempt_needed :: bool
  exit_log :: "exit_record option list"
  exit_log_idx :: nat
  current_ctx :: "nat option list"
  current_pids :: "pid_t list"
  active_root :: "usize list"
  kernel_sp :: "usize list"
  mm :: mm_state

definition sched_init :: "mm_state \<Rightarrow> sched" where
  "sched_init st = \<lparr>rq = rq_new, next_pid = 1, timer_ticks = 0, preempt_needed = False,
     exit_log = replicate EXIT_LOG_LEN None, exit_log_idx = 0, current_ctx = replicate MAX_CPUS None,
     current_pids = replicate MAX_CPUS 0, active_root = replicate MAX_CPUS 0,
     kernel_sp = replicate MAX_CPUS 0, mm = st\<rparr>"

subsection \<open>Exit log, process ids and per-task fields\<close>

definition log_exit :: "pid_t \<Rightarrow> i32 \<Rightarrow> sched \<Rightarrow> sched" where
  "log_exit p code s = s\<lparr>exit_log := (exit_log s)[exit_log_idx s := Some \<lparr>er_pid = p, er_code = code\<rparr>],
     exit_log_idx := (exit_log_idx s + 1) mod EXIT_LOG_LEN\<rparr>"

fun find_exit :: "pid_t \<Rightarrow> exit_record option list \<Rightarrow> i32 option" where
  "find_exit p [] = None"
| "find_exit p (e # es) =
     (case e of Some r \<Rightarrow> if er_pid r = p then Some (er_code r) else find_exit p es | None \<Rightarrow> find_exit p es)"

definition get_exit_code :: "pid_t \<Rightarrow> sched \<Rightarrow> i32 option" where
  "get_exit_code p s = find_exit p (exit_log s)"

definition alloc_pid :: "sched \<Rightarrow> pid_t \<times> sched" where
  "alloc_pid s = (next_pid s, s\<lparr>next_pid := next_pid s + 1\<rparr>)"

definition current_pid :: "nat \<Rightarrow> sched \<Rightarrow> pid_t" where
  "current_pid cpu s = current_pids s ! cpu"

abbreviation current_task :: "nat \<Rightarrow> sched \<Rightarrow> task option" where
  "current_task cpu s \<equiv> find_pid (rq s) (current_pid cpu s)"

definition current_field :: "(task \<Rightarrow> 'a) \<Rightarrow> 'a \<Rightarrow> nat \<Rightarrow> sched \<Rightarrow> 'a" where
  "current_field f d cpu s = (case current_task cpu s of None \<Rightarrow> d | Some t \<Rightarrow> f t)"

definition current_ppid :: "nat \<Rightarrow> sched \<Rightarrow> pid_t" where "current_ppid = current_field ppid 0"
definition current_pgid :: "nat \<Rightarrow> sched \<Rightarrow> pid_t" where "current_pgid = current_field pgid 0"
definition current_sid :: "nat \<Rightarrow> sched \<Rightarrow> pid_t" where "current_sid = current_field sid 0"
definition pending_signals :: "nat \<Rightarrow> sched \<Rightarrow> u64" where "pending_signals = current_field signal_pending 0"
definition current_reply_port :: "nat \<Rightarrow> sched \<Rightarrow> u32" where "current_reply_port = current_field reply_port u32_MAX"
definition sched_heap_end :: "nat \<Rightarrow> sched \<Rightarrow> usize" where "sched_heap_end = current_field task_heap_end 0"
definition get_fs_base :: "nat \<Rightarrow> sched \<Rightarrow> u64" where "get_fs_base = current_field tls_base 0"

definition ticks :: "sched \<Rightarrow> u64" where "ticks s = timer_ticks s"

text \<open>An update of the task with a given process id, if there is one.\<close>

definition on_pid :: "pid_t \<Rightarrow> (task \<Rightarrow> task) \<Rightarrow> sched \<Rightarrow> sched" where
  "on_pid p f s = s\<lparr>rq := modify_pid p f (rq s)\<rparr>"

abbreviation on_current :: "nat \<Rightarrow> (task \<Rightarrow> task) \<Rightarrow> sched \<Rightarrow> sched" where
  "on_current cpu f s \<equiv> on_pid (current_pid cpu s) f s"

definition deliver_signal :: "pid_t \<Rightarrow> u32 \<Rightarrow> sched \<Rightarrow> isize \<times> sched" where
  "deliver_signal p signo s =
     (case find_pid (rq s) p of
        None \<Rightarrow> (-3, s)
      | Some _ \<Rightarrow>
          if signo > 0 \<and> signo \<le> 64
          then (0, on_pid p (\<lambda>t. (t\<lparr>signal_pending := signal_pending t OR push_bit (unat (signo - 1)) 1\<rparr>)
                     \<lparr>tstate := (if tstate t = Blocked then Ready else tstate t)\<rparr>) s)
          else (-22, s))"

definition clear_pending_signal :: "nat \<Rightarrow> u32 \<Rightarrow> sched \<Rightarrow> sched" where
  "clear_pending_signal cpu signo s =
     (if signo > 0 \<and> signo \<le> 64
      then on_current cpu (\<lambda>t. t\<lparr>signal_pending := signal_pending t AND NOT (push_bit (unat (signo - 1)) 1)\<rparr>) s
      else s)"

definition replace_signal_mask :: "nat \<Rightarrow> u64 \<Rightarrow> sched \<Rightarrow> u64 \<times> sched" where
  "replace_signal_mask cpu new_mask s =
     (case current_task cpu s of
        Some t \<Rightarrow> (signal_mask t, on_current cpu (\<lambda>t. t\<lparr>signal_mask := new_mask\<rparr>) s)
      | None \<Rightarrow> (0, s))"

definition set_current_reply_port :: "nat \<Rightarrow> u32 \<Rightarrow> sched \<Rightarrow> sched" where
  "set_current_reply_port cpu port s = on_current cpu (\<lambda>t. t\<lparr>reply_port := port\<rparr>) s"

definition current_cwd :: "nat \<Rightarrow> usize \<Rightarrow> nat \<Rightarrow> sched \<Rightarrow> isize \<times> sched" where
  "current_cwd cpu ptr max_len s =
     (case current_task cpu s of
        Some t \<Rightarrow>
          (let len = min (cwd_len t) max_len
           in (int len, s\<lparr>mm := (mm s)\<lparr>ram := write_bytes (ram (mm s)) ptr (take len (cwd t))\<rparr>\<rparr>))
      | None \<Rightarrow> (-1, s))"

definition set_cwd :: "nat \<Rightarrow> u8 list \<Rightarrow> sched \<Rightarrow> bool \<times> sched" where
  "set_cwd cpu path s =
     (case current_task cpu s of
        Some _ \<Rightarrow>
          (let len = min (length path) 127
           in (True, on_current cpu (\<lambda>t. t\<lparr>cwd := take len path @ drop len (cwd t), cwd_len := len\<rparr>) s))
      | None \<Rightarrow> (False, s))"

definition set_pgid :: "pid_t \<Rightarrow> pid_t \<Rightarrow> sched \<Rightarrow> bool \<times> sched" where
  "set_pgid p g s = (find_pid (rq s) p \<noteq> None, on_pid p (\<lambda>t. t\<lparr>pgid := g\<rparr>) s)"

definition setsid :: "nat \<Rightarrow> sched \<Rightarrow> pid_t \<times> sched" where
  "setsid cpu s =
     (let p = current_pid cpu s
      in (if find_pid (rq s) p \<noteq> None then p else 0, on_pid p (\<lambda>t. t\<lparr>sid := p, pgid := p\<rparr>) s))"

definition umask :: "nat \<Rightarrow> u32 \<Rightarrow> sched \<Rightarrow> u32 \<times> sched" where
  "umask cpu new_mask s =
     (case current_task cpu s of
        Some t \<Rightarrow> (umask_bits t, if new_mask \<noteq> u32_MAX then on_current cpu (\<lambda>t. t\<lparr>umask_bits := new_mask AND 0x1FF\<rparr>) s else s)
      | None \<Rightarrow> (0, s))"

definition set_clear_child_tid :: "nat \<Rightarrow> usize \<Rightarrow> sched \<Rightarrow> sched" where
  "set_clear_child_tid cpu tidptr s = on_current cpu (\<lambda>t. t\<lparr>clear_child_tid := tidptr\<rparr>) s"

definition set_fs_base :: "nat \<Rightarrow> u64 \<Rightarrow> sched \<Rightarrow> sched" where
  "set_fs_base cpu addr s = on_current cpu (\<lambda>t. t\<lparr>tls_base := addr, ctx := (ctx t)\<lparr>tpidr_el0 := addr\<rparr>\<rparr>) s"

subsection \<open>Waiting, timers, faults\<close>

text \<open>The task dropped by \<open>RunQueue::remove\<close> takes its address space with it.\<close>

definition drop_task :: "task option \<Rightarrow> mm_state \<Rightarrow> mm_state panicking" where
  "drop_task t st = (case t of None \<Rightarrow> Some st
     | Some t \<Rightarrow> (case tas t of None \<Rightarrow> Some st | Some a \<Rightarrow> as_drop a st))"

definition remove_task :: "nat \<Rightarrow> sched \<Rightarrow> sched panicking" where
  "remove_task idx s =
     (let (t, q) = rq_remove idx (rq s)
      in map_option (\<lambda>st. s\<lparr>rq := q, mm := st\<rparr>) (drop_task t (mm s)))"

text \<open>One turn of the loop of \<open>wait_pid\<close>: \<open>None\<close> inside means that it yields and looks again.\<close>

definition wait_pid_turn :: "pid_t \<Rightarrow> sched \<Rightarrow> (i32 option option \<times> sched) panicking" where
  "wait_pid_turn p s =
     (case find_pid_idx (rq s) p of
        Some idx \<Rightarrow>
          (let t = the (rq_get (rq s) idx)
           in if tstate t = Zombie
              then map_option (\<lambda>s'. (Some (Some (exit_code t)), s')) (remove_task idx s)
              else Some (None, s))
      | None \<Rightarrow> Some (Some (get_exit_code p s), s))"

definition yields :: "nat \<Rightarrow> sched \<Rightarrow> bool" where
  "yields cpu s \<longleftrightarrow> current_ctx s ! cpu \<noteq> None"

definition timer_tick_irq :: "sched \<Rightarrow> sched" where
  "timer_tick_irq s = s\<lparr>timer_ticks := timer_ticks s + 1, preempt_needed := True\<rparr>"

definition preempt_check :: "nat \<Rightarrow> sched \<Rightarrow> bool \<times> sched" where
  "preempt_check cpu s = (preempt_needed s \<and> yields cpu s, s\<lparr>preempt_needed := False\<rparr>)"

definition handle_page_fault :: "arch_paging \<Rightarrow> nat \<Rightarrow> usize \<Rightarrow> sched \<Rightarrow> (bool \<times> sched) panicking" where
  "handle_page_fault ar cpu addr s =
     (if current_pid cpu s = 0 then Some (False, s)
      else case Option.bind (current_task cpu s) tas of
             None \<Rightarrow> Some (False, s)
           | Some a \<Rightarrow>
               map_option (\<lambda>(ok, a', st'). (ok, (on_current cpu (\<lambda>t. t\<lparr>tas := Some a'\<rparr>) s)\<lparr>mm := st'\<rparr>))
                 (as_page_fault ar a addr (mm s)))"

definition sched_unblock_port :: "u32 \<Rightarrow> sched \<Rightarrow> sched" where
  "sched_unblock_port port s = s\<lparr>rq := rq_unblock_port port (rq s)\<rparr>"

text \<open>\<open>block_on_port\<close> up to its yield.\<close>

definition block_on_port :: "nat \<Rightarrow> u32 \<Rightarrow> sched \<Rightarrow> sched" where
  "block_on_port cpu port s = s\<lparr>rq := rq_block_on_port (current_pid cpu s) port (rq s)\<rparr>"

text \<open>\<open>exit\<close> up to its yield; the loop after it is never left.\<close>

definition sched_exit :: "nat \<Rightarrow> i32 \<Rightarrow> sched \<Rightarrow> sched" where
  "sched_exit cpu code s = on_current cpu (\<lambda>t. t\<lparr>tstate := Zombie, exit_code := code\<rparr>) s"

subsection \<open>Spawning\<close>

definition STACK_SIZE :: usize where "STACK_SIZE = PAGE_SIZE * 16"

definition spawn :: "usize \<Rightarrow> sched \<Rightarrow> (pid_t option \<times> sched) panicking" where
  "spawn entry s0 =
     (let (p, s) = alloc_pid s0
      in do {
        (r, st1) \<leftarrow> mm_alloc 4 (mm s);
        case r of
          None \<Rightarrow> Some (None, s\<lparr>mm := st1\<rparr>)
        | Some stack_base \<Rightarrow>
            (let (ok, q) = rq_enqueue (new_kernel p entry stack_base STACK_SIZE 0) (rq s)
             in if ok then Some (Some p, s\<lparr>rq := q, mm := st1\<rparr>)
                else do { st2 \<leftarrow> mm_free stack_base 4 st1; Some (None, s\<lparr>mm := st2\<rparr>) })
      })"

text \<open>A task that does not fit is dropped with its address space.\<close>

definition spawn_user_with_address_space :: "usize \<Rightarrow> usize \<Rightarrow> usize \<Rightarrow> address_space \<Rightarrow> sched \<Rightarrow> (pid_t option \<times> sched) panicking" where
  "spawn_user_with_address_space ret_to_user entry_point sp as s0 =
     (let (p, s) = alloc_pid s0
      in do {
        (r, st1) \<leftarrow> mm_alloc 4 (mm s);
        case r of
          None \<Rightarrow> do { st2 \<leftarrow> as_drop as st1; Some (None, s\<lparr>mm := st2\<rparr>) }
        | Some stack_phys \<Rightarrow>
            (let stack_virt = phys_to_virt st1 stack_phys;
                 (t0, st2) = new_userspace ret_to_user p entry_point sp stack_virt STACK_SIZE (page_table_root as) st1;
                 t = t0\<lparr>kernel_stack := stack_phys, tas := Some as\<rparr>;
                 (ok, q) = rq_enqueue t (rq s)
             in if ok then Some (Some p, s\<lparr>rq := q, mm := st2\<rparr>)
                else do {
                  st3 \<leftarrow> as_drop as st2;
                  st4 \<leftarrow> mm_free stack_phys 4 st3;
                  Some (None, s\<lparr>mm := st4\<rparr>)
                })
      })"

text \<open>\<open>replace_address_space\<close>: the assignment drops the old address space; control then leaves for user mode.\<close>

definition replace_address_space :: "nat \<Rightarrow> address_space \<Rightarrow> usize \<Rightarrow> usize \<Rightarrow> sched \<Rightarrow> sched panicking" where
  "replace_address_space cpu new_as pt_root hs s =
     (case current_task cpu s of
        None \<Rightarrow> map_option (\<lambda>st. s\<lparr>mm := st, active_root := (active_root s)[cpu := pt_root]\<rparr>) (as_drop new_as (mm s))
      | Some t \<Rightarrow> do {
          st \<leftarrow> (case tas t of None \<Rightarrow> Some (mm s) | Some old \<Rightarrow> as_drop old (mm s));
          Some ((on_current cpu (\<lambda>t. t\<lparr>tas := Some new_as, page_table := pt_root,
                   task_heap_start := hs, task_heap_end := hs\<rparr>) s)
                \<lparr>mm := st, active_root := (active_root s)[cpu := pt_root]\<rparr>)
        })"

definition with_current_address_space :: "nat \<Rightarrow> (address_space \<Rightarrow> 'r) \<Rightarrow> sched \<Rightarrow> 'r option" where
  "with_current_address_space cpu f s = map_option f (Option.bind (current_task cpu s) tas)"

definition with_current_address_space_mut :: "nat \<Rightarrow> (address_space \<Rightarrow> mm_state \<Rightarrow> ('r \<times> address_space \<times> mm_state) panicking)
    \<Rightarrow> sched \<Rightarrow> ('r option \<times> sched) panicking" where
  "with_current_address_space_mut cpu f s =
     (case Option.bind (current_task cpu s) tas of
        None \<Rightarrow> Some (None, s)
      | Some a \<Rightarrow> map_option (\<lambda>(r, a', st'). (Some r, (on_current cpu (\<lambda>t. t\<lparr>tas := Some a'\<rparr>) s)\<lparr>mm := st'\<rparr>)) (f a (mm s)))"

subsection \<open>The scheduler loop\<close>

text \<open>
  One turn of \<open>scheduler_run_loop\<close>, in the pieces between which the queue lock is released: pick a
  slot, load it into the CPU, mark it Running and switch; after the task switches back, unload it,
  mark it Ready, and reap it when it is a zombie. The exit hook works on the scheduler and on
  the state of whoever registered it.
\<close>

definition sched_pick :: "sched \<Rightarrow> nat option \<times> sched" where
  "sched_pick s = (let (r, q) = rq_pick_next (rq s) in (r, s\<lparr>rq := q\<rparr>))"

definition sched_load :: "nat \<Rightarrow> nat \<Rightarrow> sched \<Rightarrow> sched panicking" where
  "sched_load cpu idx s =
     (case rq_get (rq s) idx of
        None \<Rightarrow> None
      | Some t \<Rightarrow> Some (s\<lparr>current_ctx := (current_ctx s)[cpu := Some idx], current_pids := (current_pids s)[cpu := pid t]\<rparr>))"

definition sched_mark :: "nat \<Rightarrow> nat \<Rightarrow> task \<Rightarrow> sched \<Rightarrow> sched" where
  "sched_mark cpu idx t s =
     s\<lparr>rq := modify_idx idx (\<lambda>t. t\<lparr>tstate := Running\<rparr>) (rq s),
       kernel_sp := (kernel_sp s)[cpu := phys_to_virt (mm s) (kernel_stack t) + STACK_SIZE],
       active_root := (if page_table t \<noteq> 0 then (active_root s)[cpu := page_table t] else active_root s)\<rparr>"

definition sched_unload :: "nat \<Rightarrow> nat \<Rightarrow> sched \<Rightarrow> sched" where
  "sched_unload cpu idx s =
     s\<lparr>active_root := (active_root s)[cpu := 0], current_ctx := (current_ctx s)[cpu := None],
       current_pids := (current_pids s)[cpu := 0],
       rq := modify_idx idx (\<lambda>t. if tstate t = Running then t\<lparr>tstate := Ready\<rparr> else t) (rq s)\<rparr>"

definition sched_reap :: "(pid_t \<Rightarrow> sched \<times> 'x \<Rightarrow> sched \<times> 'x) option \<Rightarrow> nat \<Rightarrow> sched \<times> 'x \<Rightarrow> (sched \<times> 'x) panicking" where
  "sched_reap hook idx sx =
     (case rq_get (rq (fst sx)) idx of
        None \<Rightarrow> Some sx
      | Some t \<Rightarrow>
          if tstate t = Zombie
          then (let (s1, x1) = (case hook of None \<Rightarrow> sx | Some h \<Rightarrow> h (pid t) sx)
                in do {
                  s2 \<leftarrow> remove_task idx s1;
                  st \<leftarrow> mm_free (kernel_stack t) 4 (mm s2);
                  Some (log_exit (pid t) (exit_code t) (s2\<lparr>mm := st\<rparr>), x1)
                })
          else Some sx)"

end
