(* ===== verification/Futex.thy ===== *)
theory Futex
  imports Sched
begin

text \<open>
  Futexes (\<open>src/sched/src/futex.rs\<close>): a table of 256 waiters keyed by user address. \<open>futex_wait\<close> is
  split at its context switch into the part that registers and blocks and the part that runs
  after the task has been woken.
\<close>

record futex_waiter =
  fw_pid :: pid_t
  fw_uaddr :: usize

definition MAX_FUTEX_WAITERS :: nat where "MAX_FUTEX_WAITERS = 256"

type_synonym futex_table = "futex_waiter option list"

definition futex_table_init :: futex_table where
  "futex_table_init = replicate MAX_FUTEX_WAITERS None"

definition futex_register :: "pid_t \<Rightarrow> usize \<Rightarrow> futex_table \<Rightarrow> futex_table" where
  "futex_register p uaddr tbl =
     (case position (\<lambda>s. s = None) tbl of
        None \<Rightarrow> tbl
      | Some i \<Rightarrow> tbl[i := Some \<lparr>fw_pid = p, fw_uaddr = uaddr\<rparr>])"

definition is_waiter :: "(futex_waiter \<Rightarrow> bool) \<Rightarrow> futex_waiter option \<Rightarrow> bool" where
  "is_waiter P s = (case s of None \<Rightarrow> False | Some w \<Rightarrow> P w)"

lemma is_waiter_simps [simp]: "is_waiter P None = False" "is_waiter P (Some w) = P w"
  by (simp_all add: is_waiter_def)

definition futex_wait_enter :: "nat \<Rightarrow> usize \<Rightarrow> sched \<times> futex_table \<Rightarrow> sched \<times> futex_table" where
  "futex_wait_enter cpu uaddr = (\<lambda>(s, tbl).
     (let p = current_pid cpu s;
          s1 = on_pid p (\<lambda>t. t\<lparr>tstate := Blocked, blocked_futex := uaddr\<rparr>) s;
          s2 = (if current_ctx s1 ! cpu \<noteq> None then s1\<lparr>active_root := (active_root s1)[cpu := 0]\<rparr> else s1)
      in (s2, futex_register p uaddr tbl)))"

definition futex_wait_leave :: "nat \<Rightarrow> pid_t \<Rightarrow> sched \<times> futex_table \<Rightarrow> isize \<times> sched \<times> futex_table" where
  "futex_wait_leave cpu p = (\<lambda>(s, tbl).
     (let tbl1 = (case position (is_waiter (\<lambda>w. fw_pid w = p)) tbl of None \<Rightarrow> tbl | Some i \<Rightarrow> tbl[i := None])
      in (0, on_pid p (\<lambda>t. t\<lparr>blocked_futex := 0\<rparr>) s, tbl1)))"

text \<open>\<open>futex_wake\<close>: at most \<open>n\<close>, and at most 32, waiters leave the table; then their tasks are made Ready.\<close>

fun futex_collect :: "usize \<Rightarrow> nat \<Rightarrow> nat \<Rightarrow> futex_table \<Rightarrow> pid_t list \<times> futex_table" where
  "futex_collect uaddr n count [] = ([], [])"
| "futex_collect uaddr n count (slot # slots) =
     (if n \<le> count then ([], slot # slots)
      else case slot of
             Some w \<Rightarrow>
               if fw_uaddr w = uaddr \<and> count < 32
               then (let (ps, slots') = futex_collect uaddr n (Suc count) slots in (fw_pid w # ps, None # slots'))
               else (let (ps, slots') = futex_collect uaddr n count slots in (ps, slot # slots'))
           | None \<Rightarrow> (let (ps, slots') = futex_collect uaddr n count slots in (ps, slot # slots')))"

fun futex_wake_pids :: "pid_t list \<Rightarrow> sched \<Rightarrow> u32 \<times> sched" where
  "futex_wake_pids [] s = (0, s)"
| "futex_wake_pids (p # ps) s =
     (case find_pid (rq s) p of
        Some t \<Rightarrow>
          if tstate t = Blocked
          then (let (n, s') = futex_wake_pids ps (on_pid p (\<lambda>t. t\<lparr>tstate := Ready, blocked_futex := 0\<rparr>) s) in (n + 1, s'))
          else futex_wake_pids ps s
      | None \<Rightarrow> futex_wake_pids ps s)"

definition futex_wake :: "usize \<Rightarrow> u32 \<Rightarrow> sched \<times> futex_table \<Rightarrow> u32 \<times> sched \<times> futex_table" where
  "futex_wake uaddr n = (\<lambda>(s, tbl).
     (let (ps, tbl') = futex_collect uaddr (unat n) 0 tbl;
          (woken, s') = futex_wake_pids ps s
      in (woken, s', tbl')))"

end
