(* ===== verification/Signal.thy ===== *)
theory Signal
  imports Sched
begin

text \<open>
  Signal delivery (\<open>src/sched/src/signal.rs\<close>) in the AArch64 configuration. The register frame that
  \<open>frame_ptr\<close> points to on the kernel stack is an argument (\<open>None\<close> for a null pointer) and part of the
  result; the signal frame on the user stack is written to memory.
\<close>

definition SA_RESTORER :: u32 where "SA_RESTORER = 0x04000000"
definition SA_NODEFER :: u32 where "SA_NODEFER = 0x40000000"
definition SA_RESETHAND :: u32 where "SA_RESETHAND = 0x80000000"

definition SIGDFL_IGNORE :: u64 where
  "SIGDFL_IGNORE = push_bit 16 1 OR push_bit 22 1 OR push_bit 27 1"

definition SIGSEGV :: nat where "SIGSEGV = 11"

definition SIGMASK_OFFSET :: nat where "SIGMASK_OFFSET = 168"
definition REGS_OFFSET :: nat where "REGS_OFFSET = 304"
definition SP_OFFSET :: nat where "SP_OFFSET = 552"
definition PC_OFFSET :: nat where "PC_OFFSET = 560"
definition PSTATE_OFFSET :: nat where "PSTATE_OFFSET = 568"
definition SIGFRAME_SIZE :: usize where "SIGFRAME_SIZE = 4672"

definition store32 :: "memory \<Rightarrow> usize \<Rightarrow> u32 \<Rightarrow> memory" where
  "store32 m p v = (\<lambda>x. if x - p < 4 then byte_of (ucast v) (unat (x - p)) else m x)"

fun store_regs :: "usize \<Rightarrow> nat \<Rightarrow> u64 list \<Rightarrow> memory \<Rightarrow> memory" where
  "store_regs fp i [] m = m"
| "store_regs fp i (x # xs) m = store_regs fp (Suc i) xs (store64 m (fp + of_nat (REGS_OFFSET + i * 8)) x)"

definition load_regs :: "memory \<Rightarrow> usize \<Rightarrow> u64 list" where
  "load_regs m fp = map (\<lambda>i. load64 m (fp + of_nat (REGS_OFFSET + i * 8))) [0..<31]"

text \<open>\<open>aarch64::prepare\<close>. The frame is written through its physical address.\<close>

definition sig_prepare :: "nat \<Rightarrow> user_frame \<Rightarrow> nat \<Rightarrow> usize \<Rightarrow> usize \<Rightarrow> u64 \<Rightarrow> sched \<Rightarrow> bool \<times> user_frame \<times> sched" where
  "sig_prepare cpu uf sig hdl rest old_mask s =
     (case checked_sub (sp_el0 uf) SIGFRAME_SIZE of
        None \<Rightarrow> (False, uf, s)
      | Some p \<Rightarrow>
          (let new_sp = p AND NOT 15
           in if new_sp = 0 \<or> new_sp \<ge> 0x0000800000000000 then (False, uf, s)
              else case Option.bind (Option.bind (current_task cpu s) tas) (\<lambda>a. as_virt_to_phys a new_sp) of
                     None \<Rightarrow> (False, uf, s)
                   | Some fp \<Rightarrow>
                       (let m0 = fill_bytes (ram (mm s)) fp 0 SIGFRAME_SIZE;
                            m1 = store32 m0 fp (of_nat sig);
                            m2 = store64 m1 (fp + of_nat SIGMASK_OFFSET) old_mask;
                            m3 = store64 m2 (fp + 296) 0;
                            m4 = store_regs fp 0 (uf_x uf) m3;
                            m5 = store64 m4 (fp + of_nat SP_OFFSET) (sp_el0 uf);
                            m6 = store64 m5 (fp + of_nat PC_OFFSET) (elr_el1 uf);
                            m7 = store64 m6 (fp + of_nat PSTATE_OFFSET) (spsr_el1 uf);
                            uf' = uf\<lparr>uf_x := (uf_x uf)[0 := of_nat sig, 1 := new_sp, 2 := new_sp + 128, 30 := rest],
                                     elr_el1 := hdl, sp_el0 := new_sp\<rparr>
                        in (True, uf', s\<lparr>mm := (mm s)\<lparr>ram := m7\<rparr>\<rparr>))))"

text \<open>\<open>aarch64::restore\<close>; a bad frame ends the task (\<open>None\<close> for the frame).\<close>

definition sig_restore :: "nat \<Rightarrow> user_frame \<Rightarrow> pid_t \<Rightarrow> sched \<Rightarrow> user_frame option \<times> sched" where
  "sig_restore cpu uf p s =
     (case Option.bind (Option.bind (find_pid (rq s) p) tas) (\<lambda>a. as_virt_to_phys a (sp_el0 uf)) of
        None \<Rightarrow> (None, sched_exit cpu (128 + 11) s)
      | Some fp \<Rightarrow>
          (let m = ram (mm s);
               uf' = uf\<lparr>uf_x := load_regs m fp, sp_el0 := load64 m (fp + of_nat SP_OFFSET),
                        elr_el1 := load64 m (fp + of_nat PC_OFFSET),
                        spsr_el1 := load64 m (fp + of_nat PSTATE_OFFSET)\<rparr>
           in (Some uf', on_pid p (\<lambda>t. t\<lparr>signal_mask := load64 m (fp + of_nat SIGMASK_OFFSET)\<rparr>) s)))"

definition restore_signal_frame :: "nat \<Rightarrow> user_frame option \<Rightarrow> sched \<Rightarrow> user_frame option \<times> sched" where
  "restore_signal_frame cpu fr s =
     (case fr of
        None \<Rightarrow> (None, s)
      | Some uf \<Rightarrow> if current_pid cpu s = 0 then (Some uf, s) else sig_restore cpu uf (current_pid cpu s) s)"

text \<open>What delivery ends with: back to the program, into a handler, or termination with a code.\<close>

datatype delivery = Resume | Handler nat | Terminate i32

definition accept_signal :: "nat \<Rightarrow> sig_action \<Rightarrow> task \<Rightarrow> task" where
  "accept_signal b act t =
     (let t1 = t\<lparr>signal_pending := signal_pending t AND NOT (push_bit b 1)\<rparr>;
          t2 = (if sa_flags act AND SA_NODEFER = 0
                then t1\<lparr>signal_mask := signal_mask t1 OR (push_bit b 1 OR sa_mask act)\<rparr> else t1)
      in if sa_flags act AND SA_RESETHAND \<noteq> 0
         then t2\<lparr>signal_actions := (signal_actions t2)[b := ((signal_actions t2) ! b)\<lparr>handler := 0\<rparr>]\<rparr> else t2)"

text \<open>
  The loop of \<open>check_and_deliver_signals\<close>. Every turn clears a pending bit, so 65 turns are enough
  (\<open>deliver_fuel_enough\<close>). The outer \<open>None\<close> is an index past the end of \<open>signal_actions\<close>.
\<close>

fun deliver_loop :: "nat \<Rightarrow> nat \<Rightarrow> pid_t \<Rightarrow> user_frame \<Rightarrow> sched \<Rightarrow> (delivery \<times> user_frame \<times> sched) option panicking" where
  "deliver_loop 0 cpu p uf s = Some None"
| "deliver_loop (Suc fuel) cpu p uf s =
     (case find_pid (rq s) p of
        None \<Rightarrow> Some (Some (Resume, uf, s))
      | Some t \<Rightarrow>
          (let unmasked = signal_pending t AND NOT (signal_mask t)
           in if unmasked = 0 then Some (Some (Resume, uf, s))
              else let b = trailing_zeros unmasked; sig = b + 1
                   in if length (signal_actions t) \<le> b then None
                      else let act = signal_actions t ! b; old_mask = signal_mask t;
                               s1 = on_pid p (accept_signal b act) s
                           in if handler act = 0
                              then (if SIGDFL_IGNORE AND push_bit b 1 \<noteq> 0 then deliver_loop fuel cpu p uf s1
                                    else Some (Some (Terminate (128 + int sig), uf, sched_exit cpu (128 + int sig) s1)))
                              else if handler act = 1 then deliver_loop fuel cpu p uf s1
                              else let rest = (if sa_flags act AND SA_RESTORER \<noteq> 0 then restorer act else 0);
                                       (ok, uf', s2) = sig_prepare cpu uf sig (handler act) rest old_mask s1
                                   in if ok then Some (Some (Handler sig, uf', s2))
                                      else Some (Some (Terminate (128 + int SIGSEGV), uf', sched_exit cpu (128 + int SIGSEGV) s2))))"

definition check_and_deliver_signals :: "nat \<Rightarrow> user_frame option \<Rightarrow> sched \<Rightarrow> (delivery \<times> user_frame option \<times> sched) option panicking" where
  "check_and_deliver_signals cpu fr s =
     (case fr of
        None \<Rightarrow> Some (Some (Resume, None, s))
      | Some uf \<Rightarrow>
          if current_pid cpu s = 0 then Some (Some (Resume, Some uf, s))
          else map_option (map_option (\<lambda>(d, uf', s'). (d, Some uf', s'))) (deliver_loop 65 cpu (current_pid cpu s) uf s))"

text \<open>
  The two system calls. User pointers are dereferenced as they are: \<open>load_act\<close> and \<open>store_act\<close> are the
  layout of \<open>SigAction\<close>, which Rust leaves to the compiler.
\<close>

definition sys_sigaction :: "(memory \<Rightarrow> usize \<Rightarrow> sig_action) \<Rightarrow> (memory \<Rightarrow> usize \<Rightarrow> sig_action \<Rightarrow> memory)
    \<Rightarrow> nat \<Rightarrow> u32 \<Rightarrow> usize \<Rightarrow> usize \<Rightarrow> sched \<Rightarrow> (isize \<times> sched) panicking" where
  "sys_sigaction load_act store_act cpu signum act_ptr oldact_ptr s =
     (case current_task cpu s of
        None \<Rightarrow> Some (-3, s)
      | Some t \<Rightarrow>
          (let i = unat (signum - 1)
           in if (oldact_ptr \<noteq> 0 \<or> act_ptr \<noteq> 0) \<and> length (signal_actions t) \<le> i then None
              else let s1 = (if oldact_ptr \<noteq> 0
                             then s\<lparr>mm := (mm s)\<lparr>ram := store_act (ram (mm s)) oldact_ptr (signal_actions t ! i)\<rparr>\<rparr> else s)
                   in Some (0, if act_ptr \<noteq> 0
                               then on_current cpu (\<lambda>t. t\<lparr>signal_actions := (signal_actions t)[i := load_act (ram (mm s1)) act_ptr]\<rparr>) s1
                               else s1)))"

definition sys_sigprocmask :: "nat \<Rightarrow> usize \<Rightarrow> usize \<Rightarrow> usize \<Rightarrow> sched \<Rightarrow> isize \<times> sched" where
  "sys_sigprocmask cpu how set_ptr oldset_ptr s =
     (case current_task cpu s of
        None \<Rightarrow> (-3, s)
      | Some t \<Rightarrow>
          (let s1 = (if oldset_ptr \<noteq> 0 then s\<lparr>mm := (mm s)\<lparr>ram := store64 (ram (mm s)) oldset_ptr (signal_mask t)\<rparr>\<rparr> else s)
           in if set_ptr = 0 then (0, s1)
              else let v = load64 (ram (mm s1)) set_ptr
                   in if how = 0 then (0, on_current cpu (\<lambda>t. t\<lparr>signal_mask := signal_mask t OR v\<rparr>) s1)
                      else if how = 1 then (0, on_current cpu (\<lambda>t. t\<lparr>signal_mask := signal_mask t AND NOT v\<rparr>) s1)
                      else if how = 2 then (0, on_current cpu (\<lambda>t. t\<lparr>signal_mask := v\<rparr>) s1)
                      else (-22, s1)))"

subsection \<open>The frame on the user stack\<close>

lemma offset_apart:
  fixes b :: usize
  assumes "i + 8 \<le> j \<or> j + 8 \<le> i" "i < 2 ^ 32" "j < 2 ^ 32" "k < 8"
  shows "\<not> b + of_nat j + of_nat k - (b + of_nat i) < 8"
proof -
  have eq: "b + of_nat j + of_nat k - (b + of_nat i) = (of_nat (j + k) - of_nat i :: usize)" by (simp add: algebra_simps)
  show ?thesis
  proof (cases "i \<le> j + k")
    case True
    then have "(of_nat (j + k) - of_nat i :: usize) = of_nat (j + k - i)" by (simp add: of_nat_diff)
    moreover have "unat (of_nat (j + k - i) :: usize) = j + k - i"
      using assms by (simp add: unsigned_of_nat take_bit_nat_eq_self)
    ultimately show ?thesis unfolding eq word_less_nat_alt using assms True by auto
  next
    case False
    have u: "unat (of_nat (j + k) :: usize) = j + k" "unat (of_nat i :: usize) = i"
      using assms by (simp_all only: unsigned_of_nat) (simp_all add: take_bit_nat_eq_self)
    have "unat (of_nat (j + k) - of_nat i :: usize) = 2 ^ 64 + (j + k) - i"
      using False u by (simp add: unat_sub_if_size word_le_nat_alt word_size)
    then show ?thesis unfolding eq word_less_nat_alt using assms False by auto
  qed
qed

lemma load64_store64_off:
  assumes "i + 8 \<le> j \<or> j + 8 \<le> i" "i < 2 ^ 32" "j < 2 ^ 32"
  shows "load64 (store64 m (b + of_nat i) v) (b + of_nat j) = load64 m (b + of_nat j)"
  by (rule load64_cong) (simp only: store64_def offset_apart[OF assms] if_False)

lemma store_regs_other:
  assumes "j + 8 \<le> REGS_OFFSET + i * 8 \<or> REGS_OFFSET + (i + length xs) * 8 \<le> j" "i + length xs < 1000" "j < 10000"
  shows "load64 (store_regs b i xs m) (b + of_nat j) = load64 m (b + of_nat j)"
  using assms
proof (induction xs arbitrary: i m)
  case (Cons x xs)
  have "load64 (store_regs b (Suc i) xs (store64 m (b + of_nat (REGS_OFFSET + i * 8)) x)) (b + of_nat j)
      = load64 (store64 m (b + of_nat (REGS_OFFSET + i * 8)) x) (b + of_nat j)"
    by (rule Cons.IH) (use Cons.prems in auto)
  also have "\<dots> = load64 m (b + of_nat j)"
    by (rule load64_store64_off) (use Cons.prems in \<open>auto simp: REGS_OFFSET_def\<close>)
  finally show ?case by simp
qed simp

lemma store_regs_nth:
  assumes "k < length xs" "i + length xs < 1000"
  shows "load64 (store_regs b i xs m) (b + of_nat (REGS_OFFSET + (i + k) * 8)) = xs ! k"
  using assms
proof (induction xs arbitrary: i m k)
  case (Cons x xs)
  show ?case
  proof (cases k)
    case 0
    have "load64 (store_regs b (Suc i) xs (store64 m (b + of_nat (REGS_OFFSET + i * 8)) x)) (b + of_nat (REGS_OFFSET + i * 8)) = x"
      by (subst store_regs_other) (use Cons.prems in \<open>auto simp: REGS_OFFSET_def\<close>)
    then show ?thesis using 0 by simp
  next
    case (Suc l)
    then show ?thesis using Cons.IH[of l "Suc i"] Cons.prems by simp
  qed
qed simp

lemma on_pid_mm [simp]: "mm (on_pid p f s) = mm s" "current_pids (on_pid p f s) = current_pids s"
  by (simp_all add: on_pid_def)

lemma find_task_modify:
  assumes "\<And>t. pid (f t) = pid t"
  shows "find_task q (modify_task p f ts) = map_option (\<lambda>t. if q = p then f t else t) (find_task q ts)"
  by (induction ts) (auto simp: assms option.map_ident split: option.splits)

lemma find_pid_on_pid:
  assumes "\<And>t. pid (f t) = pid t"
  shows "find_pid (rq (on_pid p f s)) q = map_option (\<lambda>t. if q = p then f t else t) (find_pid (rq s) q)"
  by (simp add: find_pid_def on_pid_def modify_pid_def find_task_modify[OF assms])

text \<open>
  C9. A signal handler is transparent: when a frame is prepared for a handler on the user stack and
  the handler returns through \<open>rt_sigreturn\<close> with the stack pointer and the frame as it got them, the
  program continues with every register, program counter, processor state and stack pointer it
  had, and with the signal mask it had before the handler.
\<close>

theorem sigreturn_restores_context:
  assumes prep: "sig_prepare cpu uf sig hdl rest old_mask s = (True, uf', s')"
    and regs: "length (uf_x uf) = 31" and cur: "current_pid cpu s \<noteq> 0"
  shows "\<exists>s''. restore_signal_frame cpu (Some uf') s' = (Some uf, s'')
    \<and> map_option signal_mask (current_task cpu s'') = Some old_mask"
proof -
  obtain p a fp where p: "checked_sub (sp_el0 uf) SIGFRAME_SIZE = Some p"
    "Option.bind (current_task cpu s) tas = Some a" "as_virt_to_phys a (p AND NOT 15) = Some fp"
    using prep by (auto simp: sig_prepare_def Let_def bind_eq_Some_conv split: option.splits if_splits)
  obtain t where t: "current_task cpu s = Some t" using p(2) by (auto simp: bind_eq_Some_conv)
  define m3 where "m3 = store64 (store64 (store32 (fill_bytes (ram (mm s)) fp 0 SIGFRAME_SIZE) fp (of_nat sig))
    (fp + of_nat SIGMASK_OFFSET) old_mask) (fp + of_nat 296) 0"
  define m7 where "m7 = store64 (store64 (store64 (store_regs fp 0 (uf_x uf) m3) (fp + of_nat SP_OFFSET) (sp_el0 uf))
    (fp + of_nat PC_OFFSET) (elr_el1 uf)) (fp + of_nat PSTATE_OFFSET) (spsr_el1 uf)"
  have uf': "uf' = uf\<lparr>uf_x := (uf_x uf)[0 := of_nat sig, 1 := p AND NOT 15, 2 := (p AND NOT 15) + 128, 30 := rest],
      elr_el1 := hdl, sp_el0 := p AND NOT 15\<rparr>" and s': "s' = s\<lparr>mm := (mm s)\<lparr>ram := m7\<rparr>\<rparr>"
    using prep p by (auto simp: sig_prepare_def Let_def m7_def m3_def split: if_splits)
  note off = SIGMASK_OFFSET_def REGS_OFFSET_def SP_OFFSET_def PC_OFFSET_def PSTATE_OFFSET_def
  have ps: "load64 m7 (fp + of_nat PSTATE_OFFSET) = spsr_el1 uf" by (simp add: m7_def)
  have pc: "load64 m7 (fp + of_nat PC_OFFSET) = elr_el1 uf"
    unfolding m7_def by (subst load64_store64_off) (simp_all add: off)
  have sp: "load64 m7 (fp + of_nat SP_OFFSET) = sp_el0 uf"
    unfolding m7_def by ((subst load64_store64_off; (simp add: off; fail)?)+, simp?)
  have mk: "load64 m7 (fp + of_nat SIGMASK_OFFSET) = old_mask"
  proof -
    have "load64 m7 (fp + of_nat SIGMASK_OFFSET) = load64 (store_regs fp 0 (uf_x uf) m3) (fp + of_nat SIGMASK_OFFSET)"
      unfolding m7_def by ((subst load64_store64_off; (simp add: off; fail)?)+, simp?)
    also have "\<dots> = load64 m3 (fp + of_nat SIGMASK_OFFSET)"
      by (rule store_regs_other) (simp_all add: off regs)
    also have "\<dots> = old_mask" unfolding m3_def by (subst load64_store64_off) (simp_all add: off)
    finally show ?thesis .
  qed
  have rg: "load_regs m7 fp = uf_x uf"
  proof (rule nth_equalityI)
    show "length (load_regs m7 fp) = length (uf_x uf)" by (simp add: load_regs_def regs)
    fix i assume "i < length (load_regs m7 fp)"
    then have i: "i < 31" by (simp add: load_regs_def)
    have "load64 m7 (fp + of_nat (REGS_OFFSET + i * 8)) = load64 (store_regs fp 0 (uf_x uf) m3) (fp + of_nat (REGS_OFFSET + i * 8))"
      unfolding m7_def using i by ((subst load64_store64_off; (simp add: off; fail)?)+, simp?)
    also have "\<dots> = uf_x uf ! i" using store_regs_nth[of i "uf_x uf" 0 fp m3] i regs by simp
    finally show "load_regs m7 fp ! i = uf_x uf ! i" using i by (simp add: load_regs_def)
  qed
  have cur': "current_pid cpu s' = current_pid cpu s" "current_task cpu s' = Some t" "ram (mm s') = m7"
    using s' t by (simp_all add: current_pid_def)
  define s'' where "s'' = on_pid (current_pid cpu s) (\<lambda>t. t\<lparr>signal_mask := old_mask\<rparr>) s'"
  have tr: "Option.bind (Option.bind (find_pid (rq s') (current_pid cpu s)) tas) (\<lambda>a. as_virt_to_phys a (sp_el0 uf')) = Some fp"
    using p(2,3) s' uf' by simp
  have "restore_signal_frame cpu (Some uf') s' = sig_restore cpu uf' (current_pid cpu s) s'"
    using cur cur'(1) by (simp add: restore_signal_frame_def)
  also have "\<dots> = (Some (uf'\<lparr>uf_x := uf_x uf, sp_el0 := sp_el0 uf, elr_el1 := elr_el1 uf, spsr_el1 := spsr_el1 uf\<rparr>), s'')"
    unfolding sig_restore_def tr using ps pc sp mk rg cur'(3) by (simp add: Let_def s''_def)
  also have "\<dots> = (Some uf, s'')" using uf' by simp
  finally have "restore_signal_frame cpu (Some uf') s' = (Some uf, s'')" .
  moreover have "map_option signal_mask (current_task cpu s'') = Some old_mask"
    unfolding s''_def using find_pid_on_pid[of "\<lambda>t. t\<lparr>signal_mask := old_mask\<rparr>" "current_pid cpu s" s'] cur'
    by (simp add: current_pid_def)
  ultimately show ?thesis by blast
qed

text \<open>A machine whose CPU 0 runs process 1 with a two-page stack at \<open>0x400000\<close>.\<close>

definition demo_stack_as :: address_space where
  "demo_stack_as = \<lparr>page_table_root = 0x1000, regions = Some \<lparr>vma_start = 0x400000, vma_end = 0x402000, vma_phys = 0x9000,
     vma_flags = PF_PRESENT, lazy = False, lazy_pages = [], lazy_count = 0, prot = 3, map_flags = 34, file_cap = 0,
     file_off = 0, cow = False\<rparr> # replicate 7 None, heap_start = 0, heap_end = 0\<rparr>"

definition demo_sched :: "(task \<Rightarrow> task) \<Rightarrow> mm_state \<Rightarrow> sched" where
  "demo_sched f st = (sched_init st)\<lparr>rq := \<lparr>tasks = Some (f (demo_task\<lparr>tas := Some demo_stack_as\<rparr>)) # replicate 255 None,
     rq_len = 1, cursor = 1\<rparr>, next_pid := 2, current_pids := 1 # replicate 7 0, current_ctx := Some 0 # replicate 7 None\<rparr>"

lemma demo_sched_current:
  assumes "\<And>t. pid (f t) = pid t"
  shows "current_pid 0 (demo_sched f st) = 1" "current_task 0 (demo_sched f st) = Some (f (demo_task\<lparr>tas := Some demo_stack_as\<rparr>))"
  using assms by (simp_all add: demo_sched_def current_pid_def find_pid_def demo_task_def new_kernel_def)

definition demo_frame :: user_frame where
  "demo_frame = \<lparr>uf_x = replicate 31 7, sp_el0 = 0x402000, elr_el1 = 0x400100, spsr_el1 = 0\<rparr>"

theorem sigreturn_restores_context_witness:
  "\<exists>uf' s' s''. sig_prepare 0 demo_frame 2 0x400200 0x400300 0 (demo_sched (\<lambda>t. t) demo_mm) = (True, uf', s')
     \<and> restore_signal_frame 0 (Some uf') s' = (Some demo_frame, s'')"
proof -
  have "as_virt_to_phys demo_stack_as 0x400DC0 = Some 0x9DC0"
    by (simp add: as_virt_to_phys_def as_find_def demo_stack_as_def in_vma_def)
  then have "fst (sig_prepare 0 demo_frame 2 0x400200 0x400300 0 (demo_sched (\<lambda>t. t) demo_mm))"
    using demo_sched_current[of "\<lambda>t. t"]
    by (simp add: sig_prepare_def demo_frame_def checked_sub_def SIGFRAME_SIZE_def Let_def)
  then obtain uf' s' where e: "sig_prepare 0 demo_frame 2 0x400200 0x400300 0 (demo_sched (\<lambda>t. t) demo_mm) = (True, uf', s')"
    by (metis (full_types) prod.collapse)
  have "length (uf_x demo_frame) = 31" "current_pid 0 (demo_sched (\<lambda>t. t) demo_mm) \<noteq> 0"
    using demo_sched_current[of "\<lambda>t. t"] by (simp_all add: demo_frame_def)
  then show ?thesis using sigreturn_restores_context[OF e] e by blast
qed

subsection \<open>The delivery loop\<close>

definition pending_bits :: "task \<Rightarrow> nat" where
  "pending_bits t = card {i. i < 64 \<and> bit (signal_pending t) i}"

lemma pending_bits_le: "pending_bits t \<le> 64"
proof -
  have "pending_bits t \<le> card {i :: nat. i < 64}" unfolding pending_bits_def by (rule card_mono) auto
  then show ?thesis by simp
qed

lemma accept_signal_pending: "signal_pending (accept_signal b act t) = signal_pending t AND NOT (push_bit b 1)"
  by (simp add: accept_signal_def Let_def)

lemma accept_signal_pid [simp]: "pid (accept_signal b act t) = pid t"
  by (simp add: accept_signal_def Let_def)

lemma lowest_bit:
  fixes w :: u64
  assumes "w \<noteq> 0"
  shows "bit w (trailing_zeros w)" "trailing_zeros w < 64"
  using trailing_zeros_props(3)[OF assms] bit_imp_le_length[of w "trailing_zeros w"] by auto

lemma bit_one_shift: "b < 64 \<Longrightarrow> bit (push_bit b 1 :: u64) j \<longleftrightarrow> j = b"
  by (auto simp: bit_exp_iff possible_bit_word)

lemma accept_signal_fewer:
  assumes "b < 64" "bit (signal_pending t) b"
  shows "pending_bits (accept_signal b act t) < pending_bits t"
  unfolding pending_bits_def accept_signal_pending
proof (rule psubset_card_mono)
  show "{i. i < 64 \<and> bit (signal_pending t AND NOT (push_bit b 1)) i} \<subset> {i. i < 64 \<and> bit (signal_pending t) i}"
    using assms bit_one_shift[OF assms(1)] by (auto simp: bit_and_iff bit_not_iff simp del: push_bit_of_1)
qed simp

lemma deliver_fuel_enough:
  "find_pid (rq s) p = Some t \<Longrightarrow> pending_bits t < fuel \<Longrightarrow> deliver_loop fuel cpu p uf s \<noteq> Some None"
proof (induction fuel arbitrary: s t)
  case (Suc fuel)
  let ?u = "signal_pending t AND NOT (signal_mask t)"
  show ?case
  proof (cases "?u = 0 \<or> length (signal_actions t) \<le> trailing_zeros ?u")
    case False
    define b where "b = trailing_zeros ?u"
    have b: "b < 64" "bit (signal_pending t) b"
      using lowest_bit[of ?u] False unfolding b_def by (auto simp: bit_and_iff)
    define s1 where "s1 = on_pid p (accept_signal b (signal_actions t ! b)) s"
    have "find_pid (rq s1) p = Some (accept_signal b (signal_actions t ! b) t)"
      using find_pid_on_pid[of "accept_signal b (signal_actions t ! b)" p s p] Suc.prems(1) by (simp add: s1_def)
    moreover have "pending_bits (accept_signal b (signal_actions t ! b) t) < fuel"
      using accept_signal_fewer[OF b] Suc.prems(2) by (meson less_le_trans less_Suc_eq_le)
    ultimately have "deliver_loop fuel cpu p uf s1 \<noteq> Some None" by (rule Suc.IH)
    then show ?thesis
      using Suc.prems(1) False b_def s1_def by (auto simp: Let_def split: prod.splits)
  qed (use Suc.prems(1) in \<open>auto simp: Let_def\<close>)
qed simp

text \<open>
  C22. Signal delivery terminates: for every state and frame the loop of
  \<open>check_and_deliver_signals\<close> ends within 65 turns, with a result or (the outer None) a panic.
\<close>

theorem signal_delivery_terminates: "check_and_deliver_signals cpu fr s \<noteq> Some None"
proof (cases fr)
  case (Some uf)
  show ?thesis
  proof (cases "find_pid (rq s) (current_pid cpu s)")
    case (Some t)
    then have "deliver_loop 65 cpu (current_pid cpu s) uf s \<noteq> Some None"
      using deliver_fuel_enough[OF Some, of 65] pending_bits_le[of t] by simp
    then show ?thesis using \<open>fr = Some uf\<close> by (auto simp: check_and_deliver_signals_def)
  next
    case None
    have "deliver_loop (Suc 64) cpu (current_pid cpu s) uf s = Some (Some (Resume, uf, s))"
      unfolding deliver_loop.simps None by simp
    then show ?thesis using \<open>fr = Some uf\<close> by (simp add: check_and_deliver_signals_def del: deliver_loop.simps)
  qed
qed (simp add: check_and_deliver_signals_def)

text \<open>
  A signal that a process ignores (\<open>SIG_IGN\<close>, or by default) is put into its mask as if a handler ran,
  and nothing takes it out: after one delivery that has no other signal to handle, the bit is set.
\<close>

theorem ignored_signal_stays_blocked:
  assumes t: "current_task cpu s = Some t" and cur: "current_pid cpu s \<noteq> 0"
    and pend: "signal_pending t = push_bit b 1" "signal_mask t = 0" "b < length (signal_actions t)" "b < 64"
    and ign: "handler (signal_actions t ! b) = 1" "sa_flags (signal_actions t ! b) = 0"
  shows "\<exists>s' t'. check_and_deliver_signals cpu (Some uf) s = Some (Some (Resume, Some uf, s'))
    \<and> current_task cpu s' = Some t' \<and> bit (signal_mask t') b \<and> signal_pending t' = 0"
proof -
  let ?p = "current_pid cpu s" and ?act = "signal_actions t ! b"
  let ?u = "signal_pending t AND NOT (signal_mask t)"
  have bit: "bit ?u j \<longleftrightarrow> j = b" for j unfolding pend(1,2) using bit_one_shift[OF pend(4)] by (simp add: bit_and_iff)
  have nz: "?u \<noteq> 0" using bit[of b] by (auto simp del: push_bit_of_1)
  have tz: "trailing_zeros ?u = b" using lowest_bit(1)[OF nz] bit by blast
  define s1 where "s1 = on_pid ?p (accept_signal b ?act) s"
  have t1: "find_pid (rq s1) ?p = Some (accept_signal b ?act t)"
    using find_pid_on_pid[of "accept_signal b ?act" ?p s ?p] t by (simp add: s1_def)
  have p1: "signal_pending (accept_signal b ?act t) = 0"
    unfolding accept_signal_pending pend by (rule bit_word_eqI) (auto simp: bit_and_iff bit_not_iff simp del: push_bit_of_1)
  have m1: "bit (signal_mask (accept_signal b ?act t)) b"
    using ign bit_one_shift[OF pend(4)] by (simp add: accept_signal_def Let_def bit_or_iff del: push_bit_of_1)
  have again: "deliver_loop (Suc fuel) cpu ?p uf s1 = Some (Some (Resume, uf, s1))" for fuel
    using t1 p1 by simp
  have "deliver_loop (Suc (Suc 63)) cpu ?p uf s = deliver_loop (Suc 63) cpu ?p uf s1"
    unfolding deliver_loop.simps(2)[of "Suc 63"] t option.case Let_def tz using nz pend(3) ign
    by (simp add: s1_def del: deliver_loop.simps)
  also have "\<dots> = Some (Some (Resume, uf, s1))" by (rule again)
  finally have "deliver_loop 65 cpu ?p uf s = Some (Some (Resume, uf, s1))" by (simp del: deliver_loop.simps)
  moreover have "current_task cpu s1 = Some (accept_signal b ?act t)" using t1 by (simp add: s1_def current_pid_def)
  ultimately show ?thesis using cur p1 m1 by (auto simp: check_and_deliver_signals_def)
qed

definition demo_ignoring :: "task \<Rightarrow> task" where
  "demo_ignoring t = t\<lparr>signal_pending := 2, signal_actions := (signal_actions t)[1 := DEFAULT_SIGACTION\<lparr>handler := 1\<rparr>]\<rparr>"

theorem ignored_signal_stays_blocked_witness:
  "\<exists>s' t'. check_and_deliver_signals 0 (Some demo_frame) (demo_sched demo_ignoring demo_mm) = Some (Some (Resume, Some demo_frame, s'))
    \<and> current_task 0 s' = Some t' \<and> bit (signal_mask t') 1"
proof -
  let ?t = "demo_ignoring (demo_task\<lparr>tas := Some demo_stack_as\<rparr>)"
  have c: "current_pid 0 (demo_sched demo_ignoring demo_mm) \<noteq> 0" "current_task 0 (demo_sched demo_ignoring demo_mm) = Some ?t"
    using demo_sched_current[of demo_ignoring] by (simp_all add: demo_ignoring_def)
  show ?thesis
    using ignored_signal_stays_blocked[OF c(2,1), of 1 demo_frame]
    by (auto simp: demo_ignoring_def demo_task_def new_kernel_def DEFAULT_SIGACTION_def)
qed



end
