(* ===== verification/Cow.thy ===== *)
theory Cow
  imports Vmm
begin

text \<open>
  Cloning of an address space for \<open>fork\<close> (\<open>src/mm/src/cow.rs\<close>): a copy of every backed page into a
  fresh frame mapped under the new root. On exhaustion the partial copy is dropped.
\<close>

definition clone_vma :: "vma_region \<Rightarrow> vma_region" where
  "clone_vma r = \<lparr>vma_start = vma_start r, vma_end = vma_end r, vma_phys = 0, vma_flags = vma_flags r, lazy = lazy r,
     lazy_pages = [], lazy_count = 0, prot = prot r, map_flags = map_flags r, file_cap = file_cap r,
     file_off = file_off r, cow = cow r\<rparr>"

text \<open>The lazy pages \<open>i, i + 1, ...\<close>; the flag is False when an allocation failed.\<close>

fun clone_lazy :: "arch_paging \<Rightarrow> usize \<Rightarrow> vma_region \<Rightarrow> nat \<Rightarrow> usize list \<Rightarrow> vma_region \<Rightarrow> mm_state
    \<Rightarrow> (bool \<times> vma_region \<times> mm_state) panicking" where
  "clone_lazy ar root r i [] d st = Some (True, d, st)"
| "clone_lazy ar root r i (src_phys # ps) d st =
     (if src_phys = 0 then clone_lazy ar root r (Suc i) ps d st
      else case mm_alloc 0 st of
             None \<Rightarrow> None
           | Some (None, st1) \<Rightarrow> Some (False, d, st1)
           | Some (Some dst_phys, st1) \<Rightarrow>
               (let st2 = st1\<lparr>ram := copy_bytes (ram st1) (phys_to_virt st1 src_phys) (phys_to_virt st1 dst_phys) PAGE_SIZE\<rparr>
                in case map_page ar root (vma_start r + of_nat i * PAGE_SIZE) dst_phys (vma_flags r) st2 of
                     None \<Rightarrow> None
                   | Some (ok, st3) \<Rightarrow>
                       (let lp = (if length (lazy_pages d) \<le> i then resize (lazy_pages d) (i + 1) 0 else lazy_pages d)
                        in clone_lazy ar root r (Suc i) ps (d\<lparr>lazy_pages := lp[i := dst_phys], lazy_count := lazy_count d + 1\<rparr>) st3)))"

text \<open>The page loop for an eager area; a page that cannot be mapped is passed over.\<close>

fun clone_map_loop :: "arch_paging \<Rightarrow> usize \<Rightarrow> usize \<Rightarrow> usize \<Rightarrow> u64 \<Rightarrow> nat \<Rightarrow> nat \<Rightarrow> mm_state \<Rightarrow> mm_state panicking" where
  "clone_map_loop ar root start phys flags i 0 st = Some st"
| "clone_map_loop ar root start phys flags i (Suc n) st =
     (case map_page ar root (start + of_nat i * PAGE_SIZE) (phys + of_nat i * PAGE_SIZE) flags st of
        None \<Rightarrow> None
      | Some (ok, st') \<Rightarrow> clone_map_loop ar root start phys flags (Suc i) n st')"

definition clone_region :: "arch_paging \<Rightarrow> usize \<Rightarrow> vma_region \<Rightarrow> mm_state \<Rightarrow> (bool \<times> vma_region \<times> mm_state) panicking" where
  "clone_region ar root r st =
     (let d = clone_vma r
      in if lazy r then clone_lazy ar root r 0 (lazy_pages r) d st
         else if vma_phys r \<noteq> 0
         then (let n_pages = (vma_end r - vma_start r) div PAGE_SIZE
               in do {
                 order \<leftarrow> pages_to_order n_pages;
                 (q, st1) \<leftarrow> mm_alloc order st;
                 case q of
                   None \<Rightarrow> Some (False, d, st1)
                 | Some dst_phys \<Rightarrow> do {
                     let st2 = st1\<lparr>ram := copy_bytes (ram st1) (phys_to_virt st1 (vma_phys r))
                                       (phys_to_virt st1 dst_phys) (n_pages * PAGE_SIZE)\<rparr>;
                     st3 \<leftarrow> clone_map_loop ar root (vma_start r) dst_phys (vma_flags r) 0 (unat n_pages) st2;
                     Some (True, d\<lparr>vma_phys := dst_phys\<rparr>, st3)
                   }
               })
         else Some (True, d, st))"

fun clone_slots :: "arch_paging \<Rightarrow> usize \<Rightarrow> vma_region option list \<Rightarrow> mm_state
    \<Rightarrow> (bool \<times> vma_region option list \<times> mm_state) panicking" where
  "clone_slots ar root [] st = Some (True, [], st)"
| "clone_slots ar root (slot # slots) st =
     (case slot of
        None \<Rightarrow> do {
          (ok, ds, st') \<leftarrow> clone_slots ar root slots st;
          Some (ok, None # ds, st')
        }
      | Some r \<Rightarrow> do {
          (ok, d, st1) \<leftarrow> clone_region ar root r st;
          if ok then do {
            (ok', ds, st2) \<leftarrow> clone_slots ar root slots st1;
            Some (ok', Some d # ds, st2)
          }
          else Some (False, Some d # replicate (length slots) None, st1)
        })"

definition clone_as :: "arch_paging \<Rightarrow> address_space \<Rightarrow> usize \<Rightarrow> mm_state \<Rightarrow> (address_space option \<times> mm_state) panicking" where
  "clone_as ar src new_root st = do {
     let dst = (as_new new_root)\<lparr>heap_start := heap_start src, heap_end := heap_end src\<rparr>;
     (ok, ds, st1) \<leftarrow> clone_slots ar new_root (regions src) st;
     if ok then Some (Some (dst\<lparr>regions := ds\<rparr>), st1)
     else do { st2 \<leftarrow> as_drop (dst\<lparr>regions := ds\<rparr>) st1; Some (None, st2) }
   }"

end
