(* ===== verification/Clone.thy ===== *)
theory Clone
  imports Cow Signal Aarch64_Paging
begin

text \<open>
  \<open>fork\<close> and \<open>clone\<close> (\<open>src/sched/src/clone.rs\<close>) in the AArch64 configuration. The page-table
  architecture, the allocator of a page-table root and the address of the assembly stub
  \<open>ret_to_user_fork\<close> are parameters. Dropping a value at an early return is written out.
\<close>

type_synonym root_alloc = "mm_state \<Rightarrow> (usize \<times> mm_state) panicking"

definition CLONE_SETTLS :: usize where "CLONE_SETTLS = 0x00080000"
definition CLONE_THREAD :: usize where "CLONE_THREAD = 0x00010000"
definition CLONE_CHILD_SETTID :: usize where "CLONE_CHILD_SETTID = 0x01000000"
definition CLONE_CHILD_CLEARTID :: usize where "CLONE_CHILD_CLEARTID = 0x00200000"

definition stack_pages :: nat where "stack_pages = 4"

definition stack_bytes :: usize where "stack_bytes = PAGE_SIZE * push_bit stack_pages 1"

text \<open>The child's frame: a copy of the parent's at the top of the new stack, with \<open>x0 = 0\<close>.\<close>

definition copy_frame :: "usize \<Rightarrow> usize \<Rightarrow> memory \<Rightarrow> memory" where
  "copy_frame frame_ptr child_frame_ptr m = copy_bytes m frame_ptr child_frame_ptr USER_FRAME_SIZE"

definition fork_ctx :: "usize \<Rightarrow> usize \<Rightarrow> cpu_context" where
  "fork_ctx ret_to_user_fork frame = ctx_zeroed\<lparr>gregs := (gregs ctx_zeroed)[11 := ret_to_user_fork], ctx_sp := frame\<rparr>"

definition fork_child :: "task \<Rightarrow> pid_t \<Rightarrow> usize \<Rightarrow> usize \<Rightarrow> cpu_context \<Rightarrow> address_space \<Rightarrow> task" where
  "fork_child t child_pid stack_base_phys child_pt c child_as =
     (new_kernel child_pid 0 stack_base_phys stack_bytes child_pt)
       \<lparr>ctx := c, tas := Some child_as, ppid := pid t, tgid := tgid t, pgid := pgid t, sid := sid t,
        uid := uid t, gid := gid t, euid := euid t, egid := egid t,
        task_heap_start := (case tas t of Some a \<Rightarrow> heap_start a | None \<Rightarrow> 0),
        task_heap_end := (case tas t of Some a \<Rightarrow> heap_end a | None \<Rightarrow> 0),
        cwd := cwd t, signal_actions := replicate 4 DEFAULT_SIGACTION\<rparr>"

definition fork_current :: "arch_paging \<Rightarrow> root_alloc \<Rightarrow> usize \<Rightarrow> nat \<Rightarrow> usize \<Rightarrow> sched \<Rightarrow> (isize \<times> sched) panicking" where
  "fork_current ar alloc_root ret_to_user_fork cpu frame_ptr s =
     (if frame_ptr = 0 then Some (-38, s)
      else let parent_pid = current_pid cpu s
      in if parent_pid = 0 then Some (-38, s)
      else do {
        (r, st1) \<leftarrow> mm_alloc stack_pages (mm s);
        case r of
          None \<Rightarrow> Some (-12, s\<lparr>mm := st1\<rparr>)
        | Some stack_phys \<Rightarrow> do {
            let stack_virt = phys_to_virt st1 stack_phys;
            let st2 = st1\<lparr>ram := fill_bytes (ram st1) stack_virt 0 stack_bytes\<rparr>;
            (child_pt, st3) \<leftarrow> alloc_root st2;
            if child_pt = 0 then do { st4 \<leftarrow> mm_free stack_phys stack_pages st3; Some (-12, s\<lparr>mm := st4\<rparr>) }
            else case find_pid (rq s) parent_pid of
              None \<Rightarrow> do {
                st4 \<leftarrow> mm_free stack_phys 3 st3;
                st5 \<leftarrow> mm_free child_pt 0 st4;
                Some (-3, s\<lparr>mm := st5\<rparr>)
              }
            | Some t \<Rightarrow>
                (case tas t of
                   None \<Rightarrow> do {
                     st4 \<leftarrow> mm_free stack_phys 3 st3;
                     st5 \<leftarrow> mm_free child_pt 0 st4;
                     Some (-38, s\<lparr>mm := st5\<rparr>)
                   }
                 | Some as \<Rightarrow> do {
                     (ca, st4) \<leftarrow> clone_as ar as child_pt st3;
                     case ca of
                       None \<Rightarrow> do {
                         st5 \<leftarrow> mm_free stack_phys stack_pages st4;
                         st6 \<leftarrow> mm_free child_pt 0 st5;
                         Some (-12, s\<lparr>mm := st6\<rparr>)
                       }
                     | Some child_as \<Rightarrow>
                         (let child_frame = stack_virt + (stack_bytes - USER_FRAME_SIZE);
                              m1 = copy_frame frame_ptr child_frame (ram st4);
                              m2 = store64 m1 child_frame 0;
                              (child_pid, s1) = alloc_pid (s\<lparr>mm := st4\<lparr>ram := m2\<rparr>\<rparr>);
                              child = fork_child t child_pid stack_phys child_pt (fork_ctx ret_to_user_fork child_frame) child_as;
                              (ok, q) = rq_enqueue child (rq s1)
                          in if ok then Some (uint child_pid, s1\<lparr>rq := q\<rparr>)
                             else do {
                               st5 \<leftarrow> as_drop child_as (mm s1);
                               st6 \<leftarrow> mm_free stack_phys stack_pages st5;
                               st7 \<leftarrow> mm_free child_pt 0 st6;
                               Some (-12, s1\<lparr>mm := st7\<rparr>)
                             })
                   })
          }
      })"

definition thread_child :: "usize \<Rightarrow> usize \<Rightarrow> task \<Rightarrow> pid_t \<Rightarrow> pid_t \<Rightarrow> usize \<Rightarrow> cpu_context \<Rightarrow> task" where
  "thread_child flags ctid t parent_pid child_pid stack_phys c =
     (let child = (new_kernel child_pid 0 stack_phys stack_bytes (page_table t))
            \<lparr>ctx := c, ppid := parent_pid,
             tgid := (if flags AND CLONE_THREAD \<noteq> 0 then tgid t else child_pid),
             pgid := pgid t, sid := sid t, uid := uid t, gid := gid t, euid := euid t, egid := egid t,
             task_heap_start := (case tas t of Some a \<Rightarrow> heap_start a | None \<Rightarrow> 0),
             task_heap_end := (case tas t of Some a \<Rightarrow> heap_end a | None \<Rightarrow> 0),
             cwd := cwd t, signal_actions := replicate 4 DEFAULT_SIGACTION\<rparr>
      in if flags AND CLONE_CHILD_CLEARTID \<noteq> 0 then child\<lparr>clear_child_tid := ctid\<rparr> else child)"

definition clone_thread :: "usize \<Rightarrow> nat \<Rightarrow> usize \<Rightarrow> usize \<Rightarrow> usize \<Rightarrow> usize \<Rightarrow> usize \<Rightarrow> sched \<Rightarrow> (isize \<times> sched) panicking" where
  "clone_thread ret_to_user_fork cpu flags child_stack tls ctid frame_ptr s =
     (if frame_ptr = 0 then Some (-38, s)
      else let parent_pid = current_pid cpu s
      in if parent_pid = 0 then Some (-38, s)
      else do {
        (r, st1) \<leftarrow> mm_alloc stack_pages (mm s);
        case r of
          None \<Rightarrow> Some (-12, s\<lparr>mm := st1\<rparr>)
        | Some stack_phys \<Rightarrow>
            (let stack_virt = phys_to_virt st1 stack_phys;
                 child_frame = stack_virt + (stack_bytes - USER_FRAME_SIZE);
                 m1 = fill_bytes (ram st1) stack_virt 0 stack_bytes;
                 m2 = copy_frame frame_ptr child_frame m1;
                 m3 = store64 m2 child_frame 0;
                 m4 = (if child_stack \<noteq> 0 then store64 m3 (child_frame + 248) child_stack else m3);
                 c = (fork_ctx ret_to_user_fork child_frame)
                       \<lparr>tpidr_el0 := (if flags AND CLONE_SETTLS \<noteq> 0 then tls else 0)\<rparr>
             in case find_pid (rq s) parent_pid of
                  None \<Rightarrow> do { st2 \<leftarrow> mm_free stack_phys stack_pages (st1\<lparr>ram := m4\<rparr>); Some (-3, s\<lparr>mm := st2\<rparr>) }
                | Some t \<Rightarrow>
                    (let ctid_phys = (if flags AND CLONE_CHILD_SETTID \<noteq> 0 \<and> ctid \<noteq> 0
                                      then Option.bind (tas t) (\<lambda>a. as_virt_to_phys a ctid) else None);
                         (child_pid, s1) = alloc_pid s;
                         m5 = (case ctid_phys of Some p \<Rightarrow> store32 m4 (phys_to_virt st1 p) child_pid | None \<Rightarrow> m4);
                         s2 = s1\<lparr>mm := st1\<lparr>ram := m5\<rparr>\<rparr>;
                         (ok, q) = rq_enqueue (thread_child flags ctid t parent_pid child_pid stack_phys c) (rq s2)
                     in if ok then Some (uint child_pid, s2\<lparr>rq := q\<rparr>)
                        else do { st2 \<leftarrow> mm_free stack_phys stack_pages (mm s2); Some (-12, s2\<lparr>mm := st2\<rparr>) }))
      })"

subsection \<open>What the child is\<close>

lemma fork_current_success:
  assumes f: "fork_current ar alloc_root rtuf cpu frame_ptr s = Some (res, s')" and res: "0 < res"
  obtains t as stack_phys child_pt child_as st1 st4 q
  where "current_task cpu s = Some t" "tas t = Some as" "child_pt \<noteq> 0"
    "rq_enqueue (fork_child t (next_pid s) stack_phys child_pt
       (fork_ctx rtuf (phys_to_virt st1 stack_phys + (stack_bytes - USER_FRAME_SIZE))) child_as) (rq s) = (True, q)"
    "res = uint (next_pid s)"
    "s' = s\<lparr>mm := st4\<lparr>ram := store64 (copy_frame frame_ptr
       (phys_to_virt st1 stack_phys + (stack_bytes - USER_FRAME_SIZE)) (ram st4))
       (phys_to_virt st1 stack_phys + (stack_bytes - USER_FRAME_SIZE)) 0\<rparr>, next_pid := next_pid s + 1, rq := q\<rparr>"
proof -
  have nz: "frame_ptr \<noteq> 0" "current_pid cpu s \<noteq> 0" using f res by (auto simp: fork_current_def split: if_splits)
  obtain stack_phys st1 where a: "mm_alloc stack_pages (mm s) = Some (Some stack_phys, st1)"
    using f res nz by (auto simp: fork_current_def Let_def bind_eq_Some_conv split: option.splits)
  define st2 where "st2 = st1\<lparr>ram := fill_bytes (ram st1) (phys_to_virt st1 stack_phys) 0 stack_bytes\<rparr>"
  obtain child_pt st3 where b: "alloc_root st2 = Some (child_pt, st3)" "child_pt \<noteq> 0"
    using f res nz a by (auto simp: fork_current_def Let_def bind_eq_Some_conv st2_def split: option.splits if_splits)
  obtain t as where t: "current_task cpu s = Some t" "tas t = Some as"
    using f res nz a b by (auto simp: fork_current_def Let_def bind_eq_Some_conv st2_def split: option.splits)
  obtain child_as st4 where c: "clone_as ar as child_pt st3 = Some (Some child_as, st4)"
    using f res nz a b t by (auto simp: fork_current_def Let_def bind_eq_Some_conv st2_def split: option.splits)
  show thesis
    using f res nz a b t c
    by (auto simp: fork_current_def Let_def bind_eq_Some_conv st2_def alloc_pid_def split: option.splits prod.splits if_splits
        intro: that)
qed

lemma load64_copy_bytes:
  assumes "8 \<le> n" "d \<le> n - 8"
  shows "load64 (copy_bytes m src dst n) (dst + d) = load64 m (src + d)"
proof (rule bit_word_eqI)
  fix i assume i: "i < LENGTH(64)"
  have k: "unat (of_nat (i div 8) :: usize) = i div 8" "i div 8 < 8" using i of_nat_small[of "i div 8"] by auto
  have nd: "unat d + 8 \<le> unat n" using assms by (simp add: word_le_nat_alt unat_sub)
  have "unat (d + of_nat (i div 8)) = unat d + i div 8"
  proof (subst unat_add_nowrap)
    show "unat d + unat (of_nat (i div 8) :: usize) < 2 ^ LENGTH(64)"
    proof -
      have "unat n < 2 ^ LENGTH(64)" by (rule unsigned_less)
      then show ?thesis unfolding k(1) using nd k(2) by linarith
    qed
  qed (simp add: k(1))
  then have "d + of_nat (i div 8) < n" using nd k by (simp add: word_less_nat_alt)
  then have "copy_bytes m src dst n (dst + d + of_nat (i div 8)) = m (src + d + of_nat (i div 8))"
    by (simp add: copy_bytes_def algebra_simps)
  then show "bit (load64 (copy_bytes m src dst n) (dst + d)) i = bit (load64 m (src + d)) i" by (simp add: bit_load64)
qed


text \<open>A machine with one free 64 KiB block and a process with an empty address space.\<close>

definition demo_fork_mm :: mm_state where
  "demo_fork_mm = demo_mm\<lparr>frames := \<lparr>free_lists = (replicate MAX_ORDER None)[4 := Some 0x10000], free_pages = 16, total_pages = 16\<rparr>\<rparr>"

definition demo_fork_sched :: sched where
  "demo_fork_sched = demo_sched (\<lambda>t. t\<lparr>tas := Some (as_new 0x1000)\<rparr>) demo_fork_mm"

lemma demo_fork_alloc: "\<exists>st1. mm_alloc stack_pages demo_fork_mm = Some (Some 0x10000, st1)"
  by (simp add: mm_alloc_def buddy_alloc_def demo_fork_mm_def stack_pages_def MAX_ORDER_def numeral_eq_Suc)

abbreviation demo_fork_task :: task where
  "demo_fork_task \<equiv> demo_task\<lparr>tas := Some (as_new 0x1000)\<rparr>"

lemma demo_fork_current: "current_pid 0 demo_fork_sched = 1" "current_task 0 demo_fork_sched = Some demo_fork_task"
  using demo_sched_current[of "\<lambda>t. t\<lparr>tas := Some (as_new 0x1000)\<rparr>" demo_fork_mm, folded demo_fork_sched_def] by simp_all

lemma demo_fork:
  "\<exists>s'. fork_current a64_paging (\<lambda>st. Some (0x2000, st)) 0x80000 0 0x50000 demo_fork_sched = Some (2, s')"
proof -
  note cur = demo_fork_current
  obtain st1 where a: "mm_alloc stack_pages demo_fork_mm = Some (Some 0x10000, st1)" using demo_fork_alloc by blast
  have cl: "clone_as a64_paging (as_new 0x1000) 0x2000 st = Some (Some (as_new 0x2000), st)" for st
    by (simp add: clone_as_def as_new_def numeral_eq_Suc)
  have enq: "\<exists>q. rq_enqueue child (rq demo_fork_sched) = (True, q)" for child
  proof -
    have "position (\<lambda>s. s = None) (tasks (rq demo_fork_sched)) = Some 1"
      unfolding position_Some_iff by (simp add: demo_fork_sched_def demo_sched_def)
    then show ?thesis by (simp add: rq_enqueue_def)
  qed
  have np: "next_pid demo_fork_sched = 2" "mm demo_fork_sched = demo_fork_mm"
    by (simp_all add: demo_fork_sched_def demo_sched_def sched_init_def)
  let ?fr = "phys_to_virt st1 0x10000 + (stack_bytes - USER_FRAME_SIZE)"
  obtain q where q: "rq_enqueue (fork_child demo_fork_task 2 0x10000 0x2000 (fork_ctx 0x80000 ?fr) (as_new 0x2000)) (rq demo_fork_sched) = (True, q)"
    using enq by blast
  show ?thesis
    unfolding fork_current_def Let_def np(2) cur(1) a by (simp add: cl np alloc_pid_def q cur(2)[unfolded cur(1)])
qed


text \<open>
  The child of a \<open>fork\<close> gets a copy of the working-directory buffer but not its length: the length
  is the 1 that \<open>new_kernel\<close> stores, so its working directory is the first byte of the parent's.
\<close>

theorem fork_truncates_cwd:
  assumes f: "fork_current ar alloc_root rtuf cpu frame_ptr s = Some (res, s')" and res: "0 < res"
    and t: "current_task cpu s = Some t"
  shows "\<exists>i child. tasks (rq s') = (tasks (rq s))[i := Some child] \<and> uint (pid child) = res
    \<and> cwd child = cwd t \<and> cwd_len child = 1"
proof -
  obtain t' as sp pt ca st1 st4 q where o: "current_task cpu s = Some t'"
    "rq_enqueue (fork_child t' (next_pid s) sp pt (fork_ctx rtuf (phys_to_virt st1 sp + (stack_bytes - USER_FRAME_SIZE))) ca) (rq s) = (True, q)"
    "res = uint (next_pid s)" "rq s' = q"
    by (rule fork_current_success[OF f res]) auto
  then have "\<exists>i. tasks q = (tasks (rq s))[i := Some (fork_child t (next_pid s) sp pt (fork_ctx rtuf (phys_to_virt st1 sp + (stack_bytes - USER_FRAME_SIZE))) ca)]"
    using t rq_enqueue_True[OF o(2)] by auto
  then show ?thesis using o(3,4) by (force simp: fork_child_def new_kernel_def)
qed

theorem fork_truncates_cwd_witness:
  "\<exists>s' i child. fork_current a64_paging (\<lambda>st. Some (0x2000, st)) 0x80000 0 0x50000 demo_fork_sched = Some (2, s')
     \<and> tasks (rq s') = (tasks (rq demo_fork_sched))[i := Some child] \<and> cwd_len child = 1"
proof -
  obtain s' where f: "fork_current a64_paging (\<lambda>st. Some (0x2000, st)) 0x80000 0 0x50000 demo_fork_sched = Some (2, s')"
    using demo_fork by blast
  show ?thesis using fork_truncates_cwd[OF f _ demo_fork_current(2)] f by auto
qed

end
