(* ===== verification/Sched_Inv.thy ===== *)
theory Sched_Inv
  imports Clone Futex
begin

text \<open>
  Invariants of the scheduler over every operation of the \<open>sched\<close> crate, in any order and on any
  CPU: the run queue keeps its shape and process ids identify tasks.
\<close>

subsection \<open>Process ids\<close>

definition pids_ok :: "sched \<Rightarrow> bool" where
  "pids_ok s \<longleftrightarrow> rq_inv (rq s) \<and> pids_distinct (rq s) \<and> (\<forall>i p. pid_at (rq s) i p \<longrightarrow> p \<noteq> 0 \<and> p < next_pid s)"

text \<open>No task appears: the ids in the queue are among the old ones, slot by slot.\<close>

definition pids_kept :: "sched \<Rightarrow> sched \<Rightarrow> bool" where
  "pids_kept s s' \<longleftrightarrow> (rq_inv (rq s) \<longrightarrow> rq_inv (rq s')) \<and> next_pid s' = next_pid s
     \<and> (\<forall>i p. pid_at (rq s') i p \<longrightarrow> pid_at (rq s) i p)"

lemma pids_kept_ok: "pids_ok s \<Longrightarrow> pids_kept s s' \<Longrightarrow> pids_ok s'"
  unfolding pids_ok_def pids_kept_def pids_distinct_def by metis

lemma pids_kept_refl: "pids_kept s s"
  by (simp add: pids_kept_def)

lemma pids_kept_trans: "pids_kept s s' \<Longrightarrow> pids_kept s' s'' \<Longrightarrow> pids_kept s s''"
  unfolding pids_kept_def by auto

lemma pids_kept_same: "rq s' = rq s \<Longrightarrow> next_pid s' = next_pid s \<Longrightarrow> pids_kept s s'"
  by (simp add: pids_kept_def)

lemma pids_kept_on_pid:
  assumes "\<And>t. pid (f t) = pid t"
  shows "pids_kept s (on_pid p f s)"
  using pid_at_modify[OF assms] by (simp add: pids_kept_def on_pid_def)

lemma pid_at_modify_idx:
  assumes "\<And>t. pid (f t) = pid t"
  shows "pid_at (modify_idx k f q) i p \<Longrightarrow> pid_at q i p"
  using assms by (cases "tasks q ! k"; cases "i = k") (auto simp: pid_at_def modify_idx_def)

lemma pids_kept_modify_idx:
  assumes "\<And>t. pid (f t) = pid t" "rq s' = modify_idx k f (rq s)" "next_pid s' = next_pid s"
  shows "pids_kept s s'"
  using pid_at_modify_idx[OF assms(1)] assms(2,3) modify_idx_inv by (auto simp: pids_kept_def)

lemma pid_unblock [simp]: "pid (unblock_task port t) = pid t"
  by (simp add: unblock_task_def)

lemma pids_kept_unblock: "pids_kept s (sched_unblock_port port s)"
proof -
  have "pid_at (rq_unblock_port port q) i p \<Longrightarrow> pid_at q i p" for q i p
    by (auto simp: pid_at_def rq_unblock_port_def is_task_def split: option.splits)
  then show ?thesis by (auto simp: pids_kept_def sched_unblock_port_def rq_unblock_port_inv)
qed

lemma pids_kept_unblocks: "pids_kept s (fold sched_unblock_port ports s)"
  by (induction ports arbitrary: s) (auto intro: pids_kept_refl pids_kept_trans pids_kept_unblock)

lemma pids_kept_remove:
  assumes "remove_task idx s = Some s'" "idx < MAX_TASKS"
  shows "pids_kept s s'"
proof -
  have "pid_at (snd (rq_remove idx q)) i p \<Longrightarrow> pid_at q i p" for q i p
    by (cases "i = idx") (auto simp: pid_at_def rq_remove_def Let_def)
  then show ?thesis
    using assms rq_remove_inv[of "rq s" idx]
    by (auto simp: pids_kept_def remove_task_def split: prod.splits)
qed

lemma pids_kept_wait:
  assumes "wait_pid_turn p s = Some (r, s')" "rq_inv (rq s)"
  shows "pids_kept s s'"
proof (cases "find_pid_idx (rq s) p")
  case None
  then show ?thesis using assms by (auto simp: wait_pid_turn_def pids_kept_refl)
next
  case (Some i)
  then have "i < MAX_TASKS" using find_pid_idx_SomeD(1)[OF Some] assms(2) by (simp add: rq_inv_def)
  then show ?thesis
    using assms(1) Some pids_kept_remove by (auto simp: wait_pid_turn_def Let_def pids_kept_refl split: if_splits)
qed

text \<open>A task appears: in one free slot, with the next id, and the counter moves on.\<close>

definition pids_grown :: "sched \<Rightarrow> sched \<Rightarrow> bool" where
  "pids_grown s s' \<longleftrightarrow> (rq s' = rq s \<and> next_pid s' \<in> {next_pid s, next_pid s + 1})
     \<or> (\<exists>t. rq_enqueue t (rq s) = (True, rq s') \<and> pid t = next_pid s \<and> next_pid s' = next_pid s + 1)"

lemma pid_at_enqueue:
  assumes "rq_enqueue t q = (True, q')" "pid_at q' i p"
  shows "pid_at q i p \<or> (p = pid t \<and> position (\<lambda>x. x = None) (tasks q) = Some i)"
proof -
  obtain k where k: "position (\<lambda>x. x = None) (tasks q) = Some k" "tasks q' = (tasks q)[k := Some t]"
    using rq_enqueue_True[OF assms(1)] by auto
  then show ?thesis
    using assms(2) position_SomeD(1)[OF k(1)] by (cases "i = k") (auto simp: pid_at_def)
qed

lemma pids_grown_ok:
  assumes ok: "pids_ok s" and g: "pids_grown s s'" and room: "next_pid s \<noteq> u32_MAX" "next_pid s \<noteq> 0"
  shows "pids_ok s'"
proof -
  have le: "p < next_pid s \<Longrightarrow> p < next_pid s + 1" "next_pid s < next_pid s + 1" for p
  proof -
    have "unat (next_pid s) \<noteq> 4294967295" using room(1) by (simp add: u32_MAX_def word_unat_eq_iff)
    moreover have "unat (next_pid s) < 4294967296" using unsigned_less[of "next_pid s"] by simp
    ultimately have "unat (next_pid s + 1) = unat (next_pid s) + 1" by (simp add: unat_word_ariths)
    then show "p < next_pid s \<Longrightarrow> p < next_pid s + 1" "next_pid s < next_pid s + 1" by (simp_all add: word_less_nat_alt)
  qed
  consider "rq s' = rq s" "next_pid s' \<in> {next_pid s, next_pid s + 1}"
    | t where "rq_enqueue t (rq s) = (True, rq s')" "pid t = next_pid s" "next_pid s' = next_pid s + 1"
    using g unfolding pids_grown_def by blast
  then show ?thesis
  proof cases
    case 1
    then show ?thesis using ok le(1) by (auto simp: pids_ok_def)
  next
    case 2
    have fresh: "\<not> pid_at (rq s) i (next_pid s)" for i using ok by (auto simp: pids_ok_def)
    have "pids_distinct (rq s')"
      unfolding pids_distinct_def
    proof (intro allI impI)
      fix i j p assume "pid_at (rq s') i p" "pid_at (rq s') j p"
      then show "i = j"
        using pid_at_enqueue[OF 2(1)] ok fresh 2(2) unfolding pids_ok_def pids_distinct_def by (metis option.inject)
    qed
    moreover have "p \<noteq> 0 \<and> p < next_pid s'" if "pid_at (rq s') i p" for i p
      using pid_at_enqueue[OF 2(1) that] ok le room(2) 2(2,3) by (auto simp: pids_ok_def)
    ultimately show ?thesis using rq_enqueue_inv[OF _ 2(1)] ok by (auto simp: pids_ok_def)
  qed
qed

subsection \<open>Every operation\<close>

text \<open>
  What an exit hook may do to the scheduler: wake tasks that are blocked on ports. The IPC layer
  registers such a hook.
\<close>

definition hook_ok :: "(pid_t \<Rightarrow> sched \<times> 'x \<Rightarrow> sched \<times> 'x) option \<Rightarrow> bool" where
  "hook_ok hook \<longleftrightarrow> (case hook of None \<Rightarrow> True
     | Some h \<Rightarrow> \<forall>p s x. \<exists>ports. fst (h p (s, x)) = fold sched_unblock_port ports s)"

text \<open>
  The operations, grouped as the files have them: those on the fields of tasks, those that add tasks,
  the pieces of the scheduler loop, signals and futexes. The state is the scheduler, the futex table
  and the state of the exit hook. An operation that would allocate an id when the counter is at
  its maximum is left out: the counter wraps there.
\<close>

inductive field_step :: "sched \<Rightarrow> sched \<Rightarrow> bool" where
  signal_op: "deliver_signal p n s = (r, s') \<Longrightarrow> field_step s s'"
| clear_op: "field_step s (clear_pending_signal cpu n s)"
| mask_op: "replace_signal_mask cpu m s = (old, s') \<Longrightarrow> field_step s s'"
| reply_op: "field_step s (set_current_reply_port cpu port s)"
| cwd_op: "current_cwd cpu ptr n s = (r, s') \<Longrightarrow> field_step s s'"
| chdir_op: "set_cwd cpu path s = (ok, s') \<Longrightarrow> field_step s s'"
| pgid_op: "set_pgid p g s = (ok, s') \<Longrightarrow> field_step s s'"
| setsid_op: "setsid cpu s = (r, s') \<Longrightarrow> field_step s s'"
| umask_op: "umask cpu m s = (old, s') \<Longrightarrow> field_step s s'"
| tid_op: "field_step s (set_clear_child_tid cpu ptr s)"
| tls_op: "field_step s (set_fs_base cpu addr s)"
| tick_op: "field_step s (timer_tick_irq s)"
| preempt_op: "preempt_check cpu s = (y, s') \<Longrightarrow> field_step s s'"
| fault_op: "handle_page_fault ar cpu addr s = Some (ok, s') \<Longrightarrow> field_step s s'"
| unblock_op: "field_step s (sched_unblock_port port s)"
| block_op: "field_step s (block_on_port cpu port s)"
| exit_op: "field_step s (sched_exit cpu code s)"
| exec_op: "replace_address_space cpu a root hs s = Some s' \<Longrightarrow> field_step s s'"
| as_op: "with_current_address_space_mut cpu (f :: address_space \<Rightarrow> mm_state \<Rightarrow> (isize \<times> address_space \<times> mm_state) option) s = Some (r, s') \<Longrightarrow> field_step s s'"

lemma field_step_kept: "field_step s s' \<Longrightarrow> pids_kept s s'"
proof (induction rule: field_step.induct)
  case (block_op s cpu port)
  have "pids_kept s (on_pid (current_pid cpu s) (\<lambda>t. t\<lparr>tstate := Blocked, blocked_on := Some port\<rparr>) s)"
    by (rule pids_kept_on_pid) simp
  then show ?case by (simp add: block_on_port_def rq_block_on_port_def on_pid_def)
next
  case (fault_op ar cpu addr s ok s')
  have "pids_kept s ((on_pid p (\<lambda>t. t\<lparr>tas := Some a\<rparr>) s)\<lparr>mm := st\<rparr>)" for p a st
    using pids_kept_on_pid[of "\<lambda>t. t\<lparr>tas := Some a\<rparr>" s p] by (simp add: pids_kept_def)
  then show ?case using fault_op by (auto simp: handle_page_fault_def pids_kept_refl split: if_splits option.splits)
next
  case (as_op cpu f s r s')
  have "pids_kept s ((on_pid p (\<lambda>t. t\<lparr>tas := Some a\<rparr>) s)\<lparr>mm := st\<rparr>)" for p a st
    using pids_kept_on_pid[of "\<lambda>t. t\<lparr>tas := Some a\<rparr>" s p] by (simp add: pids_kept_def)
  then show ?case using as_op by (auto simp: with_current_address_space_mut_def pids_kept_refl split: option.splits)
next
  case (exec_op cpu a root hs s s')
  have "pids_kept s ((on_pid p (\<lambda>t. t\<lparr>tas := Some a, page_table := root, task_heap_start := hs, task_heap_end := hs\<rparr>) s)
      \<lparr>mm := st, active_root := r\<rparr>)" for p st r
    using pids_kept_on_pid[of "\<lambda>t. t\<lparr>tas := Some a, page_table := root, task_heap_start := hs, task_heap_end := hs\<rparr>" s p]
    by (simp add: pids_kept_def)
  then show ?case
    using exec_op by (auto simp: replace_address_space_def bind_eq_Some_conv pids_kept_same split: option.splits)
qed (auto simp: deliver_signal_def clear_pending_signal_def replace_signal_mask_def set_current_reply_port_def
      current_cwd_def set_cwd_def set_pgid_def setsid_def umask_def set_clear_child_tid_def set_fs_base_def
      timer_tick_irq_def preempt_check_def sched_exit_def Let_def
      intro!: pids_kept_on_pid pids_kept_refl pids_kept_same pids_kept_unblock
      split: option.splits if_splits)

inductive new_task_step :: "sched \<Rightarrow> sched \<Rightarrow> bool" where
  spawn_op: "spawn entry s = Some (r, s') \<Longrightarrow> new_task_step s s'"
| spawn_user_op: "spawn_user_with_address_space rtu entry sp as s = Some (r, s') \<Longrightarrow> new_task_step s s'"
| fork_op: "fork_current ar alloc_root rtuf cpu frame_ptr s = Some (r, s') \<Longrightarrow> new_task_step s s'"
| clone_op: "clone_thread rtuf cpu flags child_stack tls ctid frame_ptr s = Some (r, s') \<Longrightarrow> new_task_step s s'"

lemma pid_new [simp]: "pid (new_kernel p entry sb ss pt) = p" "pid (fork_child t p sb pt c a) = p"
  "pid (thread_child flags ctid t pp p sb c) = p"
  "pid (fst (new_userspace rtu p e sp sb ss pt st)) = p"
  by (simp_all add: new_kernel_def fork_child_def thread_child_def new_userspace_def ctx_new_user_task_def Let_def)

lemma grown_same: "rq s' = rq s \<Longrightarrow> next_pid s' = next_pid s \<or> next_pid s' = next_pid s + 1 \<Longrightarrow> pids_grown s s'"
  by (auto simp: pids_grown_def)

lemma grown_enqueue: "rq_enqueue t (rq s) = (True, rq s') \<Longrightarrow> pid t = next_pid s \<Longrightarrow> next_pid s' = next_pid s + 1 \<Longrightarrow> pids_grown s s'"
  by (auto simp: pids_grown_def)

lemma fork_grown:
  assumes f: "fork_current ar alloc_root rtuf cpu frame_ptr s = Some (res, s')"
  shows "pids_grown s s'"
proof (cases "frame_ptr = 0 \<or> current_pid cpu s = 0")
  case True
  then show ?thesis using f by (auto simp: fork_current_def Let_def intro!: grown_same split: if_splits)
next
  case nz: False
  obtain r1 st1 where a: "mm_alloc stack_pages (mm s) = Some (r1, st1)"
    using f nz by (auto simp: fork_current_def Let_def bind_eq_Some_conv)
  show ?thesis
  proof (cases r1)
    case None
    then show ?thesis using f nz a by (auto simp: fork_current_def Let_def intro!: grown_same)
  next
    case (Some sp)
    define st2 where "st2 = st1\<lparr>ram := fill_bytes (ram st1) (phys_to_virt st1 sp) 0 stack_bytes\<rparr>"
    obtain pt st3 where b: "alloc_root st2 = Some (pt, st3)"
      using f nz a Some by (auto simp: fork_current_def Let_def bind_eq_Some_conv st2_def)
    show ?thesis
    proof (cases "pt = 0 \<or> Option.bind (find_pid (rq s) (current_pid cpu s)) tas = None")
      case True
      then show ?thesis
        using f nz a Some b
        by (auto simp: fork_current_def Let_def bind_eq_Some_conv bind_eq_None_conv st2_def intro!: grown_same
            split: if_splits option.splits)
    next
      case ok: False
      then obtain t as where t: "find_pid (rq s) (current_pid cpu s) = Some t" "tas t = Some as"
        by (auto simp: bind_eq_None_conv)
      obtain ca st4 where c: "clone_as ar as pt st3 = Some (ca, st4)"
        using f nz a Some b ok t by (auto simp: fork_current_def Let_def bind_eq_Some_conv st2_def)
      show ?thesis
      proof (cases ca)
        case None
        then show ?thesis
          using f nz a Some b ok t c by (auto simp: fork_current_def Let_def bind_eq_Some_conv st2_def intro!: grown_same)
      next
        case ca: (Some child_as)
        let ?fr = "phys_to_virt st1 sp + (stack_bytes - USER_FRAME_SIZE)"
        obtain e q where e: "rq_enqueue (fork_child t (next_pid s) sp pt (fork_ctx rtuf ?fr) child_as) (rq s) = (e, q)"
          by fastforce
        show ?thesis
          using f nz a Some b ok t c ca e
          by (cases e) (auto simp: fork_current_def Let_def bind_eq_Some_conv st2_def alloc_pid_def
              intro: grown_same grown_enqueue)
      qed
    qed
  qed
qed

lemma spawn_grown:
  assumes f: "spawn entry s = Some (r, s')"
  shows "pids_grown s s'"
proof -
  obtain r1 st1 where a: "mm_alloc 4 (mm s) = Some (r1, st1)"
    using f by (auto simp: spawn_def Let_def alloc_pid_def bind_eq_Some_conv)
  show ?thesis
  proof (cases r1)
    case None
    then show ?thesis using f a by (auto simp: spawn_def Let_def alloc_pid_def intro!: grown_same)
  next
    case (Some sb)
    obtain e q where e: "rq_enqueue (new_kernel (next_pid s) entry sb STACK_SIZE 0) (rq s) = (e, q)" by fastforce
    show ?thesis
      using f a Some e
      by (cases e) (auto simp: spawn_def Let_def alloc_pid_def bind_eq_Some_conv intro: grown_same grown_enqueue)
  qed
qed

lemma spawn_user_grown:
  assumes f: "spawn_user_with_address_space rtu entry sp as s = Some (r, s')"
  shows "pids_grown s s'"
proof -
  note df = spawn_user_with_address_space_def
  obtain r1 st1 where a: "mm_alloc 4 (mm s) = Some (r1, st1)"
    using f by (auto simp: df Let_def alloc_pid_def bind_eq_Some_conv)
  show ?thesis
  proof (cases r1)
    case None
    then show ?thesis using f a by (auto simp: df Let_def alloc_pid_def bind_eq_Some_conv intro!: grown_same)
  next
    case (Some sb)
    obtain t0 st2 where u: "new_userspace rtu (next_pid s) entry sp (phys_to_virt st1 sb) STACK_SIZE (page_table_root as) st1 = (t0, st2)"
      by fastforce
    then have t0: "pid t0 = next_pid s" using pid_new(4) by (metis fst_conv)
    obtain e q where e: "rq_enqueue (t0\<lparr>kernel_stack := sb, tas := Some as\<rparr>) (rq s) = (e, q)" by fastforce
    show ?thesis
      using f a Some u e t0
      by (cases e) (auto simp: df Let_def alloc_pid_def bind_eq_Some_conv intro: grown_same grown_enqueue)
  qed
qed

lemma clone_grown:
  assumes f: "clone_thread rtuf cpu flags child_stack tls ctid frame_ptr s = Some (r, s')"
  shows "pids_grown s s'"
proof (cases "frame_ptr = 0 \<or> current_pid cpu s = 0")
  case True
  then show ?thesis using f by (auto simp: clone_thread_def Let_def intro!: grown_same split: if_splits)
next
  case nz: False
  obtain r1 st1 where a: "mm_alloc stack_pages (mm s) = Some (r1, st1)"
    using f nz by (auto simp: clone_thread_def Let_def bind_eq_Some_conv)
  show ?thesis
  proof (cases "r1 = None \<or> find_pid (rq s) (current_pid cpu s) = None")
    case True
    then show ?thesis
      using f nz a by (auto simp: clone_thread_def Let_def bind_eq_Some_conv intro!: grown_same split: option.splits)
  next
    case False
    then obtain sb t where t: "r1 = Some sb" "find_pid (rq s) (current_pid cpu s) = Some t" by auto
    let ?c = "(fork_ctx rtuf (phys_to_virt st1 sb + (stack_bytes - USER_FRAME_SIZE)))
                \<lparr>tpidr_el0 := (if flags AND CLONE_SETTLS \<noteq> 0 then tls else 0)\<rparr>"
    obtain e q where e: "rq_enqueue (thread_child flags ctid t (current_pid cpu s) (next_pid s) sb ?c) (rq s) = (e, q)"
      by fastforce
    show ?thesis
      using f nz a t e unfolding clone_thread_def Let_def alloc_pid_def
      by (cases e) (auto simp: bind_eq_Some_conv intro: grown_same grown_enqueue)
  qed
qed

lemma new_task_grown: "new_task_step s s' \<Longrightarrow> pids_grown s s'"
  by (induction rule: new_task_step.induct) (blast intro: fork_grown spawn_grown spawn_user_grown clone_grown)+

inductive loop_step :: "(pid_t \<Rightarrow> sched \<times> 'x \<Rightarrow> sched \<times> 'x) option \<Rightarrow> sched \<times> 'x \<Rightarrow> sched \<times> 'x \<Rightarrow> bool" for hook where
  wait_op: "wait_pid_turn p s = Some (r, s') \<Longrightarrow> loop_step hook (s, x) (s', x)"
| pick_op: "sched_pick s = (r, s') \<Longrightarrow> loop_step hook (s, x) (s', x)"
| load_op: "idx < MAX_TASKS \<Longrightarrow> sched_load cpu idx s = Some s' \<Longrightarrow> loop_step hook (s, x) (s', x)"
| mark_op: "idx < MAX_TASKS \<Longrightarrow> loop_step hook (s, x) (sched_mark cpu idx t s, x)"
| unload_op: "idx < MAX_TASKS \<Longrightarrow> loop_step hook (s, x) (sched_unload cpu idx s, x)"
| reap_op: "idx < MAX_TASKS \<Longrightarrow> sched_reap hook idx (s, x) = Some (s', x') \<Longrightarrow> loop_step hook (s, x) (s', x')"

lemma pids_kept_reap:
  assumes h: "hook_ok hook" and idx: "idx < MAX_TASKS" and r: "sched_reap hook idx (s, x) = Some (s', x')"
  shows "pids_kept s s'"
proof (cases "\<exists>t. rq_get (rq s) idx = Some t \<and> tstate t = Zombie")
  case False
  then have "s' = s" using r by (auto simp: sched_reap_def split: option.splits if_splits)
  then show ?thesis by (simp add: pids_kept_refl)
next
  case True
  then obtain t where t: "rq_get (rq s) idx = Some t" "tstate t = Zombie" by blast
  obtain s1 x1 where h1: "(case hook of None \<Rightarrow> (s, x) | Some h \<Rightarrow> h (pid t) (s, x)) = (s1, x1)" by fastforce
  have k1: "pids_kept s s1"
  proof (cases hook)
    case (Some g)
    obtain ports where "fst (g (pid t) (s, x)) = fold sched_unblock_port ports s" using h Some unfolding hook_ok_def by fastforce
    then show ?thesis using h1 Some pids_kept_unblocks by (metis fst_conv option.case(2))
  qed (use h1 in \<open>simp add: pids_kept_refl\<close>)
  obtain s2 st where s2: "remove_task idx s1 = Some s2" "s' = log_exit (pid t) (exit_code t) (s2\<lparr>mm := st\<rparr>)"
    using r t h1 by (auto simp: sched_reap_def bind_eq_Some_conv)
  have "pids_kept s2 s'" by (rule pids_kept_same) (simp_all add: s2 log_exit_def)
  then show ?thesis using k1 pids_kept_remove[OF s2(1) idx] pids_kept_trans by blast
qed

lemma loop_step_kept: "loop_step hook a b \<Longrightarrow> hook_ok hook \<Longrightarrow> rq_inv (rq (fst a)) \<Longrightarrow> pids_kept (fst a) (fst b)"
proof (induction rule: loop_step.induct)
  case (pick_op s r s' x)
  then obtain q where q: "rq_pick_next (rq s) = (r, q)" "s' = s\<lparr>rq := q\<rparr>" by (auto simp: sched_pick_def split: prod.splits)
  have "rq_inv q \<and> tasks q = tasks (rq s)" by (rule rq_pick_next_inv[OF _ q(1)]) (use pick_op in simp)
  then show ?case using q(2) by (simp add: pids_kept_def pid_at_def)
next
  case (load_op idx cpu s s' x)
  then show ?case by (auto simp: sched_load_def intro!: pids_kept_same split: option.splits)
next
  case (mark_op idx s x cpu t)
  show ?case by (rule pids_kept_modify_idx[of "\<lambda>t. t\<lparr>tstate := Running\<rparr>" _ idx]) (simp_all add: sched_mark_def)
next
  case (unload_op idx s x cpu)
  show ?case
    by (rule pids_kept_modify_idx[of "\<lambda>t. if tstate t = Running then t\<lparr>tstate := Ready\<rparr> else t" _ idx])
       (simp_all add: sched_unload_def)
qed (simp_all add: pids_kept_wait pids_kept_reap)

inductive signal_step :: "sched \<Rightarrow> sched \<Rightarrow> bool" where
  check_op: "check_and_deliver_signals cpu fr s = Some (Some (d, fr', s')) \<Longrightarrow> signal_step s s'"
| return_op: "restore_signal_frame cpu fr s = (fr', s') \<Longrightarrow> signal_step s s'"
| action_op: "sys_sigaction la sa cpu n act old s = Some (r, s') \<Longrightarrow> signal_step s s'"
| procmask_op: "sys_sigprocmask cpu how set_ptr old s = (r, s') \<Longrightarrow> signal_step s s'"

lemma pids_kept_mm_on_pid:
  assumes "\<And>t. pid (f t) = pid t"
  shows "pids_kept s (on_pid p f (s\<lparr>mm := st\<rparr>))"
  using pids_kept_on_pid[OF assms, of "s\<lparr>mm := st\<rparr>" p] by (simp add: pids_kept_def)

lemma sig_prepare_kept: "sig_prepare cpu uf sig hdl rest m s = (ok, uf', s') \<Longrightarrow> pids_kept s s'"
  by (auto simp: sig_prepare_def Let_def intro!: pids_kept_same split: option.splits if_splits)

lemma sched_exit_kept: "pids_kept s (sched_exit cpu code s)"
  unfolding sched_exit_def by (rule pids_kept_on_pid) simp

lemma deliver_loop_kept: "deliver_loop fuel cpu p uf s = Some (Some (d, uf', s')) \<Longrightarrow> pids_kept s s'"
proof (induction fuel arbitrary: s)
  case (Suc fuel)
  show ?case
  proof (cases "\<exists>t. find_pid (rq s) p = Some t \<and> signal_pending t AND NOT (signal_mask t) \<noteq> 0")
    case False
    then have "s' = s" using Suc.prems by (auto split: option.splits)
    then show ?thesis by (simp add: pids_kept_refl)
  next
    case True
    then obtain t where t: "find_pid (rq s) p = Some t" "signal_pending t AND NOT (signal_mask t) \<noteq> 0" by blast
    define b where "b = trailing_zeros (signal_pending t AND NOT (signal_mask t))"
    define s1 where "s1 = on_pid p (accept_signal b (signal_actions t ! b)) s"
    have k1: "pids_kept s s1" unfolding s1_def by (rule pids_kept_on_pid) simp
    have "pids_kept s1 s'"
      using Suc.prems t Suc.IH[of s1] sched_exit_kept[of s1]
      by (auto simp: Let_def b_def[symmetric] s1_def[symmetric] split: if_splits prod.splits
          dest!: sig_prepare_kept intro: pids_kept_trans sched_exit_kept)
    then show ?thesis using k1 pids_kept_trans by blast
  qed
qed simp

lemma signal_step_kept: "signal_step s s' \<Longrightarrow> pids_kept s s'"
proof (induction rule: signal_step.induct)
  case (check_op cpu fr s d fr' s')
  then show ?case
    by (auto simp: check_and_deliver_signals_def pids_kept_refl split: option.splits if_splits dest!: deliver_loop_kept)
next
  case (return_op cpu fr s fr' s')
  then show ?case
    by (auto simp: restore_signal_frame_def sig_restore_def Let_def pids_kept_refl sched_exit_kept
        intro!: pids_kept_on_pid split: option.splits if_splits)
next
  case (action_op la sa cpu n act old s r s')
  then show ?case
    by (auto simp: sys_sigaction_def Let_def current_pid_def
        intro!: pids_kept_refl pids_kept_mm_on_pid pids_kept_on_pid pids_kept_same split: option.splits if_splits)
next
  case (procmask_op cpu how set_ptr old s r s')
  then show ?case
    by (auto simp: sys_sigprocmask_def Let_def current_pid_def
        intro!: pids_kept_refl pids_kept_mm_on_pid pids_kept_on_pid pids_kept_same split: option.splits if_splits)
qed

inductive futex_step :: "sched \<times> futex_table \<Rightarrow> sched \<times> futex_table \<Rightarrow> bool" where
  enter_op: "futex_step a (futex_wait_enter cpu uaddr a)"
| leave_op: "futex_wait_leave cpu p a = (r, b) \<Longrightarrow> futex_step a b"
| wake_op: "futex_wake uaddr n a = (k, b) \<Longrightarrow> futex_step a b"

lemma futex_wake_pids_kept: "futex_wake_pids ps s = (k, s') \<Longrightarrow> pids_kept s s'"
proof (induction ps arbitrary: s k)
  case (Cons p ps)
  let ?s1 = "on_pid p (\<lambda>t. t\<lparr>tstate := Ready, blocked_futex := 0\<rparr>) s"
  have k1: "pids_kept s ?s1" by (rule pids_kept_on_pid) simp
  show ?case
  proof (cases "\<exists>t. find_pid (rq s) p = Some t \<and> tstate t = Blocked")
    case True
    then obtain n where "futex_wake_pids ps ?s1 = (n, s')" using Cons.prems by (auto split: prod.splits)
    then show ?thesis using Cons.IH k1 pids_kept_trans by blast
  next
    case False
    then have "futex_wake_pids ps s = (k, s')" using Cons.prems by (auto split: option.splits if_splits)
    then show ?thesis by (rule Cons.IH)
  qed
qed (simp add: pids_kept_refl)

lemma futex_step_kept: "futex_step a b \<Longrightarrow> pids_kept (fst a) (fst b)"
proof (induction rule: futex_step.induct)
  case (enter_op a cpu uaddr)
  obtain s tbl where a: "a = (s, tbl)" by fastforce
  let ?s1 = "on_pid (current_pid cpu s) (\<lambda>t. t\<lparr>tstate := Blocked, blocked_futex := uaddr\<rparr>) s"
  have "pids_kept s ?s1" by (rule pids_kept_on_pid) simp
  moreover have "pids_kept ?s1 (fst (futex_wait_enter cpu uaddr a))"
    by (rule pids_kept_same) (simp_all add: a futex_wait_enter_def Let_def)
  ultimately show ?case using a pids_kept_trans by auto
next
  case (leave_op cpu p a r b)
  then show ?case by (auto simp: futex_wait_leave_def Let_def intro!: pids_kept_on_pid split: prod.splits)
next
  case (wake_op uaddr n a k b)
  then show ?case by (auto simp: futex_wake_def Let_def dest!: futex_wake_pids_kept split: prod.splits)
qed

text \<open>One step of the whole crate.\<close>

inductive sched_step :: "(pid_t \<Rightarrow> sched \<times> 'x \<Rightarrow> sched \<times> 'x) option
    \<Rightarrow> sched \<times> futex_table \<times> 'x \<Rightarrow> sched \<times> futex_table \<times> 'x \<Rightarrow> bool" for hook where
  field: "field_step s s' \<Longrightarrow> sched_step hook (s, tbl, x) (s', tbl, x)"
| task: "new_task_step s s' \<Longrightarrow> next_pid s \<noteq> u32_MAX \<Longrightarrow> sched_step hook (s, tbl, x) (s', tbl, x)"
| loop: "loop_step hook (s, x) (s', x') \<Longrightarrow> sched_step hook (s, tbl, x) (s', tbl, x')"
| signal: "signal_step s s' \<Longrightarrow> sched_step hook (s, tbl, x) (s', tbl, x)"
| futex: "futex_step (s, tbl) (s', tbl') \<Longrightarrow> sched_step hook (s, tbl, x) (s', tbl', x)"

lemma sched_step_ok:
  assumes "sched_step hook a b" "hook_ok hook" "pids_ok (fst a)" "next_pid (fst a) \<noteq> 0"
  shows "pids_ok (fst b) \<and> next_pid (fst b) \<noteq> 0"
  using assms
proof (induction rule: sched_step.induct)
  case (field s s' tbl x)
  then show ?case using field_step_kept[OF field(1)] pids_kept_ok by (auto simp: pids_kept_def)
next
  case (task s s' tbl x)
  then have "pids_ok s'" using pids_grown_ok[OF _ new_task_grown] by simp
  moreover have "next_pid s' \<noteq> 0"
  proof -
    have "next_pid s + 1 \<noteq> 0" using task(2) by (auto simp: u32_MAX_def eq_neg_iff_add_eq_0[symmetric])
    then show ?thesis using new_task_grown[OF task(1)] task.prems by (auto simp: pids_grown_def)
  qed
  ultimately show ?case by simp
next
  case (loop s x s' x' tbl)
  then have "pids_kept s s'" using loop_step_kept[OF loop(1)] by (simp add: pids_ok_def)
  then show ?case using loop pids_kept_ok by (auto simp: pids_kept_def)
next
  case (signal s s' tbl x)
  then show ?case using signal_step_kept[OF signal(1)] pids_kept_ok by (auto simp: pids_kept_def)
next
  case (futex s tbl s' tbl' x)
  then show ?case using futex_step_kept[OF futex(1)] pids_kept_ok by (auto simp: pids_kept_def)
qed

lemma sched_reachable_ok:
  assumes "(sched_step hook)\<^sup>*\<^sup>* (sched_init st, futex_table_init, x) b" "hook_ok hook"
  shows "pids_ok (fst b) \<and> next_pid (fst b) \<noteq> 0"
  using assms(1)
proof (induction rule: rtranclp_induct)
  case base
  have "\<not> pid_at rq_new i p" for i p by (auto simp: pid_at_def rq_new_def)
  then show ?case by (simp add: pids_ok_def sched_init_def rq_new_inv pids_distinct_def)
next
  case (step b c)
  then show ?case using sched_step_ok[OF step(2) assms(2)] by blast
qed

text \<open>
  C8. Process ids identify tasks. Whatever operations of the scheduler crate run, in any order and on
  any CPU, with spawns, forks and clones that succeed or fail, as long as the id counter has not
  wrapped: the queue has 256 slots and its counter is the number of occupied ones, no task has
  id 0, and the lookup by id finds the one slot that holds the task.
\<close>

theorem pids_identify_tasks:
  assumes "(sched_step hook)\<^sup>*\<^sup>* (sched_init st, futex_table_init, x) (s, tbl, x')" "hook_ok hook"
  shows "length (tasks (rq s)) = 256 \<and> rq_len (rq s) = live (tasks (rq s))
    \<and> (\<forall>i t. i < 256 \<longrightarrow> tasks (rq s) ! i = Some t \<longrightarrow> pid t \<noteq> 0 \<and> find_pid_idx (rq s) (pid t) = Some i
         \<and> find_pid (rq s) (pid t) = Some t)"
proof -
  have ok: "pids_ok s" using sched_reachable_ok[OF assms] by simp
  then have len: "length (tasks (rq s)) = 256" by (simp add: pids_ok_def rq_inv_def MAX_TASKS_def)
  have "pid t \<noteq> 0 \<and> find_pid_idx (rq s) (pid t) = Some i \<and> find_pid (rq s) (pid t) = Some t"
    if "i < 256" "tasks (rq s) ! i = Some t" for i t
  proof -
    have at: "pid_at (rq s) i (pid t)" using that len by (simp add: pid_at_def)
    then have "find_pid_idx (rq s) (pid t) = Some i" using ok find_pid_idx_unique by (auto simp: pids_ok_def)
    then show ?thesis using ok at that by (auto simp: pids_ok_def find_pid_def find_task_position find_pid_idx_def)
  qed
  then show ?thesis using ok len by (simp add: pids_ok_def rq_inv_def)
qed

theorem pids_identify_tasks_witness:
  "\<exists>s. (sched_step None)\<^sup>*\<^sup>* (sched_init demo_fork_mm, futex_table_init, ()) (s, futex_table_init, ())
     \<and> find_pid_idx (rq s) 1 = Some 0 \<and> rq_len (rq s) = 1"
proof -
  obtain st1 where a: "mm_alloc 4 demo_fork_mm = Some (Some 0x10000, st1)" using demo_fork_alloc by (auto simp: stack_pages_def)
  have p: "position (\<lambda>s. s = None) (replicate 256 (None :: task option)) = Some 0" by (simp add: position_Some_iff)
  let ?t = "new_kernel 1 0x80000 0x10000 STACK_SIZE 0"
  define s where "s = (sched_init st1)\<lparr>next_pid := 2, rq := \<lparr>tasks = (replicate 256 None)[0 := Some ?t], rq_len = 1, cursor = 0\<rparr>\<rparr>"
  have sp: "spawn 0x80000 (sched_init demo_fork_mm) = Some (Some 1, s)"
    using a p by (simp add: spawn_def alloc_pid_def sched_init_def rq_new_def rq_enqueue_def MAX_TASKS_def s_def)
  have st: "(sched_step None)\<^sup>*\<^sup>* (sched_init demo_fork_mm, futex_table_init, ()) (s, futex_table_init, ())"
    by (intro r_into_rtranclp sched_step.task new_task_step.spawn_op[OF sp]) (simp add: sched_init_def u32_MAX_def)
  have t0: "tasks (rq s) ! 0 = Some ?t" "rq_len (rq s) = 1" by (simp_all add: s_def)
  have "hook_ok (None :: (pid_t \<Rightarrow> sched \<times> unit \<Rightarrow> sched \<times> unit) option)" by (simp add: hook_ok_def)
  then have "find_pid_idx (rq s) (pid ?t) = Some 0" using pids_identify_tasks[OF st] t0(1) by fastforce
  then show ?thesis using st t0(2) by (intro exI[of _ s]) simp
qed

end
