(* ===== verification/Sched_Props.thy ===== *)
theory Sched_Props
  imports Sched_Inv
begin

text \<open>
  Two behaviours that depend on the order of steps: choosing a task on two CPUs, and waiting on
  and waking a futex.
\<close>

subsection \<open>Two CPUs\<close>



subsection \<open>Futexes\<close>

definition waiting_on :: "usize \<Rightarrow> futex_table \<Rightarrow> nat" where
  "waiting_on uaddr tbl = length (filter (is_waiter (\<lambda>w. fw_uaddr w = uaddr)) tbl)"

lemma waiting_on_simps [simp]: "waiting_on u [] = 0" "waiting_on u (xs @ ys) = waiting_on u xs + waiting_on u ys"
  "waiting_on u (x # xs) = (if is_waiter (\<lambda>w. fw_uaddr w = u) x then 1 else 0) + waiting_on u xs"
  by (simp_all add: waiting_on_def)

lemma futex_collect_pids:
  "futex_collect uaddr n c tbl = (ps, tbl') \<Longrightarrow> p \<in> set ps \<Longrightarrow> p \<in> fw_pid ` {w. Some w \<in> set tbl}"
proof (induction tbl arbitrary: c ps tbl')
  case (Cons s tbl)
  obtain ps1 tbl1 where r: "futex_collect uaddr n c tbl = (ps1, tbl1)" by fastforce
  obtain ps2 tbl2 where r2: "futex_collect uaddr n (Suc c) tbl = (ps2, tbl2)" by fastforce
  show ?case
    using Cons.prems Cons.IH[OF r] Cons.IH[OF r2] r r2 by (cases s) (auto split: if_splits)
qed simp

lemma futex_collect_all:
  assumes "futex_collect uaddr n c tbl = (ps, tbl')" "c + waiting_on uaddr tbl \<le> 32" "c + waiting_on uaddr tbl < n"
  shows "ps = map (fw_pid \<circ> the) (filter (is_waiter (\<lambda>w. fw_uaddr w = uaddr)) tbl)
    \<and> tbl' = map (\<lambda>s. if is_waiter (\<lambda>w. fw_uaddr w = uaddr) s then None else s) tbl"
  using assms
proof (induction tbl arbitrary: c ps tbl')
  case (Cons s tbl)
  obtain ps1 tbl1 where r: "futex_collect uaddr n (if is_waiter (\<lambda>w. fw_uaddr w = uaddr) s then Suc c else c) tbl = (ps1, tbl1)"
    by fastforce
  have "ps1 = map (fw_pid \<circ> the) (filter (is_waiter (\<lambda>w. fw_uaddr w = uaddr)) tbl)
    \<and> tbl1 = map (\<lambda>s. if is_waiter (\<lambda>w. fw_uaddr w = uaddr) s then None else s) tbl"
    by (rule Cons.IH[OF r]) (use Cons.prems in \<open>auto split: if_splits\<close>)
  then show ?case
    using Cons.prems r by (cases s) (auto split: if_splits)
qed simp

lemma find_pid_wake_step:
  "find_pid (rq (on_pid q (\<lambda>t. t\<lparr>tstate := Ready, blocked_futex := 0\<rparr>) s)) p =
     map_option (\<lambda>t. if p = q then t\<lparr>tstate := Ready, blocked_futex := 0\<rparr> else t) (find_pid (rq s) p)"
  by (rule find_pid_on_pid) simp

text \<open>Waking a list of tasks makes exactly the blocked ones on the list Ready.\<close>

lemma futex_wake_pids_task:
  assumes "futex_wake_pids ps s = (k, s')"
  shows "find_pid (rq s') p = map_option (\<lambda>t. if p \<in> set ps \<and> tstate t = Blocked
           then t\<lparr>tstate := Ready, blocked_futex := 0\<rparr> else t) (find_pid (rq s) p)"
  using assms
proof (induction ps arbitrary: s k)
  case (Cons q ps)
  show ?case
  proof (cases "\<exists>t. find_pid (rq s) q = Some t \<and> tstate t = Blocked")
    case True
    let ?s1 = "on_pid q (\<lambda>t. t\<lparr>tstate := Ready, blocked_futex := 0\<rparr>) s"
    obtain n where n: "futex_wake_pids ps ?s1 = (n, s')" using True Cons.prems by (auto split: prod.splits)
    show ?thesis
      unfolding Cons.IH[OF n] find_pid_wake_step using True by (cases "find_pid (rq s) p") auto
  next
    case False
    then have n: "futex_wake_pids ps s = (k, s')" using Cons.prems by (auto split: option.splits if_splits)
    show ?thesis unfolding Cons.IH[OF n] using False by (cases "find_pid (rq s) p") auto
  qed
qed (simp add: option.map_ident)

lemma futex_enter_task:
  "find_pid (rq (fst (futex_wait_enter cpu uaddr (s, tbl)))) p =
     map_option (\<lambda>t. if p = current_pid cpu s then t\<lparr>tstate := Blocked, blocked_futex := uaddr\<rparr> else t) (find_pid (rq s) p)"
  using find_pid_on_pid[of "\<lambda>t. t\<lparr>tstate := Blocked, blocked_futex := uaddr\<rparr>" "current_pid cpu s" s p]
  by (simp add: futex_wait_enter_def Let_def)

lemma snd_futex_enter: "snd (futex_wait_enter cpu uaddr (s, tbl)) = futex_register (current_pid cpu s) uaddr tbl"
  by (simp add: futex_wait_enter_def Let_def)

lemma register_waits:
  assumes "position (\<lambda>s. s = None) tbl = Some i"
  shows "Some \<lparr>fw_pid = p, fw_uaddr = uaddr\<rparr> \<in> set (futex_register p uaddr tbl)"
    "waiting_on uaddr (futex_register p uaddr tbl) = Suc (waiting_on uaddr tbl)"
proof -
  note i = position_SomeD(1,2)[OF assms]
  have r: "futex_register p uaddr tbl = tbl[i := Some \<lparr>fw_pid = p, fw_uaddr = uaddr\<rparr>]"
    using assms by (simp add: futex_register_def)
  show "Some \<lparr>fw_pid = p, fw_uaddr = uaddr\<rparr> \<in> set (futex_register p uaddr tbl)"
    using i(1) by (simp add: r set_update_memI)
  have "waiting_on uaddr tbl = waiting_on uaddr (take i tbl @ None # drop (Suc i) tbl)"
    using id_take_nth_drop[OF i(1)] i(2) by simp
  then show "waiting_on uaddr (futex_register p uaddr tbl) = Suc (waiting_on uaddr tbl)"
    unfolding r upd_conv_take_nth_drop[OF i(1)] by simp
qed



text \<open>
  C40. When the table is full, \<open>futex_wait\<close> blocks the task without registering it, and no \<open>futex_wake\<close> of
  any address makes it Ready.
\<close>

theorem futex_full_table_strands_waiter:
  assumes full: "\<forall>x \<in> set tbl. x \<noteq> None" and other: "\<forall>w. Some w \<in> set tbl \<longrightarrow> fw_pid w \<noteq> current_pid cpu s"
    and t: "current_task cpu s = Some t"
    and w: "futex_wake uaddr' n (futex_wait_enter cpu uaddr (s, tbl)) = (woken, s', tbl')"
  shows "map_option tstate (find_pid (rq s') (current_pid cpu s)) = Some Blocked"
proof -
  let ?p = "current_pid cpu s"
  obtain s1 tbl1 where e: "futex_wait_enter cpu uaddr (s, tbl) = (s1, tbl1)" by fastforce
  have "position (\<lambda>s. s = None) tbl = None" using full by (simp add: position_None_iff)
  then have tb: "tbl1 = tbl" using snd_futex_enter[of cpu uaddr s tbl] e by (simp add: futex_register_def)
  obtain ps where c: "futex_collect uaddr' (unat n) 0 tbl = (ps, tbl')" "futex_wake_pids ps s1 = (woken, s')"
    using w unfolding e tb futex_wake_def by (auto simp: Let_def split: prod.splits)
  have "?p \<notin> set ps"
  proof
    assume "?p \<in> set ps"
    then have "?p \<in> fw_pid ` {w. Some w \<in> set tbl}" by (rule futex_collect_pids[OF c(1)])
    then show False using other by auto
  qed
  moreover have "find_pid (rq s1) ?p = Some (t\<lparr>tstate := Blocked, blocked_futex := uaddr\<rparr>)"
    using futex_enter_task[of cpu uaddr s tbl ?p] t e by simp
  ultimately show ?thesis using futex_wake_pids_task[OF c(2), of ?p] by simp
qed

theorem futex_full_table_strands_waiter_witness:
  "\<exists>woken s' tbl'. futex_wake 0x400000 1 (futex_wait_enter 0 0x400000
       (demo_sched (\<lambda>t. t) demo_mm, replicate 256 (Some \<lparr>fw_pid = 7, fw_uaddr = 0x500000\<rparr>))) = (woken, s', tbl')
     \<and> map_option tstate (find_pid (rq s') 1) = Some Blocked"
proof -
  obtain woken s' tbl' where w: "futex_wake 0x400000 1 (futex_wait_enter 0 0x400000
      (demo_sched (\<lambda>t. t) demo_mm, replicate 256 (Some \<lparr>fw_pid = 7, fw_uaddr = 0x500000\<rparr>))) = (woken, s', tbl')"
    using prod_cases3 by blast
  then show ?thesis
    using futex_full_table_strands_waiter[OF _ _ _ w] demo_sched_current[of "\<lambda>t. t" demo_mm] by auto
qed

end
