(* ===== verification/Ipc.thy ===== *)
theory Ipc
  imports Sched_Inv Kernel_Lib
begin

text \<open>
  Message passing (\<open>src/ipc/src\<close>): messages, the port table (an open-addressed hash table of 4096
  buckets, each with a ring of 16 message slots), the operations on ports, and channels. A sending or
  closing operation wakes tasks through the scheduler, so those operations carry both states.
\<close>

definition MESSAGE_INLINE_BYTES :: nat where "MESSAGE_INLINE_BYTES = 56"

record message =
  msg_tag :: u64
  msg_reply_port :: u32
  msg_data :: "u8 list"
  msg_cap :: "usize option"

definition message_empty :: message where
  "message_empty = \<lparr>msg_tag = 0, msg_reply_port = 0, msg_data = replicate MESSAGE_INLINE_BYTES 0, msg_cap = None\<rparr>"

type_synonym port = u32

definition MAX_PORTS :: nat where "MAX_PORTS = 65536"
definition QUEUE_DEPTH :: nat where "QUEUE_DEPTH = 16"
definition EMPTY_ID :: u32 where "EMPTY_ID = u32_MAX"
definition LIVE_BUCKETS :: nat where "LIVE_BUCKETS = 4096"
definition PROBE_LIMIT :: nat where "PROBE_LIMIT = 16"

datatype send_error = PortNotFound | QueueFull

subsection \<open>Buckets\<close>

record port_entry =
  port_id :: u32
  owner_pid :: u32
  queue :: "message option list"
  q_head :: nat
  q_tail :: nat

definition entry_empty :: port_entry where
  "entry_empty = \<lparr>port_id = EMPTY_ID, owner_pid = 0, queue = replicate QUEUE_DEPTH None, q_head = 0, q_tail = 0\<rparr>"

definition is_free :: "port_entry \<Rightarrow> bool" where
  "is_free e \<longleftrightarrow> port_id e = EMPTY_ID"

definition entry_enqueue :: "message \<Rightarrow> port_entry \<Rightarrow> bool \<times> port_entry" where
  "entry_enqueue m e =
     (let next = (q_tail e + 1) mod QUEUE_DEPTH
      in if next = q_head e then (False, e)
         else (True, e\<lparr>queue := (queue e)[q_tail e := Some m], q_tail := next\<rparr>))"

definition entry_dequeue :: "port_entry \<Rightarrow> message option \<times> port_entry" where
  "entry_dequeue e =
     (if q_head e = q_tail e then (None, e)
      else (queue e ! q_head e, e\<lparr>queue := (queue e)[q_head e := None], q_head := (q_head e + 1) mod QUEUE_DEPTH\<rparr>))"

subsection \<open>The table\<close>

record port_table =
  buckets :: "port_entry list"
  next_id :: u32

definition port_table_new :: port_table where
  "port_table_new = \<lparr>buckets = replicate LIVE_BUCKETS entry_empty, next_id = 0\<rparr>"

text \<open>The probe sequence of an id; \<open>probe\<close> is the loop of \<open>find\<close> from step \<open>i\<close> with \<open>k\<close> steps left.\<close>

definition probe_idx :: "u32 \<Rightarrow> nat \<Rightarrow> nat" where
  "probe_idx port i = (unat port mod LIVE_BUCKETS + i) mod LIVE_BUCKETS"

fun probe :: "port_table \<Rightarrow> u32 \<Rightarrow> nat \<Rightarrow> nat \<Rightarrow> nat option" where
  "probe t port i 0 = None"
| "probe t port i (Suc k) =
     (let idx = probe_idx port i
      in if is_free (buckets t ! idx) then None
         else if port_id (buckets t ! idx) = port then Some idx
         else probe t port (Suc i) k)"

definition port_find :: "u32 \<Rightarrow> port_table \<Rightarrow> nat option" where
  "port_find port t = probe t port 0 PROBE_LIMIT"

text \<open>\<open>find_mut\<close> has the body of \<open>find\<close>.\<close>

definition port_find_mut :: "u32 \<Rightarrow> port_table \<Rightarrow> nat option" where
  "port_find_mut port t = probe t port 0 PROBE_LIMIT"

fun free_probe :: "port_table \<Rightarrow> u32 \<Rightarrow> nat \<Rightarrow> nat \<Rightarrow> nat option" where
  "free_probe t port i 0 = None"
| "free_probe t port i (Suc k) =
     (let idx = probe_idx port i
      in if is_free (buckets t ! idx) then Some idx else free_probe t port (Suc i) k)"

fun port_alloc_loop :: "u32 \<Rightarrow> nat \<Rightarrow> port_table \<Rightarrow> (port \<times> nat) option \<times> port_table" where
  "port_alloc_loop owner 0 t = (None, t)"
| "port_alloc_loop owner (Suc n) t =
     (let p = next_id t;
          t1 = t\<lparr>next_id := (next_id t + 1) mod of_nat MAX_PORTS\<rparr>
      in case free_probe t1 p 0 PROBE_LIMIT of
           None \<Rightarrow> port_alloc_loop owner n t1
         | Some idx \<Rightarrow>
             (Some (p, idx),
              t1\<lparr>buckets := (buckets t1)[idx := (buckets t1 ! idx)\<lparr>port_id := p, owner_pid := owner, q_head := 0, q_tail := 0\<rparr>]\<rparr>))"

definition port_alloc :: "u32 \<Rightarrow> port_table \<Rightarrow> (port \<times> nat) option \<times> port_table" where
  "port_alloc owner t = port_alloc_loop owner MAX_PORTS t"

subsection \<open>Operations on ports\<close>

text \<open>The bucket loop of \<open>release_by_owner\<close>: the ids of the closed ports, at most 64 of them kept.\<close>

fun release_loop :: "u32 \<Rightarrow> nat \<Rightarrow> port_entry list \<Rightarrow> port list \<times> port_entry list" where
  "release_loop p n [] = ([], [])"
| "release_loop p n (b # bs) =
     (if \<not> is_free b \<and> owner_pid b = p
      then (if n < 64
            then (let (ids, bs') = release_loop p (n + 1) bs in (port_id b # ids, entry_empty # bs'))
            else (let (ids, bs') = release_loop p n bs in (ids, entry_empty # bs')))
      else (let (ids, bs') = release_loop p n bs in (ids, b # bs')))"

definition release_by_owner :: "u32 \<Rightarrow> sched \<times> port_table \<Rightarrow> sched \<times> port_table" where
  "release_by_owner p st =
     (let (s, t) = st;
          (ids, bs) = release_loop p 0 (buckets t)
      in (fold sched_unblock_port ids s, t\<lparr>buckets := bs\<rparr>))"

definition port_close :: "port \<Rightarrow> port_table \<Rightarrow> port_table" where
  "port_close port t = (case port_find_mut port t of
       None \<Rightarrow> t
     | Some idx \<Rightarrow> t\<lparr>buckets := (buckets t)[idx := entry_empty]\<rparr>)"

definition port_create :: "u32 \<Rightarrow> port_table \<Rightarrow> port option \<times> port_table" where
  "port_create p t = (let (r, t') = port_alloc p t in (map_option fst r, t'))"

definition send_table :: "port \<Rightarrow> message \<Rightarrow> port_table \<Rightarrow> (send_error + unit) \<times> port_table" where
  "send_table port m t = (case port_find_mut port t of
       None \<Rightarrow> (Inl PortNotFound, t)
     | Some idx \<Rightarrow>
         (let (ok, e) = entry_enqueue m (buckets t ! idx)
          in if ok then (Inr (), t\<lparr>buckets := (buckets t)[idx := e]\<rparr>) else (Inl QueueFull, t)))"

definition port_send :: "port \<Rightarrow> message \<Rightarrow> sched \<times> port_table \<Rightarrow> (send_error + unit) \<times> sched \<times> port_table" where
  "port_send port m st =
     (let (s, t) = st;
          (result, t') = send_table port m t
      in (result, (case result of Inr u \<Rightarrow> sched_unblock_port port s | Inl e \<Rightarrow> s), t'))"

definition port_stats :: "port \<Rightarrow> port_table \<Rightarrow> (nat \<times> nat) option" where
  "port_stats port t = (case port_find port t of
       None \<Rightarrow> None
     | Some idx \<Rightarrow>
         (let b = buckets t ! idx
          in Some ((q_tail b + QUEUE_DEPTH - q_head b) mod QUEUE_DEPTH, QUEUE_DEPTH - 1)))"

definition port_recv :: "port \<Rightarrow> port_table \<Rightarrow> message option \<times> port_table" where
  "port_recv port t = (case port_find_mut port t of
       None \<Rightarrow> (None, t)
     | Some idx \<Rightarrow> (let (m, e) = entry_dequeue (buckets t ! idx) in (m, t\<lparr>buckets := (buckets t)[idx := e]\<rparr>)))"

definition port_recv_as :: "port \<Rightarrow> u32 \<Rightarrow> port_table \<Rightarrow> message option \<times> port_table" where
  "port_recv_as port caller t = (case port_find_mut port t of
       None \<Rightarrow> (None, t)
     | Some idx \<Rightarrow>
         (if owner_pid (buckets t ! idx) \<noteq> caller then (None, t)
          else (let (m, e) = entry_dequeue (buckets t ! idx) in (m, t\<lparr>buckets := (buckets t)[idx := e]\<rparr>))))"

definition is_owner :: "port \<Rightarrow> u32 \<Rightarrow> port_table \<Rightarrow> bool" where
  "is_owner port p t = (case port_find port t of None \<Rightarrow> False | Some idx \<Rightarrow> owner_pid (buckets t ! idx) = p)"

record channel =
  client :: port
  server :: port

definition channel_new :: "u32 \<Rightarrow> port_table \<Rightarrow> channel option \<times> port_table" where
  "channel_new p t =
     (let (c, t1) = port_create p t
      in case c of
           None \<Rightarrow> (None, t1)
         | Some cl \<Rightarrow>
             (let (sv, t2) = port_create p t1
              in case sv of
                   None \<Rightarrow> (None, port_close cl t2)
                 | Some q \<Rightarrow> (Some \<lparr>client = cl, server = q\<rparr>, t2)))"

text \<open>\<open>ipc::init\<close> registers \<open>release_by_owner\<close> as the exit hook of the scheduler.\<close>

definition ipc_hook :: "(pid_t \<Rightarrow> sched \<times> port_table \<Rightarrow> sched \<times> port_table) option" where
  "ipc_hook = Some release_by_owner"

lemma ipc_hook_ok: "hook_ok ipc_hook"
  by (auto simp: hook_ok_def ipc_hook_def release_by_owner_def Let_def split: prod.splits)

end
