(* ===== verification/Ipc_Props.thy ===== *)
theory Ipc_Props
  imports Ipc
begin

text \<open>
  The port table refines a map from port numbers to owners and bounded first-in first-out mailboxes
  while at most 4096 ports have been created; beyond that, closing a port can hide another one and a
  port number can be given out twice.
\<close>

subsection \<open>The queue of a bucket\<close>

definition as_ring :: "port_entry \<Rightarrow> message ring_buffer" where
  "as_ring e = \<lparr>buf = queue e, head = q_head e, tail = q_tail e\<rparr>"

definition entry_ok :: "port_entry \<Rightarrow> bool" where
  "entry_ok e \<longleftrightarrow> length (queue e) = QUEUE_DEPTH \<and> ring_invar (as_ring e)"

definition entry_items :: "port_entry \<Rightarrow> message list" where
  "entry_items e = ring_items (as_ring e)"

lemma entry_enqueue_ring:
  assumes "length (queue e) = QUEUE_DEPTH"
  shows "fst (entry_enqueue m e) = fst (ring_push m (as_ring e))"
    "as_ring (snd (entry_enqueue m e)) = snd (ring_push m (as_ring e))"
    "length (queue (snd (entry_enqueue m e))) = QUEUE_DEPTH"
  using assms by (simp_all add: entry_enqueue_def ring_push_def as_ring_def Let_def)

lemma entry_dequeue_ring:
  assumes "length (queue e) = QUEUE_DEPTH"
  shows "fst (entry_dequeue e) = fst (ring_pop (as_ring e))"
    "as_ring (snd (entry_dequeue e)) = snd (ring_pop (as_ring e))"
    "length (queue (snd (entry_dequeue e))) = QUEUE_DEPTH"
  using assms by (simp_all add: entry_dequeue_def ring_pop_def as_ring_def)

lemma entry_cap: "entry_ok e \<Longrightarrow> ring_cap (as_ring e) = 15"
  by (simp add: entry_ok_def ring_cap_def as_ring_def QUEUE_DEPTH_def)

interpretation mbox: bounded_fifo entry_enqueue entry_dequeue entry_items entry_ok "\<lambda>e. 15"
proof (unfold_locales, goal_cases)
  case (1 e m)
  then show ?case
    using ring.enq_room[of "as_ring e" m] entry_enqueue_ring[of e m] entry_cap[of e] by (simp add: entry_ok_def entry_items_def)
next
  case (2 e m)
  then have "ring_push m (as_ring e) = (False, as_ring e)"
    using ring.enq_full[of "as_ring e" m] entry_cap[of e] by (simp add: entry_ok_def entry_items_def)
  then have "\<not> fst (entry_enqueue m e)" using entry_enqueue_ring(1)[of e m] 2 by (simp add: entry_ok_def)
  then show ?case by (auto simp: entry_enqueue_def Let_def split: if_splits)
next
  case (3 e)
  then have "ring_len (as_ring e) = 0" using length_ring_items[of "as_ring e"] by (simp add: entry_items_def)
  then have "q_tail e = q_head e"
    using ring_tail_eq[of "as_ring e"] 3(1) by (simp add: entry_ok_def ring_invar_def as_ring_def)
  then show ?case by (simp add: entry_dequeue_def)
next
  case (4 e m ms)
  then show ?case
    using ring.deq_some[of "as_ring e" m ms] entry_dequeue_ring[of e] by (simp add: entry_ok_def entry_items_def)
next
  case (5 e m)
  then show ?case using ring.enq_invar[of "as_ring e" m] entry_enqueue_ring[of e m] by (simp add: entry_ok_def)
next
  case (6 e)
  then show ?case using ring.deq_invar[of "as_ring e"] entry_dequeue_ring[of e] by (simp add: entry_ok_def)
next
  case (7 e)
  then show ?case using ring.items_cap[of "as_ring e"] entry_cap[of e] by (simp add: entry_ok_def entry_items_def)
qed

lemma entry_items_reset: "q_head e = 0 \<Longrightarrow> q_tail e = 0 \<Longrightarrow> length (queue e) = QUEUE_DEPTH \<Longrightarrow> entry_ok e \<and> entry_items e = []"
  by (simp add: entry_ok_def entry_items_def ring_invar_def ring_items_def ring_len_def as_ring_def QUEUE_DEPTH_def)

lemma entry_empty_ok [simp]: "entry_ok entry_empty" "is_free entry_empty"
  using entry_items_reset[of entry_empty] by (simp_all add: entry_empty_def is_free_def)

lemma entry_enqueue_keeps: "port_id (snd (entry_enqueue m e)) = port_id e \<and> owner_pid (snd (entry_enqueue m e)) = owner_pid e"
  by (simp add: entry_enqueue_def Let_def)

lemma entry_dequeue_keeps: "port_id (snd (entry_dequeue e)) = port_id e \<and> owner_pid (snd (entry_dequeue e)) = owner_pid e"
  by (simp add: entry_dequeue_def)

lemma entry_depth: "entry_ok e \<Longrightarrow> (q_tail e + QUEUE_DEPTH - q_head e) mod QUEUE_DEPTH = length (entry_items e)"
  by (simp add: entry_ok_def entry_items_def ring_len_def as_ring_def)

subsection \<open>The abstract mailboxes\<close>

type_synonym mailboxes = "port \<Rightarrow> (u32 \<times> message list) option"

record mail_spec =
  boxes :: mailboxes
  created :: nat

definition mail_init :: mail_spec where
  "mail_init = \<lparr>boxes = Map.empty, created = 0\<rparr>"

datatype ipc_op = Create u32 | Close port | Release u32 | Send port message | Recv port | Recv_as port u32
  | Owner_test port u32 | Stats port | New_channel u32

datatype ipc_result = RUnit | RPort "port option" | RSend "send_error + unit" | RMsg "message option" | RBool bool
  | RStats "(nat \<times> nat) option" | RChannel "channel option"

definition spec_create :: "u32 \<Rightarrow> mail_spec \<Rightarrow> port \<times> mail_spec" where
  "spec_create p a = (of_nat (created a), \<lparr>boxes = (boxes a)(of_nat (created a) \<mapsto> (p, [])), created = created a + 1\<rparr>)"

definition spec_recv :: "port \<Rightarrow> (u32 \<Rightarrow> bool) \<Rightarrow> mail_spec \<Rightarrow> message option \<times> mail_spec" where
  "spec_recv port allowed a = (case boxes a port of
       Some (own, m # ms) \<Rightarrow> if allowed own then (Some m, a\<lparr>boxes := (boxes a)(port \<mapsto> (own, ms))\<rparr>) else (None, a)
     | _ \<Rightarrow> (None, a))"

definition owned :: "u32 \<Rightarrow> mailboxes \<Rightarrow> port \<Rightarrow> bool" where
  "owned p bx q \<longleftrightarrow> (case bx q of None \<Rightarrow> False | Some (own, ms) \<Rightarrow> own = p)"

text \<open>A step gives the result, the ports whose waiting tasks are woken, and the new state.\<close>

fun spec_step :: "ipc_op \<Rightarrow> mail_spec \<Rightarrow> ipc_result \<times> port list \<times> mail_spec" where
  "spec_step (Create p) a = (let (q, a') = spec_create p a in (RPort (Some q), [], a'))"
| "spec_step (Close q) a = (RUnit, [], a\<lparr>boxes := (boxes a)(q := None)\<rparr>)"
| "spec_step (Release p) a =
     (RUnit, take 64 (filter (owned p (boxes a)) (map of_nat [0..<created a])),
      a\<lparr>boxes := (\<lambda>q. if owned p (boxes a) q then None else boxes a q)\<rparr>)"
| "spec_step (Send q m) a = (case boxes a q of
       None \<Rightarrow> (RSend (Inl PortNotFound), [], a)
     | Some (own, ms) \<Rightarrow>
         (if length ms < 15 then (RSend (Inr ()), [q], a\<lparr>boxes := (boxes a)(q \<mapsto> (own, ms @ [m]))\<rparr>)
          else (RSend (Inl QueueFull), [], a)))"
| "spec_step (Recv q) a = (let (r, a') = spec_recv q (\<lambda>own. True) a in (RMsg r, [], a'))"
| "spec_step (Recv_as q p) a = (let (r, a') = spec_recv q (\<lambda>own. own = p) a in (RMsg r, [], a'))"
| "spec_step (Owner_test q p) a = (RBool (owned p (boxes a) q), [], a)"
| "spec_step (Stats q) a = (RStats (map_option (\<lambda>(own, ms). (length ms, 15)) (boxes a q)), [], a)"
| "spec_step (New_channel p) a =
     (let (c, a1) = spec_create p a; (q, a2) = spec_create p a1 in (RChannel (Some \<lparr>client = c, server = q\<rparr>), [], a2))"

fun spec_run :: "ipc_op list \<Rightarrow> mail_spec \<Rightarrow> ipc_result list \<times> port list \<times> mail_spec" where
  "spec_run [] a = ([], [], a)"
| "spec_run (op # ops) a =
     (let (r, w, a1) = spec_step op a; (rs, ws, a2) = spec_run ops a1 in (r # rs, w @ ws, a2))"

text \<open>The same operations on the port table.\<close>

fun ipc_step :: "ipc_op \<Rightarrow> sched \<times> port_table \<Rightarrow> ipc_result \<times> sched \<times> port_table" where
  "ipc_step (Create p) (s, t) = (let (q, t') = port_create p t in (RPort q, s, t'))"
| "ipc_step (Close q) (s, t) = (RUnit, s, port_close q t)"
| "ipc_step (Release p) (s, t) = (RUnit, release_by_owner p (s, t))"
| "ipc_step (Send q m) (s, t) = (let (r, st') = port_send q m (s, t) in (RSend r, st'))"
| "ipc_step (Recv q) (s, t) = (let (r, t') = port_recv q t in (RMsg r, s, t'))"
| "ipc_step (Recv_as q p) (s, t) = (let (r, t') = port_recv_as q p t in (RMsg r, s, t'))"
| "ipc_step (Owner_test q p) (s, t) = (RBool (is_owner q p t), s, t)"
| "ipc_step (Stats q) (s, t) = (RStats (port_stats q t), s, t)"
| "ipc_step (New_channel p) (s, t) = (let (c, t') = channel_new p t in (RChannel c, s, t'))"

fun ipc_run :: "ipc_op list \<Rightarrow> sched \<times> port_table \<Rightarrow> ipc_result list \<times> sched \<times> port_table" where
  "ipc_run [] st = ([], st)"
| "ipc_run (op # ops) st = (let (r, st1) = ipc_step op st; (rs, st2) = ipc_run ops st1 in (r # rs, st2))"

fun creations :: "ipc_op \<Rightarrow> nat" where
  "creations (Create p) = 1"
| "creations (New_channel p) = 2"
| "creations _ = 0"

subsection \<open>The table while every port is in its home bucket\<close>

definition home :: "port_table \<Rightarrow> nat \<Rightarrow> bool" where
  "home t n \<longleftrightarrow> length (buckets t) = 4096 \<and> n \<le> 4096 \<and> next_id t = of_nat n
     \<and> (\<forall>i < 4096. entry_ok (buckets t ! i) \<and> (is_free (buckets t ! i) \<or> port_id (buckets t ! i) = of_nat i \<and> i < n))"

definition mail_of :: "port_table \<Rightarrow> mailboxes" where
  "mail_of t q = (case port_find q t of None \<Rightarrow> None
     | Some i \<Rightarrow> Some (owner_pid (buckets t ! i), entry_items (buckets t ! i)))"

lemma port_find_mut_eq [simp]: "port_find_mut q t = port_find q t"
  by (simp add: port_find_mut_def port_find_def)

lemma unat_small: "i < 4096 \<Longrightarrow> unat (of_nat i :: u32) = i"
  by (simp add: unat_of_nat)

lemma probe_far:
  assumes "home t n" "4096 \<le> unat q"
  shows "probe t q i k = None"
proof (induction k arbitrary: i)
  case (Suc k)
  have i: "probe_idx q i < 4096" by (simp add: probe_idx_def LIVE_BUCKETS_def)
  then have "is_free (buckets t ! probe_idx q i) \<or> port_id (buckets t ! probe_idx q i) = of_nat (probe_idx q i)"
    using assms(1) by (auto simp: home_def)
  moreover have "of_nat (probe_idx q i) \<noteq> q" using unat_small[OF i] i assms(2) by auto
  ultimately show ?case using Suc by (auto simp: Let_def)
qed simp

lemma find_home:
  assumes "home t n"
  shows "port_find q t = (if unat q < 4096 \<and> \<not> is_free (buckets t ! unat q) then Some (unat q) else None)"
proof (cases "unat q < 4096")
  case True
  have p: "probe_idx q 0 = unat q" using True by (simp add: probe_idx_def LIVE_BUCKETS_def)
  have "\<not> is_free (buckets t ! unat q) \<Longrightarrow> port_id (buckets t ! unat q) = q" using assms True by (auto simp: home_def)
  then show ?thesis using True p by (simp add: port_find_def PROBE_LIMIT_def numeral_eq_Suc[of num.One] Let_def)
     (simp add: numeral_eq_Suc Let_def p)
next
  case False
  then show ?thesis using probe_far[OF assms] by (simp add: port_find_def)
qed

lemma mail_home:
  assumes "home t n"
  shows "mail_of t q = (if unat q < 4096 \<and> \<not> is_free (buckets t ! unat q)
    then Some (owner_pid (buckets t ! unat q), entry_items (buckets t ! unat q)) else None)"
  by (simp add: mail_of_def find_home[OF assms])

text \<open>Every operation on one port replaces one bucket.\<close>

lemma home_update:
  assumes h: "home t n" and i: "i < 4096" and e: "entry_ok e" "is_free e \<or> port_id e = of_nat i \<and> i < n'"
    and n: "n \<le> n'" "n' \<le> 4096"
  shows "home (t\<lparr>buckets := (buckets t)[i := e], next_id := of_nat n'\<rparr>) n'" (is "home ?t n'")
    "mail_of (t\<lparr>buckets := (buckets t)[i := e], next_id := of_nat n'\<rparr>)
       = (mail_of t)(of_nat i := if is_free e then None else Some (owner_pid e, entry_items e))"
proof -
  show h': "home ?t n'" using assms by (auto simp: home_def nth_list_update)
  have l: "length (buckets t) = 4096" using h by (simp add: home_def)
  show "mail_of ?t = (mail_of t)(of_nat i := if is_free e then None else Some (owner_pid e, entry_items e))"
  proof
    fix q :: u32
    have "unat q = i \<longleftrightarrow> q = of_nat i" using unat_small[OF i] by (simp add: word_unat_eq_iff)
    then show "mail_of ?t q = ((mail_of t)(of_nat i := if is_free e then None else Some (owner_pid e, entry_items e))) q"
      using i l by (auto simp: mail_home[OF h] mail_home[OF h'] nth_list_update unat_small[OF i])
  qed
qed

lemma home_update_same:
  assumes "home t n" "i < 4096" "entry_ok e" "is_free e \<or> port_id e = of_nat i \<and> i < n"
  shows "home (t\<lparr>buckets := (buckets t)[i := e]\<rparr>) n"
    "mail_of (t\<lparr>buckets := (buckets t)[i := e]\<rparr>)
       = (mail_of t)(of_nat i := if is_free e then None else Some (owner_pid e, entry_items e))"
proof -
  have "t\<lparr>buckets := bs\<rparr> = t\<lparr>buckets := bs, next_id := of_nat n\<rparr>" for bs
    using assms(1) by (simp add: home_def)
  then show "home (t\<lparr>buckets := (buckets t)[i := e]\<rparr>) n"
    "mail_of (t\<lparr>buckets := (buckets t)[i := e]\<rparr>)
       = (mail_of t)(of_nat i := if is_free e then None else Some (owner_pid e, entry_items e))"
    using home_update[OF assms(1-4) order_refl] assms(1) by (simp_all add: home_def)
qed

subsection \<open>Each operation refines its specification\<close>

lemma next_id_step: "n < 4096 \<Longrightarrow> (of_nat n + 1 :: u32) mod of_nat MAX_PORTS = of_nat (n + 1)"
  by (simp add: word_unat_eq_iff MAX_PORTS_def unat_mod unat_word_ariths unat_of_nat)

lemma port_create_home:
  assumes h: "home t n" and n: "n < 4096"
  shows "\<exists>t'. port_create p t = (Some (of_nat n), t') \<and> home t' (n + 1) \<and> mail_of t' = (mail_of t)(of_nat n \<mapsto> (p, []))"
proof -
  let ?e = "(buckets t ! n)\<lparr>port_id := of_nat n, owner_pid := p, q_head := 0, q_tail := 0\<rparr>"
  have nx: "next_id t = of_nat n" and b: "entry_ok (buckets t ! n)" "is_free (buckets t ! n)"
    using h n by (auto simp: home_def)
  have pr: "probe_idx (of_nat n) 0 = n" using n by (simp add: probe_idx_def LIVE_BUCKETS_def unat_small)
  have fp: "free_probe (t\<lparr>next_id := x\<rparr>) (of_nat n) 0 PROBE_LIMIT = Some n" for x
    using b(2) pr by (simp add: PROBE_LIMIT_def numeral_eq_Suc)
  have mp: "MAX_PORTS = Suc 65535" by (simp add: MAX_PORTS_def)
  have "port_create p t = (Some (of_nat n), t\<lparr>buckets := (buckets t)[n := ?e], next_id := of_nat (n + 1)\<rparr>)"
    unfolding port_create_def port_alloc_def mp port_alloc_loop.simps Let_def nx next_id_step[OF n, unfolded mp] fp by simp
  moreover have "of_nat n \<noteq> EMPTY_ID" using unat_small[OF n] n by (auto simp: EMPTY_ID_def u32_MAX_def)
  moreover have "entry_ok ?e" "entry_items ?e = []" using entry_items_reset[of ?e] b(1) by (simp_all add: entry_ok_def)
  ultimately show ?thesis using home_update[OF h n, of ?e "n + 1"] n by (auto simp: is_free_def)
qed

lemma bucket_home:
  assumes "home t n" "mail_of t q = Some (own, ms)"
  shows "port_find q t = Some (unat q)" "unat q < 4096" "entry_ok (buckets t ! unat q)" "\<not> is_free (buckets t ! unat q)"
    "port_id (buckets t ! unat q) = of_nat (unat q)" "unat q < n" "owner_pid (buckets t ! unat q) = own"
    "entry_items (buckets t ! unat q) = ms"
proof -
  show q: "unat q < 4096" "\<not> is_free (buckets t ! unat q)" "owner_pid (buckets t ! unat q) = own"
    "entry_items (buckets t ! unat q) = ms"
    using assms(2) by (auto simp: mail_home[OF assms(1)] split: if_splits)
  then show "port_find q t = Some (unat q)" by (simp add: find_home[OF assms(1)])
  show "entry_ok (buckets t ! unat q)" "port_id (buckets t ! unat q) = of_nat (unat q)" "unat q < n"
    using assms(1) q by (auto simp: home_def)
qed

lemma find_None_home: "home t n \<Longrightarrow> mail_of t q = None \<Longrightarrow> port_find q t = None"
  by (auto simp: mail_home find_home split: if_splits)

lemma put_home:
  assumes h: "home t n" and b: "mail_of t q = Some (own, ms)" and e: "entry_ok e" "port_id e = port_id (buckets t ! unat q)"
  shows "home (t\<lparr>buckets := (buckets t)[unat q := e]\<rparr>) n"
    "mail_of (t\<lparr>buckets := (buckets t)[unat q := e]\<rparr>) = (mail_of t)(q \<mapsto> (owner_pid e, entry_items e))"
proof -
  note bk = bucket_home[OF h b]
  have "\<not> is_free e" using bk(4) e(2) by (simp add: is_free_def)
  then show "home (t\<lparr>buckets := (buckets t)[unat q := e]\<rparr>) n"
    "mail_of (t\<lparr>buckets := (buckets t)[unat q := e]\<rparr>) = (mail_of t)(q \<mapsto> (owner_pid e, entry_items e))"
    using home_update_same[OF h bk(2) e(1)] bk(5,6) e(2) by simp_all
qed

lemma port_close_home:
  assumes h: "home t n"
  shows "home (port_close q t) n" "mail_of (port_close q t) = (mail_of t)(q := None)"
proof -
  have "home (port_close q t) n \<and> mail_of (port_close q t) = (mail_of t)(q := None)"
  proof (cases "mail_of t q")
    case None
    then show ?thesis using h find_None_home[OF h None] by (simp add: port_close_def fun_upd_idem)
  next
    case (Some b)
    then obtain own ms where b: "mail_of t q = Some (own, ms)" by (cases b) auto
    show ?thesis
      using home_update_same[OF h bucket_home(2)[OF h b], of entry_empty] bucket_home(1)[OF h b] by (simp add: port_close_def)
  qed
  then show "home (port_close q t) n" "mail_of (port_close q t) = (mail_of t)(q := None)" by simp_all
qed

definition refined :: "ipc_op \<Rightarrow> sched \<Rightarrow> port_table \<Rightarrow> nat \<Rightarrow> bool" where
  "refined op s t n \<longleftrightarrow> (\<exists>r w t'. ipc_step op (s, t) = (r, fold sched_unblock_port w s, t')
     \<and> spec_step op \<lparr>boxes = mail_of t, created = n\<rparr> = (r, w, \<lparr>boxes = mail_of t', created = n + creations op\<rparr>)
     \<and> home t' (n + creations op))"

lemma refined_create: "home t n \<Longrightarrow> n < 4096 \<Longrightarrow> refined (Create p) s t n"
  using port_create_home[of t n p] by (auto simp: refined_def spec_create_def)

lemma refined_channel:
  assumes "home t n" "n + 2 \<le> 4096"
  shows "refined (New_channel p) s t n"
proof -
  obtain t1 where t1: "port_create p t = (Some (of_nat n), t1)" "home t1 (n + 1)" "mail_of t1 = (mail_of t)(of_nat n \<mapsto> (p, []))"
    using port_create_home[OF assms(1)] assms(2) by auto
  obtain t2 where t2: "port_create p t1 = (Some (of_nat (n + 1)), t2)" "home t2 (n + 1 + 1)"
    "mail_of t2 = (mail_of t1)(of_nat (n + 1) \<mapsto> (p, []))"
    using port_create_home[OF t1(2)] assms(2) by auto
  show ?thesis
    unfolding refined_def
    by (intro exI[of _ "RChannel (Some \<lparr>client = of_nat n, server = of_nat (n + 1)\<rparr>)"] exI[of _ "[]"] exI[of _ t2])
       (use t1 t2 in \<open>simp add: channel_new_def spec_create_def\<close>)
qed

lemma refined_send:
  assumes h: "home t n"
  shows "refined (Send q m) s t n"
proof (cases "mail_of t q")
  case None
  then show ?thesis
    using find_None_home[OF h None] h by (simp add: refined_def port_send_def send_table_def)
next
  case (Some b)
  then obtain own ms where b: "mail_of t q = Some (own, ms)" by (cases b) auto
  note bk = bucket_home[OF h b]
  let ?e = "buckets t ! unat q"
  show ?thesis
  proof (cases "length ms < 15")
    case True
    obtain e where e: "entry_enqueue m ?e = (True, e)" "entry_items e = ms @ [m]"
      using mbox.enq_room[OF bk(3), of m] True bk(8) by (cases "entry_enqueue m ?e") auto
    have "entry_ok e" "port_id e = port_id ?e" "owner_pid e = own"
      using mbox.enq_invar[OF bk(3), of m] entry_enqueue_keeps[of m ?e] e(1) bk(7) by auto
    then show ?thesis
      using put_home[OF h b, of e] e bk(1) True b by (simp add: refined_def port_send_def send_table_def)
  next
    case False
    then have "entry_enqueue m ?e = (False, ?e)" using mbox.enq_full[OF bk(3)] bk(8) by simp
    then show ?thesis using False b bk(1) h by (simp add: refined_def port_send_def send_table_def)
  qed
qed

lemma recv_home:
  assumes h: "home t n" and b: "mail_of t q = Some (own, ms)" and d: "entry_dequeue (buckets t ! unat q) = (r, e)"
  shows "r = (case ms of [] \<Rightarrow> None | m # ms' \<Rightarrow> Some m)" "home (t\<lparr>buckets := (buckets t)[unat q := e]\<rparr>) n"
    "mail_of (t\<lparr>buckets := (buckets t)[unat q := e]\<rparr>) = (mail_of t)(q \<mapsto> (own, tl ms))"
proof -
  note bk = bucket_home[OF h b]
  have e: "entry_ok e" "port_id e = port_id (buckets t ! unat q)" "owner_pid e = own"
    using mbox.deq_invar[OF bk(3)] entry_dequeue_keeps[of "buckets t ! unat q"] d bk(7) by auto
  have i: "r = (case ms of [] \<Rightarrow> None | m # ms' \<Rightarrow> Some m) \<and> entry_items e = tl ms"
    using mbox.deq_empty[OF bk(3)] mbox.deq_some[OF bk(3)] bk(8) d by (cases ms) auto
  then show "r = (case ms of [] \<Rightarrow> None | m # ms' \<Rightarrow> Some m)" ..
  show "home (t\<lparr>buckets := (buckets t)[unat q := e]\<rparr>) n"
    "mail_of (t\<lparr>buckets := (buckets t)[unat q := e]\<rparr>) = (mail_of t)(q \<mapsto> (own, tl ms))"
    using put_home[OF h b e(1,2)] e(3) i by simp_all
qed

lemma refined_recv:
  assumes h: "home t n"
  shows "refined (Recv q) s t n" "refined (Recv_as q p) s t n"
proof -
  have "refined (Recv q) s t n \<and> refined (Recv_as q p) s t n"
  proof (cases "mail_of t q")
    case None
    then show ?thesis
      using find_None_home[OF h None] h by (simp add: refined_def port_recv_def port_recv_as_def spec_recv_def)
  next
    case (Some b)
    then obtain own ms where b: "mail_of t q = Some (own, ms)" by (cases b) auto
    note bk = bucket_home[OF h b]
    obtain r e where d: "entry_dequeue (buckets t ! unat q) = (r, e)" by fastforce
    note rc = recv_home[OF h b d]
    have "mail_of t = (mail_of t)(q \<mapsto> (own, []))" if "ms = []" using b that by (simp add: fun_upd_idem)
    then show ?thesis
      using rc h b d bk(1,7)
      by (cases ms) (simp_all add: refined_def port_recv_def port_recv_as_def spec_recv_def)
  qed
  then show "refined (Recv q) s t n" "refined (Recv_as q p) s t n" by simp_all
qed

lemma refined_query:
  assumes h: "home t n"
  shows "refined (Owner_test q p) s t n" "refined (Stats q) s t n"
proof -
  have "refined (Owner_test q p) s t n \<and> refined (Stats q) s t n"
  proof (cases "mail_of t q")
    case None
    then show ?thesis
      using find_None_home[OF h None] h by (simp add: refined_def is_owner_def port_stats_def owned_def)
  next
    case (Some b)
    then obtain own ms where b: "mail_of t q = Some (own, ms)" by (cases b) auto
    note bk = bucket_home[OF h b]
    show ?thesis
      using h b bk(1,7,8) entry_depth[OF bk(3)]
      by (simp add: refined_def is_owner_def port_stats_def owned_def Let_def) (simp add: QUEUE_DEPTH_def)
  qed
  then show "refined (Owner_test q p) s t n" "refined (Stats q) s t n" by simp_all
qed

lemma refined_close: "home t n \<Longrightarrow> refined (Close q) s t n"
  using port_close_home[of t n q] by (simp add: refined_def)

definition mine :: "u32 \<Rightarrow> port_entry \<Rightarrow> bool" where
  "mine p b \<longleftrightarrow> \<not> is_free b \<and> owner_pid b = p"

lemma release_loop_eq:
  "k \<le> 64 \<Longrightarrow> release_loop p k bs =
     (take (64 - k) (map port_id (filter (mine p) bs)), map (\<lambda>b. if mine p b then entry_empty else b) bs)"
proof (induction bs arbitrary: k)
  case (Cons b bs)
  show ?case
  proof (cases "k < 64")
    case True
    then have "64 - k = Suc (64 - Suc k)" by simp
    then show ?thesis using Cons True by (simp add: mine_def)
  next
    case False
    then show ?thesis using Cons by (simp add: mine_def)
  qed
qed simp

lemma mine_owned:
  assumes h: "home t n" and i: "i < 4096"
  shows "mine p (buckets t ! i) \<longleftrightarrow> owned p (mail_of t) (of_nat i)"
  using i by (auto simp: mine_def owned_def mail_home[OF h] unat_small)

lemma filter_upt_extend:
  assumes "n \<le> m" "\<And>i. n \<le> i \<Longrightarrow> i < m \<Longrightarrow> \<not> P i"
  shows "filter P [0..<m] = filter P [0..<n]"
proof -
  have "[0..<m] = [0..<n] @ [n..<m]" using assms(1) by (metis le_add_diff_inverse upt_add_eq_append zero_le)
  moreover have "filter P [n..<m] = []" using assms(2) by (simp add: filter_empty_conv)
  ultimately show ?thesis by simp
qed

lemma released_ids:
  assumes h: "home t n"
  shows "map port_id (filter (mine p) (buckets t)) = filter (owned p (mail_of t)) (map of_nat [0..<n])"
proof -
  have l: "length (buckets t) = 4096" "n \<le> 4096" using h by (auto simp: home_def)
  have id: "port_id (buckets t ! i) = of_nat i" "i < n" if "i < 4096" "mine p (buckets t ! i)" for i
    using h that by (auto simp: home_def mine_def)
  have "filter (mine p) (buckets t) = map (\<lambda>i. buckets t ! i) (filter (\<lambda>i. mine p (buckets t ! i)) [0..<4096])"
    using map_nth[of "buckets t"] l by (metis (no_types, lifting) comp_apply filter_cong filter_map)
  then have "map port_id (filter (mine p) (buckets t)) = map of_nat (filter (\<lambda>i. mine p (buckets t ! i)) [0..<4096])"
    using id(1) by simp
  also have "filter (\<lambda>i. mine p (buckets t ! i)) [0..<4096] = filter (\<lambda>i. mine p (buckets t ! i)) [0..<n]"
    using filter_upt_extend[OF l(2), of "\<lambda>i. mine p (buckets t ! i)"] id(2) by fastforce
  also have "\<dots> = filter (\<lambda>i. owned p (mail_of t) (of_nat i)) [0..<n]"
    using mine_owned[OF h] l(2) by (intro filter_cong) auto
  finally show ?thesis by (simp add: filter_map comp_def)
qed

lemma refined_release:
  assumes h: "home t n"
  shows "refined (Release p) s t n"
proof -
  let ?t = "t\<lparr>buckets := map (\<lambda>b. if mine p b then entry_empty else b) (buckets t)\<rparr>"
  have l: "length (buckets t) = 4096" using h by (simp add: home_def)
  have h': "home ?t n" using h by (auto simp: home_def)
  have m: "mail_of ?t q = (if owned p (mail_of t) q then None else mail_of t q)" for q
    using l mine_owned[OF h, of "unat q" p] by (auto simp: mail_home[OF h] mail_home[OF h'] owned_def)
  have "mail_of ?t = (\<lambda>q. if owned p (mail_of t) q then None else mail_of t q)" using m by (rule ext)
  then show ?thesis
    using h' by (simp add: refined_def release_by_owner_def release_loop_eq released_ids[OF h] cong: if_cong)
qed

lemma ipc_step_refined: "home t n \<Longrightarrow> n + creations op \<le> 4096 \<Longrightarrow> refined op s t n"
  by (cases op) (simp_all add: refined_create refined_close refined_release refined_send refined_recv refined_query refined_channel)

lemma home_new: "home port_table_new 0" "mail_of port_table_new = Map.empty"
proof -
  show h: "home port_table_new 0" by (simp add: home_def port_table_new_def LIVE_BUCKETS_def)
  show "mail_of port_table_new = Map.empty"
    by (rule ext, subst mail_home[OF h]) (simp add: port_table_new_def LIVE_BUCKETS_def)
qed

lemma ipc_run_refined:
  assumes "home t n" "n + sum_list (map creations ops) \<le> 4096"
  shows "\<exists>rs w t' m. ipc_run ops (s, t) = (rs, fold sched_unblock_port w s, t')
    \<and> spec_run ops \<lparr>boxes = mail_of t, created = n\<rparr> = (rs, w, \<lparr>boxes = mail_of t', created = m\<rparr>) \<and> home t' m"
  using assms
proof (induction ops arbitrary: s t n)
  case Nil
  then show ?case by (auto intro: exI[of _ "[]"])
next
  case (Cons op ops)
  obtain r w t1 where 1: "ipc_step op (s, t) = (r, fold sched_unblock_port w s, t1)"
    "spec_step op \<lparr>boxes = mail_of t, created = n\<rparr> = (r, w, \<lparr>boxes = mail_of t1, created = n + creations op\<rparr>)"
    "home t1 (n + creations op)"
    using ipc_step_refined[OF Cons.prems(1), of op s] Cons.prems(2) by (auto simp: refined_def)
  obtain rs ws t2 m where 2: "ipc_run ops (fold sched_unblock_port w s, t1) = (rs, fold sched_unblock_port ws (fold sched_unblock_port w s), t2)"
    "spec_run ops \<lparr>boxes = mail_of t1, created = n + creations op\<rparr> = (rs, ws, \<lparr>boxes = mail_of t2, created = m\<rparr>)" "home t2 m"
    using Cons.IH[OF 1(3), of "fold sched_unblock_port w s"] Cons.prems(2) by auto
  show ?case
    by (intro exI[of _ "r # rs"] exI[of _ "w @ ws"] exI[of _ t2] exI[of _ m]) (use 1 2 in simp)
qed



subsection \<open>Beyond 4096 ports\<close>

text \<open>
  C37. Closing a port empties its bucket without leaving a mark, and a lookup stops at the first empty
  bucket: a live port that had been displaced by the closed one can no longer be found, so sends to it
  fail and its owner cannot receive.
\<close>

theorem close_hides_displaced_port:
  assumes "length (buckets t) = LIVE_BUCKETS" "port_find p t = Some (probe_idx q 0)" "port_find q t = Some i" "q \<noteq> p"
  shows "port_find q (port_close p t) = None \<and> port_id (buckets (port_close p t) ! i) = q
    \<and> fst (send_table q m (port_close p t)) = Inl PortNotFound"
proof -
  let ?t = "port_close p t"
  have found: "probe t r j k = Some x \<Longrightarrow> port_id (buckets t ! x) = r" for r j k x
    by (induction k arbitrary: j) (auto simp: Let_def split: if_splits)
  have ids: "port_id (buckets t ! probe_idx q 0) = p" "port_id (buckets t ! i) = q"
    using found assms(2,3) by (auto simp: port_find_def)
  then have i: "i \<noteq> probe_idx q 0" using assms(4) by auto
  have lt: "probe_idx q 0 < LIVE_BUCKETS" by (simp add: probe_idx_def LIVE_BUCKETS_def)
  have c: "?t = t\<lparr>buckets := (buckets t)[probe_idx q 0 := entry_empty]\<rparr>" using assms(2) by (simp add: port_close_def)
  have "is_free (buckets ?t ! probe_idx q 0)" using lt assms(1) by (simp add: c)
  then have "port_find q ?t = None" by (simp add: port_find_def PROBE_LIMIT_def numeral_eq_Suc Let_def)
  then show ?thesis using ids(2) i by (simp add: c send_table_def)
qed

text \<open>A table in which port 4096 has been displaced by port 0.\<close>

definition demo_ports :: port_table where
  "demo_ports = port_table_new\<lparr>buckets := entry_empty\<lparr>port_id := 0\<rparr> # entry_empty\<lparr>port_id := 4096\<rparr> # replicate 4094 entry_empty, next_id := 4097\<rparr>"

theorem close_hides_displaced_port_witness:
  "port_find 4096 demo_ports = Some 1 \<and> port_find 4096 (port_close 0 demo_ports) = None"
proof -
  have pl: "PROBE_LIMIT = Suc (Suc 14)" by (simp add: PROBE_LIMIT_def)
  have ix: "probe_idx 0 0 = 0" "probe_idx 4096 0 = 0" "probe_idx 4096 (Suc 0) = 1" by (simp_all add: probe_idx_def LIVE_BUCKETS_def)
  have b: "port_id (buckets demo_ports ! 0) = 0" "port_id (buckets demo_ports ! 1) = 4096" by (simp_all add: demo_ports_def)
  have f: "port_find 0 demo_ports = Some (probe_idx 4096 0)" "port_find 4096 demo_ports = Some 1"
    unfolding port_find_def pl by (simp_all only: probe.simps Let_def ix) (simp_all add: b[simplified] is_free_def EMPTY_ID_def u32_MAX_def)
  have "length (buckets demo_ports) = LIVE_BUCKETS" by (simp add: demo_ports_def LIVE_BUCKETS_def)
  from close_hides_displaced_port[OF this f, of message_empty] show ?thesis using f(2) by simp
qed

end
