(* ===== verification/Capability.thy ===== *)
theory Capability
  imports Prelude
begin

text \<open>
  The capability table (\<open>src/capability/src/lib.rs\<close>): 1024 slots that map opaque tokens to kernel
  objects. Until the token counter has gone round, the table is a partial map from tokens to objects
  that refuses an allocation exactly when 1024 tokens are live.
\<close>

definition MAX_CAPS :: nat where "MAX_CAPS = 1024"

datatype cap_kind = Port u32 | Vmo u64 | FileDesc u32

record cap_slot =
  token :: u32
  kind :: cap_kind

definition NO_TOKEN :: u32 where "NO_TOKEN = 0xFFFFFFFF"

definition cap_free :: cap_slot where
  "cap_free = \<lparr>token = NO_TOKEN, kind = Port 0\<rparr>"

definition cap_is_free :: "cap_slot \<Rightarrow> bool" where
  "cap_is_free s \<longleftrightarrow> token s = NO_TOKEN"

record cap_table =
  cap_slots :: "cap_slot list"
  next_tok :: u32

definition cap_table_new :: cap_table where
  "cap_table_new = \<lparr>cap_slots = replicate MAX_CAPS cap_free, next_tok = 0\<rparr>"

definition alloc_cap :: "cap_kind \<Rightarrow> cap_table \<Rightarrow> u32 option \<times> cap_table" where
  "alloc_cap k t = (case position cap_is_free (cap_slots t) of
       None \<Rightarrow> (None, t)
     | Some slot_idx \<Rightarrow>
         (let tok = next_tok t;
              n1 = next_tok t + 1;
              n2 = (if n1 = NO_TOKEN then 0 else n1)
          in (Some tok, \<lparr>cap_slots = (cap_slots t)[slot_idx := \<lparr>token = tok, kind = k\<rparr>], next_tok = n2\<rparr>)))"

definition is_cap :: "u32 \<Rightarrow> cap_slot \<Rightarrow> bool" where
  "is_cap tok s \<longleftrightarrow> \<not> cap_is_free s \<and> token s = tok"

definition lookup_cap :: "u32 \<Rightarrow> cap_table \<Rightarrow> cap_kind option" where
  "lookup_cap tok t = map_option kind (List.find (is_cap tok) (cap_slots t))"

definition free_cap :: "u32 \<Rightarrow> cap_table \<Rightarrow> cap_table" where
  "free_cap tok t = (case position (is_cap tok) (cap_slots t) of
       None \<Rightarrow> t
     | Some i \<Rightarrow> t\<lparr>cap_slots := (cap_slots t)[i := cap_free]\<rparr>)"

subsection \<open>The map of live tokens\<close>

definition live_idx :: "cap_table \<Rightarrow> nat set" where
  "live_idx t = {i. i < length (cap_slots t) \<and> \<not> cap_is_free (cap_slots t ! i)}"

definition caps_inv :: "cap_table \<Rightarrow> nat \<Rightarrow> bool" where
  "caps_inv t n \<longleftrightarrow> length (cap_slots t) = MAX_CAPS \<and> n < 4294967295 \<and> next_tok t = of_nat n
     \<and> inj_on (\<lambda>i. token (cap_slots t ! i)) (live_idx t) \<and> (\<forall>i \<in> live_idx t. unat (token (cap_slots t ! i)) < n)"

lemma find_position: "List.find P xs = map_option (\<lambda>i. xs ! i) (position P xs)"
  by (induction xs) (auto simp: option.map_comp comp_def)

lemma lookup_cap_iff:
  assumes "caps_inv t n"
  shows "lookup_cap tok t = Some k \<longleftrightarrow> (\<exists>i \<in> live_idx t. token (cap_slots t ! i) = tok \<and> kind (cap_slots t ! i) = k)"
proof
  assume "lookup_cap tok t = Some k"
  then obtain i where "position (is_cap tok) (cap_slots t) = Some i" "kind (cap_slots t ! i) = k"
    by (auto simp: lookup_cap_def find_position)
  then show "\<exists>i \<in> live_idx t. token (cap_slots t ! i) = tok \<and> kind (cap_slots t ! i) = k"
    using position_SomeD[of "is_cap tok" "cap_slots t" i] by (auto simp: is_cap_def live_idx_def intro!: bexI[of _ i])
next
  assume "\<exists>i \<in> live_idx t. token (cap_slots t ! i) = tok \<and> kind (cap_slots t ! i) = k"
  then obtain i where i: "i \<in> live_idx t" "token (cap_slots t ! i) = tok" "kind (cap_slots t ! i) = k" by blast
  then have "is_cap tok (cap_slots t ! i)" "i < length (cap_slots t)" by (auto simp: is_cap_def live_idx_def)
  then obtain j where j: "position (is_cap tok) (cap_slots t) = Some j"
    using position_ex[of "cap_slots t ! i" "cap_slots t" "is_cap tok"] by auto
  then have "j \<in> live_idx t" "token (cap_slots t ! j) = tok"
    using position_SomeD[OF j] by (auto simp: is_cap_def live_idx_def)
  then have "j = i" using assms i by (auto simp: caps_inv_def inj_on_def)
  then show "lookup_cap tok t = Some k" using j i(3) by (simp add: lookup_cap_def find_position)
qed

lemma dom_lookup:
  assumes "caps_inv t n"
  shows "dom (\<lambda>tok. lookup_cap tok t) = (\<lambda>i. token (cap_slots t ! i)) ` live_idx t"
  using lookup_cap_iff[OF assms] by (auto simp: dom_def)

lemma card_live:
  assumes "caps_inv t n"
  shows "card (dom (\<lambda>tok. lookup_cap tok t)) = card (live_idx t)"
  unfolding dom_lookup[OF assms] using assms by (intro card_image) (simp add: caps_inv_def)

lemma full_iff:
  assumes "caps_inv t n"
  shows "position cap_is_free (cap_slots t) = None \<longleftrightarrow> \<not> card (dom (\<lambda>tok. lookup_cap tok t)) < MAX_CAPS"
proof -
  have sub: "live_idx t \<subseteq> {..<MAX_CAPS}" using assms by (auto simp: live_idx_def caps_inv_def)
  have len: "length (cap_slots t) = MAX_CAPS" using assms by (simp add: caps_inv_def)
  have "position cap_is_free (cap_slots t) = None \<longleftrightarrow> live_idx t = {..<MAX_CAPS}"
    unfolding position_None_iff all_set_conv_all_nth live_idx_def len by auto
  also have "\<dots> \<longleftrightarrow> \<not> card (live_idx t) < MAX_CAPS"
  proof
    assume "\<not> card (live_idx t) < MAX_CAPS"
    then have "card (live_idx t) = card {..<MAX_CAPS}" using card_mono[OF finite_lessThan sub] by simp
    then show "live_idx t = {..<MAX_CAPS}" by (rule card_subset_eq[OF finite_lessThan sub])
  qed simp
  finally show ?thesis by (simp add: card_live[OF assms])
qed

lemma alloc_cap_inv:
  assumes inv: "caps_inv t n" and n: "n + 1 < 4294967295" and pos: "position cap_is_free (cap_slots t) = Some i"
  shows "\<exists>t'. alloc_cap k t = (Some (of_nat n), t') \<and> caps_inv t' (n + 1)
    \<and> (\<lambda>tok. lookup_cap tok t') = (\<lambda>tok. lookup_cap tok t)(of_nat n \<mapsto> k)"
proof -
  let ?t = "\<lparr>cap_slots = (cap_slots t)[i := \<lparr>token = of_nat n, kind = k\<rparr>], next_tok = of_nat (n + 1)\<rparr>"
  have i: "i < length (cap_slots t)" "cap_is_free (cap_slots t ! i)" using position_SomeD[OF pos] by auto
  have small: "unat (of_nat m :: u32) = m" if "m < 4294967296" for m using that by (simp add: unat_of_nat)
  have un: "unat (of_nat n :: u32) = n" "unat (of_nat (n + 1) :: u32) = n + 1" using n by (intro small, linarith)+
  have "unat NO_TOKEN = 4294967295" by (simp add: NO_TOKEN_def)
  then have free: "of_nat n \<noteq> NO_TOKEN" "of_nat n + 1 \<noteq> NO_TOKEN" using un n by (force, metis nat_neq_iff of_nat_1 of_nat_add)
  have nx: "next_tok t = of_nat n" using inv by (simp add: caps_inv_def)
  have eq: "alloc_cap k t = (Some (of_nat n), ?t)" using pos nx free by (simp add: alloc_cap_def Let_def add.commute)
  have live: "live_idx ?t = insert i (live_idx t)" "i \<notin> live_idx t"
    using i free by (auto simp: live_idx_def nth_list_update cap_is_free_def)
  have old: "cap_slots ?t ! j = cap_slots t ! j" if "j \<in> live_idx t" for j using live(2) that by (cases "j = i") auto
  have lt: "unat (token (cap_slots t ! j)) < n" if "j \<in> live_idx t" for j using inv that by (simp add: caps_inv_def)
  have ne: "token (cap_slots t ! j) \<noteq> of_nat n" if "j \<in> live_idx t" for j using lt[OF that] un by auto
  have inj: "inj_on (\<lambda>j. token (cap_slots ?t ! j)) (insert i (live_idx t))"
  proof -
    have "inj_on (\<lambda>j. token (cap_slots ?t ! j)) (live_idx t)"
      using inv inj_on_cong[of "live_idx t" "\<lambda>j. token (cap_slots ?t ! j)" "\<lambda>j. token (cap_slots t ! j)"] old
      by (simp add: caps_inv_def)
    moreover have "token (cap_slots ?t ! i) \<notin> (\<lambda>j. token (cap_slots ?t ! j)) ` (live_idx t - {i})"
    proof
      assume "token (cap_slots ?t ! i) \<in> (\<lambda>j. token (cap_slots ?t ! j)) ` (live_idx t - {i})"
      then obtain j where j: "j \<in> live_idx t" "token (cap_slots ?t ! i) = token (cap_slots ?t ! j)" by blast
      then show False using old[OF j(1)] ne[OF j(1)] i(1) by simp
    qed
    ultimately show ?thesis by (simp add: inj_on_insert)
  qed
  have inv': "caps_inv ?t (n + 1)"
    unfolding caps_inv_def live(1) using inj inv n i(1) old lt un by (auto simp: caps_inv_def less_Suc_eq nth_list_update)
  have "lookup_cap tok ?t = ((\<lambda>tok. lookup_cap tok t)(of_nat n \<mapsto> k)) tok" for tok
  proof (cases "tok = of_nat n")
    case True
    then show ?thesis using lookup_cap_iff[OF inv', of tok k] live(1) i(1) by auto
  next
    case False
    then have "lookup_cap tok ?t = Some v \<longleftrightarrow> lookup_cap tok t = Some v" for v
      unfolding lookup_cap_iff[OF inv] lookup_cap_iff[OF inv'] live(1) using old i(1) by auto
    then have "lookup_cap tok ?t = lookup_cap tok t" by (metis not_Some_eq)
    then show ?thesis using False by simp
  qed
  then show ?thesis using eq inv' by blast
qed

lemma free_cap_inv:
  assumes inv: "caps_inv t n"
  shows "caps_inv (free_cap tok t) n \<and> (\<lambda>x. lookup_cap x (free_cap tok t)) = (\<lambda>x. lookup_cap x t)(tok := None)"
proof (cases "position (is_cap tok) (cap_slots t)")
  case None
  then have "lookup_cap tok t = None" by (simp add: lookup_cap_def find_position)
  then show ?thesis using inv None by (auto simp: free_cap_def)
next
  case (Some i)
  let ?t = "t\<lparr>cap_slots := (cap_slots t)[i := cap_free]\<rparr>"
  have i: "i \<in> live_idx t" "token (cap_slots t ! i) = tok" "i < length (cap_slots t)"
    using position_SomeD[OF Some] by (auto simp: is_cap_def live_idx_def)
  have live: "live_idx ?t = live_idx t - {i}"
    using i by (auto simp: live_idx_def nth_list_update cap_is_free_def cap_free_def split: if_splits)
  have old: "cap_slots ?t ! j = cap_slots t ! j" if "j \<in> live_idx t - {i}" for j using that by auto
  have "inj_on (\<lambda>j. token (cap_slots ?t ! j)) (live_idx t - {i})"
    using inv old by (auto simp: inj_on_def caps_inv_def)
  then have inv': "caps_inv ?t n" unfolding caps_inv_def live using inv old by (auto simp: caps_inv_def)
  have "lookup_cap x ?t = (if x = tok then None else lookup_cap x t)" for x
  proof -
    have "lookup_cap x ?t = Some v \<longleftrightarrow> x \<noteq> tok \<and> lookup_cap x t = Some v" for v
      unfolding lookup_cap_iff[OF inv] lookup_cap_iff[OF inv'] live
      using old i inv by (auto simp: caps_inv_def inj_on_def)
    then show ?thesis by (metis not_Some_eq)
  qed
  then show ?thesis using inv' Some by (auto simp: free_cap_def)
qed

subsection \<open>Refinement\<close>

datatype cap_op = Alloc cap_kind | Lookup u32 | Revoke u32
datatype cap_result = RTok "u32 option" | RKind "cap_kind option" | RDone

fun cap_step :: "cap_op \<Rightarrow> cap_table \<Rightarrow> cap_result \<times> cap_table" where
  "cap_step (Alloc k) t = (let (r, t') = alloc_cap k t in (RTok r, t'))"
| "cap_step (Lookup tok) t = (RKind (lookup_cap tok t), t)"
| "cap_step (Revoke tok) t = (RDone, free_cap tok t)"

fun cap_spec :: "cap_op \<Rightarrow> (u32 \<rightharpoonup> cap_kind) \<times> nat \<Rightarrow> cap_result \<times> (u32 \<rightharpoonup> cap_kind) \<times> nat" where
  "cap_spec (Alloc k) (f, n) = (if card (dom f) < MAX_CAPS then (RTok (Some (of_nat n)), f(of_nat n \<mapsto> k), n + 1)
     else (RTok None, f, n))"
| "cap_spec (Lookup tok) (f, n) = (RKind (f tok), f, n)"
| "cap_spec (Revoke tok) (f, n) = (RDone, f(tok := None), n)"

fun run_ops :: "('o \<Rightarrow> 's \<Rightarrow> 'r \<times> 's) \<Rightarrow> 'o list \<Rightarrow> 's \<Rightarrow> 'r list \<times> 's" where
  "run_ops step [] s = ([], s)"
| "run_ops step (op # ops) s = (let (r, s1) = step op s; (rs, s2) = run_ops step ops s1 in (r # rs, s2))"

lemma cap_step_refines:
  assumes inv: "caps_inv t n" and n: "n + 1 < 4294967295"
  shows "\<exists>t' n'. cap_step op t = (fst (cap_spec op (\<lambda>x. lookup_cap x t, n)), t')
    \<and> snd (cap_spec op (\<lambda>x. lookup_cap x t, n)) = (\<lambda>x. lookup_cap x t', n') \<and> caps_inv t' n' \<and> n' \<le> n + 1"
proof (cases op)
  case (Alloc k)
  show ?thesis
  proof (cases "position cap_is_free (cap_slots t)")
    case None
    then have "\<not> card (dom (\<lambda>x. lookup_cap x t)) < MAX_CAPS" using full_iff[OF inv] by simp
    then show ?thesis using inv Alloc None by (simp add: alloc_cap_def)
  next
    case (Some i)
    then have "card (dom (\<lambda>x. lookup_cap x t)) < MAX_CAPS" using full_iff[OF inv] by auto
    then show ?thesis using alloc_cap_inv[OF inv n Some, of k] Alloc by auto
  qed
next
  case (Lookup tok)
  then show ?thesis using inv by simp
next
  case (Revoke tok)
  then show ?thesis using free_cap_inv[OF inv, of tok] by simp
qed

lemma cap_run_refines:
  assumes "caps_inv t n" "n + length ops + 1 < 4294967295"
  shows "\<exists>t' n'. run_ops cap_step ops t = (fst (run_ops cap_spec ops (\<lambda>x. lookup_cap x t, n)), t')
    \<and> snd (run_ops cap_spec ops (\<lambda>x. lookup_cap x t, n)) = (\<lambda>x. lookup_cap x t', n')"
  using assms
proof (induction ops arbitrary: t n)
  case (Cons op ops)
  obtain t1 n1 where 1: "cap_step op t = (fst (cap_spec op (\<lambda>x. lookup_cap x t, n)), t1)"
    "snd (cap_spec op (\<lambda>x. lookup_cap x t, n)) = (\<lambda>x. lookup_cap x t1, n1)" "caps_inv t1 n1" "n1 \<le> n + 1"
    using cap_step_refines[OF Cons.prems(1), of op] Cons.prems(2) by auto
  show ?case using Cons.IH[OF 1(3)] Cons.prems(2) 1 by (auto simp: split_beta)
qed simp

lemma caps_inv_new: "caps_inv cap_table_new 0" "(\<lambda>x. lookup_cap x cap_table_new) = Map.empty"
proof -
  have l: "live_idx cap_table_new = {}" by (auto simp: live_idx_def cap_table_new_def cap_is_free_def cap_free_def)
  then show inv: "caps_inv cap_table_new 0" by (simp add: caps_inv_def cap_table_new_def)
  have "lookup_cap x cap_table_new = None" for x
    using lookup_cap_iff[OF inv, of x] l by (cases "lookup_cap x cap_table_new") auto
  then show "(\<lambda>x. lookup_cap x cap_table_new) = Map.empty" by auto
qed



end
