(* ===== verification/Slab.thy ===== *)
theory Slab
  imports Vmm_Inv
begin

text \<open>
  The slab allocator behind the kernel heap (\<open>src/mm/src/slab.rs\<close>): one cache per power-of-two size
  from 8 to 4096 bytes, each a list of free slots threaded through the slots themselves and refilled
  from single pages of the buddy allocator; larger requests go to the buddy allocator directly.
\<close>

definition SIZE_CLASSES :: "usize list" where
  "SIZE_CLASSES = [8, 16, 32, 64, 128, 256, 512, 1024, 2048, 4096]"

record cache =
  obj_size :: usize
  free_head :: usize

definition cache_new :: "usize \<Rightarrow> cache" where
  "cache_new sz = \<lparr>obj_size = sz, free_head = 0\<rparr>"

text \<open>The loop that threads the slots of a page: \<open>n\<close> slots from \<open>addr\<close> on in front of \<open>h\<close>.\<close>

fun refill_loop :: "nat \<Rightarrow> usize \<Rightarrow> usize \<Rightarrow> usize \<Rightarrow> memory \<Rightarrow> usize \<times> memory" where
  "refill_loop 0 addr sz h m = (h, m)"
| "refill_loop (Suc n) addr sz h m = refill_loop n (addr + sz) sz addr (store64 m addr h)"

definition cache_refill :: "cache \<Rightarrow> mm_state \<Rightarrow> (bool \<times> cache \<times> mm_state) panicking" where
  "cache_refill c st = do {
     (r, st1) \<leftarrow> mm_alloc 0 st;
     case r of
       None \<Rightarrow> Some (False, c, st1)
     | Some phys \<Rightarrow>
         (let (h, m) = refill_loop (unat (PAGE_SIZE div obj_size c)) (phys_to_virt st1 phys) (obj_size c) (free_head c) (ram st1)
          in Some (True, c\<lparr>free_head := h\<rparr>, st1\<lparr>ram := m\<rparr>))
   }"

definition cache_pop :: "cache \<Rightarrow> mm_state \<Rightarrow> usize \<times> cache" where
  "cache_pop c st = (free_head c, c\<lparr>free_head := load64 (ram st) (free_head c)\<rparr>)"

definition cache_alloc :: "cache \<Rightarrow> mm_state \<Rightarrow> (usize option \<times> cache \<times> mm_state) panicking" where
  "cache_alloc c st = do {
     (ok, c1, st1) \<leftarrow> (if free_head c = 0 then cache_refill c st else Some (True, c, st));
     if ok then (let (slot, c2) = cache_pop c1 st1 in Some (Some slot, c2, st1)) else Some (None, c1, st1)
   }"

definition cache_free :: "usize \<Rightarrow> cache \<Rightarrow> mm_state \<Rightarrow> cache \<times> mm_state" where
  "cache_free ptr c st = (c\<lparr>free_head := ptr\<rparr>, st\<lparr>ram := store64 (ram st) ptr (free_head c)\<rparr>)"

definition caches_init :: "cache list" where
  "caches_init = map cache_new SIZE_CLASSES"

definition size_class_idx :: "usize \<Rightarrow> nat option" where
  "size_class_idx sz = position (\<lambda>s. sz \<le> s) SIZE_CLASSES"

definition slab_pages_to_order :: "usize \<Rightarrow> nat option panicking" where
  "slab_pages_to_order pages =
     (if pages > push_bit (MAX_ORDER - 1) 1 then Some None else map_option Some (order_loop 0 1 pages))"

text \<open>\<open>NonNull::dangling\<close> for a byte pointer is address 1.\<close>

definition slab_alloc :: "usize \<Rightarrow> cache list \<times> mm_state \<Rightarrow> (usize option \<times> cache list \<times> mm_state) panicking" where
  "slab_alloc sz cst =
     (let (cs, st) = cst
      in if sz = 0 then Some (Some 1, cs, st)
         else case size_class_idx sz of
           Some idx \<Rightarrow> do {
             (r, c, st') \<leftarrow> cache_alloc (cs ! idx) st;
             Some (r, cs[idx := c], st')
           }
         | None \<Rightarrow> do {
             ord \<leftarrow> slab_pages_to_order ((sz + PAGE_SIZE - 1) div PAGE_SIZE);
             case ord of
               None \<Rightarrow> Some (None, cs, st)
             | Some order \<Rightarrow> do {
                 (r, st') \<leftarrow> mm_alloc order st;
                 Some (map_option (phys_to_virt st') r, cs, st')
               }
           })"

definition slab_free :: "usize \<Rightarrow> usize \<Rightarrow> cache list \<times> mm_state \<Rightarrow> (cache list \<times> mm_state) panicking" where
  "slab_free ptr sz cst =
     (let (cs, st) = cst
      in if sz = 0 \<or> ptr = 0 then Some (cs, st)
         else case size_class_idx sz of
           Some idx \<Rightarrow> (let (c, st') = cache_free ptr (cs ! idx) st in Some (cs[idx := c], st'))
         | None \<Rightarrow> do {
             ord \<leftarrow> slab_pages_to_order ((sz + PAGE_SIZE - 1) div PAGE_SIZE);
             case ord of
               None \<Rightarrow> Some (cs, st)
             | Some order \<Rightarrow> do { st' \<leftarrow> mm_free (mm_virt_to_phys st ptr) order st; Some (cs, st') }
           })"

subsection \<open>Free lists in memory\<close>

fun chain :: "memory \<Rightarrow> usize \<Rightarrow> usize list \<Rightarrow> bool" where
  "chain m h [] \<longleftrightarrow> h = 0"
| "chain m h (a # as) \<longleftrightarrow> h = a \<and> a \<noteq> 0 \<and> chain m (load64 m a) as"

lemma chain_cong: "chain m h as \<Longrightarrow> (\<And>a. a \<in> set as \<Longrightarrow> load64 m' a = load64 m a) \<Longrightarrow> chain m' h as"
  by (induction as arbitrary: h) auto

lemma chain_head: "chain m h as \<Longrightarrow> h = 0 \<longleftrightarrow> as = []"
  by (cases as) auto

lemma chain_push:
  assumes "chain m h as" "aligned8 p" "p \<noteq> 0" "p \<notin> set as" "\<forall>a \<in> set as. aligned8 a"
  shows "chain (store64 m p h) p (p # as)"
proof -
  have "load64 (store64 m p h) a = load64 m a" if "a \<in> set as" for a
    using assms that by (intro load64_store64_other) auto
  then show ?thesis using assms chain_cong[OF assms(1), of "store64 m p h"] by simp
qed

lemma refill_loop_chain:
  assumes "chain m h as" "\<forall>a \<in> set as. aligned8 a"
    "\<And>k. k < n \<Longrightarrow> aligned8 (addr + of_nat k * sz) \<and> addr + of_nat k * sz \<noteq> 0 \<and> addr + of_nat k * sz \<notin> set as"
    "\<And>j k. j < k \<Longrightarrow> k < n \<Longrightarrow> addr + of_nat j * sz \<noteq> addr + of_nat k * sz"
    "refill_loop n addr sz h m = (h', m')"
  shows "chain m' h' (rev (map (\<lambda>k. addr + of_nat k * sz) [0..<n]) @ as)
    \<and> (\<forall>b. aligned8 b \<longrightarrow> (\<forall>k < n. b \<noteq> addr + of_nat k * sz) \<longrightarrow> load64 m' b = load64 m b)"
  using assms
proof (induction n arbitrary: addr h m as)
  case (Suc n)
  have 0: "aligned8 addr" "addr \<noteq> 0" "addr \<notin> set as" using Suc.prems(3)[of 0] by auto
  have st: "addr + sz + of_nat k * sz = addr + of_nat (Suc k) * sz" for k by (simp add: algebra_simps)
  have "chain (store64 m addr h) addr (addr # as)" by (rule chain_push[OF Suc.prems(1) 0(1,2,3) Suc.prems(2)])
  then have ih: "chain m' h' (rev (map (\<lambda>k. addr + sz + of_nat k * sz) [0..<n]) @ addr # as)
    \<and> (\<forall>b. aligned8 b \<longrightarrow> (\<forall>k < n. b \<noteq> addr + sz + of_nat k * sz) \<longrightarrow> load64 m' b = load64 (store64 m addr h) b)"
  proof (rule Suc.IH)
    show "\<forall>a \<in> set (addr # as). aligned8 a" using 0(1) Suc.prems(2) by simp
    show "aligned8 (addr + sz + of_nat k * sz) \<and> addr + sz + of_nat k * sz \<noteq> 0 \<and> addr + sz + of_nat k * sz \<notin> set (addr # as)"
      if "k < n" for k
      using Suc.prems(3)[of "Suc k"] Suc.prems(4)[of 0 "Suc k"] that unfolding st by auto
    show "addr + sz + of_nat j * sz \<noteq> addr + sz + of_nat k * sz" if "j < k" "k < n" for j k
      using Suc.prems(4)[of "Suc j" "Suc k"] that unfolding st by simp
    show "refill_loop n (addr + sz) sz addr (store64 m addr h) = (h', m')" using Suc.prems(5) by simp
  qed
  have "rev (map (\<lambda>k. addr + of_nat k * sz) [0..<Suc n]) = rev (map (\<lambda>k. addr + sz + of_nat k * sz) [0..<n]) @ [addr]"
    unfolding st by (simp add: upt_conv_Cons map_Suc_upt[symmetric] del: upt_Suc of_nat_Suc)
  moreover have "load64 m' b = load64 m b" if "aligned8 b" "\<forall>k < Suc n. b \<noteq> addr + of_nat k * sz" for b
  proof -
    have "\<forall>k < n. b \<noteq> addr + sz + of_nat k * sz" using that(2) unfolding st by (metis Suc_less_eq)
    then have "load64 m' b = load64 (store64 m addr h) b" using ih that(1) by blast
    also have "\<dots> = load64 m b" using that 0(1) by (intro load64_store64_other) auto
    finally show ?thesis .
  qed
  ultimately show ?case using ih by (simp del: upt_Suc)
qed simp

end
