(* ===== verification/Slab_Props.thy ===== *)
theory Slab_Props
  imports Slab Page_Walk
begin

text \<open>
  Objects of the slab allocator never overlap. The argument counts the holders of every physical byte:
  the live objects, the free slots of the ten caches and the free memory of the buddy allocator.
\<close>

subsection \<open>Holders of a byte\<close>

definition obytes :: "usize \<Rightarrow> usize \<times> nat \<Rightarrow> nat set" where
  "obytes h b = (case b of (a, n) \<Rightarrow> {unat (a - h) ..< unat (a - h) + n})"

definition cover :: "usize \<Rightarrow> nat \<Rightarrow> (usize \<times> nat) list \<Rightarrow> nat" where
  "cover h x os = length (filter (\<lambda>b. x \<in> obytes h b) os)"

lemma cover_simps [simp]:
  "cover h x [] = 0"
  "cover h x (b # os) = (if x \<in> obytes h b then 1 else 0) + cover h x os"
  "cover h x (os @ os') = cover h x os + cover h x os'"
  "cover h x (rev os) = cover h x os"
  by (simp_all add: cover_def rev_filter[symmetric])

lemma cover_pos: "b \<in> set os \<Longrightarrow> x \<in> obytes h b \<Longrightarrow> 1 \<le> cover h x os"
  by (induction os) auto

lemma cover_remove1: "b \<in> set os \<Longrightarrow> cover h x os = (if x \<in> obytes h b then 1 else 0) + cover h x (remove1 b os)"
  by (induction os) auto

lemma cover_two:
  assumes "i < j" "j < length os" "x \<in> obytes h (os ! i)" "x \<in> obytes h (os ! j)"
  shows "2 \<le> cover h x os"
proof -
  have s: "os = take i os @ os ! i # drop (Suc i) os" using assms by (simp add: id_take_nth_drop)
  have "os ! j = drop (Suc i) os ! (j - Suc i)" "j - Suc i < length (drop (Suc i) os)" using assms by auto
  then have "os ! j \<in> set (drop (Suc i) os)" using nth_mem[of "j - Suc i" "drop (Suc i) os"] by metis
  from cover_pos[OF this assms(4)] have "1 \<le> cover h x (drop (Suc i) os)" .
  then show ?thesis using arg_cong[OF s, of "cover h x"] assms(3) by simp
qed

text \<open>The slots a page is cut into cover each of its bytes once.\<close>

lemma cover_tiles:
  assumes "0 < sz" "\<And>k. k < n \<Longrightarrow> unat (f k - h) = p + k * sz"
  shows "cover h x (map (\<lambda>k. (f k, sz)) [0..<n]) = (if x \<in> {p ..< p + n * sz} then 1 else 0)"
  using assms(2)
proof (induction n)
  case (Suc n)
  have "x \<in> obytes h (f n, sz) \<longleftrightarrow> x \<in> {p + n * sz ..< p + Suc n * sz}" using Suc.prems[of n] by (auto simp: obytes_def)
  moreover have "cover h x (map (\<lambda>k. (f k, sz)) [0..<n]) = (if x \<in> {p ..< p + n * sz} then 1 else 0)"
    by (rule Suc.IH) (use Suc.prems in auto)
  ultimately show ?case by auto
qed simp

subsection \<open>Sizes\<close>

definition csz :: "nat \<Rightarrow> nat" where
  "csz i = unat (SIZE_CLASSES ! i)"

definition NUM_CLASSES :: nat where
  "NUM_CLASSES = length SIZE_CLASSES"

lemma NUM_CLASSES: "NUM_CLASSES = 10"
  by (simp add: NUM_CLASSES_def SIZE_CLASSES_def)

lemma csz_eq:
  assumes "i < NUM_CLASSES"
  shows "csz i = 2 ^ (i + 3)"
proof -
  have "i = 0 \<or> i = 1 \<or> i = 2 \<or> i = 3 \<or> i = 4 \<or> i = 5 \<or> i = 6 \<or> i = 7 \<or> i = 8 \<or> i = 9"
    using assms unfolding NUM_CLASSES by presburger
  then show ?thesis by (elim disjE) (simp_all add: csz_def SIZE_CLASSES_def)
qed

lemma size_class_idx_Some:
  assumes "size_class_idx sz = Some i"
  shows "i < NUM_CLASSES" "unat sz \<le> csz i"
  using position_SomeD[OF assms[unfolded size_class_idx_def]]
  by (simp_all add: NUM_CLASSES_def csz_def word_le_nat_alt)

text \<open>The memory an object of the requested size occupies.\<close>

definition big_order :: "usize \<Rightarrow> nat" where
  "big_order sz = (case slab_pages_to_order ((sz + PAGE_SIZE - 1) div PAGE_SIZE) of Some (Some p) \<Rightarrow> p | _ \<Rightarrow> 0)"

definition rsz :: "usize \<Rightarrow> nat" where
  "rsz sz = (if sz = 0 then 0 else case size_class_idx sz of Some i \<Rightarrow> csz i | None \<Rightarrow> bsz (big_order sz))"

lemma slab_order:
  assumes "unat pages \<le> 2 ^ (MAX_ORDER - 1)"
  obtains p where "slab_pages_to_order pages = Some (Some p)" "p < MAX_ORDER" "unat pages \<le> 2 ^ p"
proof -
  have le: "unat pages \<le> 1024" using assms by (simp add: MAX_ORDER_def)
  then obtain p where p: "order_loop 0 1 pages = Some p" "unat pages \<le> 2 ^ p" "p = 0 \<or> 2 ^ (p - 1) < unat pages"
    using pages_to_order_ok[of pages] by (auto simp: pages_to_order_def)
  have "\<not> push_bit (MAX_ORDER - 1) 1 < pages" using le by (simp add: MAX_ORDER_def word_less_nat_alt)
  moreover have "p < MAX_ORDER"
  proof (rule ccontr)
    assume a: "\<not> p < MAX_ORDER"
    then have "(2 :: nat) ^ 10 \<le> 2 ^ (p - 1)" by (intro power_increasing) (auto simp: MAX_ORDER_def)
    then show False using p(3) a le by (auto simp: MAX_ORDER_def)
  qed
  ultimately show thesis using that p by (simp add: slab_pages_to_order_def)
qed

lemma big_pages:
  assumes "unat sz \<le> 2 ^ 63"
  shows "unat ((sz + PAGE_SIZE - 1) div PAGE_SIZE) = (unat sz + 4095) div 4096"
proof -
  have eq: "sz + PAGE_SIZE - 1 = sz + 4095" by (simp add: PAGE_SIZE_def)
  have "unat (sz + 4095) = unat sz + 4095" using assms by (subst unat_add_nowrap) simp_all
  then show ?thesis unfolding unat_div eq by simp
qed

lemma big_fits:
  assumes "unat sz \<le> 2 ^ 63" "slab_pages_to_order ((sz + PAGE_SIZE - 1) div PAGE_SIZE) = Some (Some p)"
  shows "p < MAX_ORDER" "unat sz \<le> bsz p" "big_order sz = p"
proof -
  let ?g = "(sz + PAGE_SIZE - 1) div PAGE_SIZE"
  have "\<not> push_bit (MAX_ORDER - 1) 1 < ?g" using assms(2) by (auto simp: slab_pages_to_order_def split: if_splits)
  then have le: "unat ?g \<le> 2 ^ (MAX_ORDER - 1)" by (simp add: MAX_ORDER_def word_less_nat_alt)
  obtain q where q: "slab_pages_to_order ?g = Some (Some q)" "q < MAX_ORDER" "unat ?g \<le> 2 ^ q" by (rule slab_order[OF le])
  then show p: "p < MAX_ORDER" "big_order sz = p" using assms(2) by (auto simp: big_order_def)
  have "unat sz \<le> 4096 * unat ?g" unfolding big_pages[OF assms(1)] by linarith
  also have "\<dots> \<le> bsz p" using q assms(2) by (simp add: bsz_def)
  finally show "unat sz \<le> bsz p" .
qed

subsection \<open>The invariant\<close>

type_synonym slab_state = "cache list \<times> mm_state \<times> (usize \<times> usize) list"

definition live_objs :: "(usize \<times> usize) list \<Rightarrow> (usize \<times> nat) list" where
  "live_objs live = map (\<lambda>(a, sz). (a, rsz sz)) live"

definition slot_objs :: "(nat \<Rightarrow> usize list) \<Rightarrow> nat \<Rightarrow> (usize \<times> nat) list" where
  "slot_objs F i = map (\<lambda>a. (a, csz i)) (F i)"

definition holders :: "usize \<Rightarrow> (nat \<Rightarrow> usize list) \<Rightarrow> mm_state \<Rightarrow> (usize \<times> usize) list \<Rightarrow> nat \<Rightarrow> nat" where
  "holders h F st live x = cover h x (live_objs live) + (\<Sum>i < NUM_CLASSES. cover h x (slot_objs F i))
     + (if x \<in> free_bytes (frames st) then 1 else 0)"

definition live_ok :: "usize \<Rightarrow> usize \<times> usize \<Rightarrow> bool" where
  "live_ok h b = (case b of (a, sz) \<Rightarrow> sz = 0 \<or> unat sz \<le> rsz sz \<and> unat sz \<le> 2 ^ 63 \<and> rsz sz dvd unat (a - h)
     \<and> (case size_class_idx sz of Some i \<Rightarrow> True
        | None \<Rightarrow> slab_pages_to_order ((sz + PAGE_SIZE - 1) div PAGE_SIZE) = Some (Some (big_order sz))))"

definition slab_inv :: "usize \<Rightarrow> (nat \<Rightarrow> usize list) \<Rightarrow> slab_state \<Rightarrow> bool" where
  "slab_inv h F = (\<lambda>(cs, st, live). hhdm_off st = h \<and> page_aligned h \<and> buddy_inv (frames st) \<and> length cs = NUM_CLASSES
     \<and> (\<forall>i < NUM_CLASSES. obj_size (cs ! i) = SIZE_CLASSES ! i \<and> chain (ram st) (free_head (cs ! i)) (F i)
          \<and> (\<forall>a \<in> set (F i). csz i dvd unat (a - h)))
     \<and> (\<forall>b \<in> set live. live_ok h b)
     \<and> (\<forall>x. holders h F st live x \<le> 1) \<and> holders h F st live (unat (- h)) = 0)"

lemma slab_invD:
  assumes "slab_inv h F (cs, st, live)"
  shows "hhdm_off st = h" "page_aligned h" "buddy_inv (frames st)" "length cs = NUM_CLASSES"
    "i < NUM_CLASSES \<Longrightarrow> obj_size (cs ! i) = SIZE_CLASSES ! i" "i < NUM_CLASSES \<Longrightarrow> chain (ram st) (free_head (cs ! i)) (F i)"
    "i < NUM_CLASSES \<Longrightarrow> a \<in> set (F i) \<Longrightarrow> csz i dvd unat (a - h)" "b \<in> set live \<Longrightarrow> live_ok h b"
    "holders h F st live x \<le> 1" "holders h F st live (unat (- h)) = 0"
  using assms by (auto simp: slab_inv_def)

lemma slot_cover:
  assumes "i < NUM_CLASSES" "a \<in> set (F i)" "x \<in> obytes h (a, csz i)"
  shows "1 \<le> (\<Sum>i < NUM_CLASSES. cover h x (slot_objs F i))"
proof -
  have "1 \<le> cover h x (slot_objs F i)" using assms(2,3) by (intro cover_pos[of "(a, csz i)"]) (auto simp: slot_objs_def)
  also have "\<dots> \<le> (\<Sum>i < NUM_CLASSES. cover h x (slot_objs F i))" using assms(1) by (intro member_le_sum) auto
  finally show ?thesis .
qed

lemma csz_ge: "i < NUM_CLASSES \<Longrightarrow> 8 \<le> csz i" "i < NUM_CLASSES \<Longrightarrow> 8 dvd csz i"
  using power_increasing[of 3 "i + 3" "2 :: nat"] le_imp_power_dvd[of 3 "i + 3" "2 :: nat"] by (simp_all add: csz_eq)

lemma aligned8_slot:
  assumes "page_aligned h" "8 dvd unat (a - h)"
  shows "aligned8 a"
proof -
  have "unat (a - h + h) = (unat (a - h) + unat h) mod 18446744073709551616"
    unfolding unat_word_ariths(1) by simp
  then have u: "unat a = (unat (a - h) + unat h) mod 18446744073709551616" by simp
  have "8 dvd unat h" using assms(1) dvd_trans[of 8 4096 "unat h"] by (simp add: page_aligned_def)
  then have "8 dvd unat (a - h) + unat h" using assms(2) by (rule dvd_add[rotated])
  then show ?thesis unfolding aligned8_def u by (rule dvd_mod) simp
qed

text \<open>The first byte of an object with memory.\<close>

lemma first_byte: "0 < n \<Longrightarrow> unat (a - h) \<in> obytes h (a, n)"
  by (simp add: obytes_def)

lemma slot_facts:
  assumes inv: "slab_inv h F (cs, st, live)" and i: "i < NUM_CLASSES" "a \<in> set (F i)"
  shows "aligned8 a" "a \<noteq> 0"
proof -
  have "8 dvd unat (a - h)" using slab_invD(7)[OF inv i] csz_ge(2)[OF i(1)] dvd_trans by blast
  then show "aligned8 a" using aligned8_slot slab_invD(2)[OF inv] by blast
  show "a \<noteq> 0"
  proof
    assume "a = 0"
    then have "unat (- h) \<in> obytes h (a, csz i)" using csz_ge(1)[OF i(1)] first_byte[of "csz i" a h] by simp
    then have "1 \<le> holders h F st live (unat (- h))" using slot_cover[of i a F "unat (- h)" h] i by (simp add: holders_def)
    then show False using slab_invD(10)[OF inv] by simp
  qed
qed

subsection \<open>Preservation\<close>

lemma sum_upd:
  assumes "i < NUM_CLASSES"
  shows "(\<Sum>j < NUM_CLASSES. cover h x (slot_objs (F(i := ys)) j)) + cover h x (map (\<lambda>a. (a, csz i)) (F i))
    = (\<Sum>j < NUM_CLASSES. cover h x (slot_objs F j)) + cover h x (map (\<lambda>a. (a, csz i)) ys)"
proof -
  have "(\<Sum>j \<in> {..<NUM_CLASSES} - {i}. cover h x (slot_objs (F(i := ys)) j)) = (\<Sum>j \<in> {..<NUM_CLASSES} - {i}. cover h x (slot_objs F j))"
    by (intro sum.cong) (auto simp: slot_objs_def)
  then show ?thesis using assms by (simp add: sum.remove[of "{..<NUM_CLASSES}" i] slot_objs_def)
qed

text \<open>Taking the first slot of a cache for a live object, and putting an object in front.\<close>

lemma pop_inv:
  assumes inv: "slab_inv h F (cs, st, live)" and i: "size_class_idx sz = Some i" and sz: "sz \<noteq> 0" "unat sz \<le> 2 ^ 63"
    and hd: "free_head (cs ! i) \<noteq> 0" and p: "cache_pop (cs ! i) st = (a, c)"
  shows "slab_inv h (F(i := tl (F i))) (cs[i := c], st, (a, sz) # live)"
proof -
  have iN: "i < NUM_CLASSES" and ri: "rsz sz = csz i" "unat sz \<le> csz i"
    using size_class_idx_Some[OF i] i sz(1) by (auto simp: rsz_def)
  obtain as where F: "F i = a # as" "chain (ram st) (load64 (ram st) a) as" "free_head (cs ! i) = a"
    using slab_invD(6)[OF inv iN] hd p by (cases "F i") (auto simp: cache_pop_def)
  have c: "c = (cs ! i)\<lparr>free_head := load64 (ram st) a\<rparr>" using p F(3) by (simp add: cache_pop_def)
  have "holders h (F(i := as)) st ((a, sz) # live) x = holders h F st live x" for x
    using sum_upd[OF iN, of h x F as] F(1) ri(1) by (simp add: holders_def live_objs_def)
  moreover have "csz i dvd unat (a - h)" using slab_invD(7)[OF inv iN] F(1) by simp
  then have "live_ok h (a, sz)" using ri i sz by (simp add: live_ok_def)
  ultimately show ?thesis
    using inv iN F c by (auto simp: slab_inv_def nth_list_update)
qed

lemma live_first:
  assumes inv: "slab_inv h F (cs, st, live)" and m: "(a, sz) \<in> set live" "sz \<noteq> 0"
  shows "a \<noteq> 0" "unat (a - h) \<in> obytes h (a, rsz sz)" "1 \<le> cover h (unat (a - h)) (live_objs live)"
proof -
  have "unat sz \<noteq> 0" using m(2) by (simp add: unsigned_eq_0_iff)
  then have "0 < rsz sz" using slab_invD(8)[OF inv m(1)] m(2) by (auto simp: live_ok_def)
  then show f: "unat (a - h) \<in> obytes h (a, rsz sz)" by (rule first_byte)
  show c: "1 \<le> cover h (unat (a - h)) (live_objs live)"
    using m(1) f by (intro cover_pos[of "(a, rsz sz)"]) (auto simp: live_objs_def intro: rev_image_eqI)
  show "a \<noteq> 0" using c slab_invD(10)[OF inv] by (auto simp: holders_def)
qed

lemma live_not_slot:
  assumes inv: "slab_inv h F (cs, st, live)" and m: "(a, sz) \<in> set live" "sz \<noteq> 0" and j: "j < NUM_CLASSES"
  shows "a \<notin> set (F j)"
proof
  assume "a \<in> set (F j)"
  then have "1 \<le> (\<Sum>i < NUM_CLASSES. cover h (unat (a - h)) (slot_objs F i))"
    using slot_cover[OF j] first_byte[of "csz j" a h] csz_ge(1)[OF j] by simp
  then show False using live_first(3)[OF inv m] slab_invD(9)[OF inv, of "unat (a - h)"] by (simp add: holders_def)
qed

lemma live_objs_remove1: "(a, sz) \<in> set live \<Longrightarrow>
    cover h x (live_objs live) = (if x \<in> obytes h (a, rsz sz) then 1 else 0) + cover h x (live_objs (remove1 (a, sz) live))"
  by (induction live) (auto simp: live_objs_def)

lemma push_inv:
  assumes inv: "slab_inv h F (cs, st, live)" and m: "(a, sz) \<in> set live" "sz \<noteq> 0" and i: "size_class_idx sz = Some i"
    and p: "cache_free a (cs ! i) st = (c, st')"
  shows "slab_inv h (F(i := a # F i)) (cs[i := c], st', remove1 (a, sz) live)"
proof -
  have iN: "i < NUM_CLASSES" and ri: "rsz sz = csz i" using size_class_idx_Some[OF i] i m(2) by (auto simp: rsz_def)
  have e: "c = (cs ! i)\<lparr>free_head := a\<rparr>" "st' = st\<lparr>ram := store64 (ram st) a (free_head (cs ! i))\<rparr>"
    using p by (auto simp: cache_free_def)
  have al: "csz i dvd unat (a - h)" using slab_invD(8)[OF inv m(1)] m(2) ri by (simp add: live_ok_def)
  then have a8: "aligned8 a"
    using aligned8_slot[OF slab_invD(2)[OF inv]] csz_ge(2)[OF iN] dvd_trans by blast
  have ch: "chain (ram st') (free_head (cs[i := c] ! j)) ((F(i := a # F i)) j)" if j: "j < NUM_CLASSES" for j
  proof (cases "j = i")
    case True
    have "chain (store64 (ram st) a (free_head (cs ! i))) a (a # F i)"
      using slot_facts(1)[OF inv iN] live_not_slot[OF inv m iN] live_first(1)[OF inv m] a8
      by (intro chain_push[OF slab_invD(6)[OF inv iN]]) auto
    then show ?thesis using True e iN slab_invD(4)[OF inv] by simp
  next
    case False
    have "load64 (store64 (ram st) a v) b = load64 (ram st) b" if "b \<in> set (F j)" for b v
      using that live_not_slot[OF inv m j] a8 slot_facts(1)[OF inv j that] by (intro load64_store64_other) auto
    then show ?thesis using False e chain_cong[OF slab_invD(6)[OF inv j]] by simp
  qed
  have "holders h (F(i := a # F i)) st' (remove1 (a, sz) live) x = holders h F st live x" for x
    using sum_upd[OF iN, of h x F "a # F i"] live_objs_remove1[OF m(1), of h x] ri e(2) by (simp add: holders_def)
  moreover have "set (remove1 (a, sz) live) \<subseteq> set live" by (rule set_remove1_subset)
  ultimately show ?thesis
    using inv ch al e by (auto simp: slab_inv_def nth_list_update)
qed

text \<open>Refilling an empty cache.\<close>

lemma class_count:
  assumes "i < NUM_CLASSES"
  shows "unat (PAGE_SIZE div SIZE_CLASSES ! i) * csz i = 4096" "csz i dvd 4096"
    "k < unat (PAGE_SIZE div SIZE_CLASSES ! i) \<Longrightarrow> k * csz i < 4096"
proof -
  have d: "csz i dvd 4096" using le_imp_power_dvd[of "i + 3" 12 "2 :: nat"] assms by (simp add: csz_eq NUM_CLASSES)
  have "unat (PAGE_SIZE div SIZE_CLASSES ! i) = 4096 div csz i" by (simp add: unat_div csz_def)
  then show n: "unat (PAGE_SIZE div SIZE_CLASSES ! i) * csz i = 4096" using d by simp
  show "csz i dvd 4096" by (rule d)
  assume "k < unat (PAGE_SIZE div SIZE_CLASSES ! i)"
  then have "k * csz i < unat (PAGE_SIZE div SIZE_CLASSES ! i) * csz i" using csz_ge(1)[OF assms] by simp
  then show "k * csz i < 4096" unfolding n .
qed

lemma slot_addr:
  assumes p: "page_aligned p" and i: "i < NUM_CLASSES" and k: "k < unat (PAGE_SIZE div SIZE_CLASSES ! i)"
  shows "unat (p + h + of_nat k * SIZE_CLASSES ! i - h) = unat p + k * csz i"
proof -
  have "SIZE_CLASSES ! i = of_nat (csz i)" by (simp add: csz_def)
  then have "p + h + of_nat k * SIZE_CLASSES ! i - h = p + of_nat (k * csz i)" by simp
  then show ?thesis using unat_in_page[OF p class_count(3)[OF i k]] by simp
qed

lemma free_held:
  assumes inv: "slab_inv h F (cs, st, live)" and x: "x \<in> free_bytes (frames st)"
  shows "cover h x (live_objs live) = 0" "(\<Sum>i < NUM_CLASSES. cover h x (slot_objs F i)) = 0" "x \<noteq> unat (- h)"
proof -
  show "cover h x (live_objs live) = 0" "(\<Sum>i < NUM_CLASSES. cover h x (slot_objs F i)) = 0"
    using slab_invD(9)[OF inv, of x] x by (auto simp: holders_def)
  show "x \<noteq> unat (- h)" using slab_invD(10)[OF inv] x by (auto simp: holders_def)
qed

lemma refill_inv:
  assumes inv: "slab_inv h F (cs, st, live)" and i: "i < NUM_CLASSES" and e: "free_head (cs ! i) = 0"
    and r: "cache_refill (cs ! i) st = Some (True, c, st')"
  shows "\<exists>F'. slab_inv h F' (cs[i := c], st', live) \<and> free_head c \<noteq> 0"
proof -
  let ?z = "SIZE_CLASSES ! i" and ?n = "unat (PAGE_SIZE div SIZE_CLASSES ! i)"
  have z: "obj_size (cs ! i) = ?z" by (rule slab_invD(5)[OF inv i])
  obtain p st1 where al: "mm_alloc 0 st = Some (Some p, st1)"
    using r unfolding cache_refill_def by (auto simp: bind_eq_Some_conv split: option.splits)
  obtain h' m where lp: "refill_loop ?n (phys_to_virt st1 p) ?z 0 (ram st1) = (h', m)" by fastforce
  have c: "c = (cs ! i)\<lparr>free_head := h'\<rparr>" "st' = st1\<lparr>ram := m\<rparr>"
    using r e al lp unfolding cache_refill_def z by auto
  note s = mm_alloc_Some[OF slab_invD(3)[OF inv] al]
  have pa: "page_aligned p" using s(2) by (simp add: page_aligned_def bsz_def)
  have v: "phys_to_virt st1 p = p + h" using s(6) slab_invD(1)[OF inv] by (simp add: phys_to_virt_def)
  define f where "f k = p + h + of_nat k * ?z" for k
  have uf: "unat (f k - h) = unat p + k * csz i" if "k < ?n" for k unfolding f_def by (rule slot_addr[OF pa i that])
  have inp: "unat (f k - h) \<in> blk p 0" if "k < ?n" for k
    using uf[OF that] class_count(3)[OF i that] by (simp add: blk_def bsz_def)
  have fd: "csz i dvd unat (f k - h)" if "k < ?n" for k
    using uf[OF that] dvd_trans[OF class_count(2)[OF i], of "unat p"] pa by (simp add: page_aligned_def)
  have f8: "aligned8 (f k)" if "k < ?n" for k
    using aligned8_slot[OF slab_invD(2)[OF inv]] fd[OF that] csz_ge(2)[OF i] dvd_trans by blast
  have f0: "f k \<noteq> 0" if "k < ?n" for k
    using free_held(3)[OF inv, of "unat (f k - h)"] inp[OF that] s(3) by auto
  have fslot: "f k \<notin> set (F j)" if "k < ?n" "j < NUM_CLASSES" for j k
    using slot_cover[OF that(2), of "f k" F "unat (f k - h)" h] first_byte[of "csz j" "f k" h] csz_ge(1)[OF that(2)]
      free_held(2)[OF inv, of "unat (f k - h)"] inp[OF that(1)] s(3) by auto
  have fne: "f j \<noteq> f k" if "j < k" "k < ?n" for j k
    using uf[of j] uf[of k] that csz_ge(1)[OF i] by auto
  have Fi: "F i = []" using chain_head[OF slab_invD(6)[OF inv i]] e by simp
  have lp': "refill_loop ?n (p + h) ?z 0 (ram st) = (h', m)" using lp v s(5) by simp
  have ch: "chain m h' (rev (map f [0..<?n]) @ [])
      \<and> (\<forall>b. aligned8 b \<longrightarrow> (\<forall>k < ?n. b \<noteq> f k) \<longrightarrow> load64 m b = load64 (ram st) b)"
    unfolding f_def by (rule refill_loop_chain[OF _ _ _ _ lp']) (use f8 f0 fne in \<open>auto simp: f_def\<close>)
  let ?F = "F(i := rev (map f [0..<?n]))"
  have other: "chain m (free_head (cs ! j)) (F j)" if j: "j < NUM_CLASSES" for j
    using ch fslot[OF _ j] slot_facts(1)[OF inv j] by (intro chain_cong[OF slab_invD(6)[OF inv j]]) blast
  have "holders h ?F st' live x = holders h F st live x" for x
  proof -
    have "cover h x (map (\<lambda>a. (a, csz i)) (rev (map f [0..<?n]))) = cover h x (map (\<lambda>k. (f k, csz i)) [0..<?n])"
      by (simp add: rev_map[symmetric] comp_def)
    also have "\<dots> = (if x \<in> blk p 0 then 1 else 0)"
      using cover_tiles[of "csz i" ?n f h "unat p" x] uf csz_ge(1)[OF i] class_count(1)[OF i] by (simp add: blk_def bsz_def)
    finally show ?thesis
      using sum_upd[OF i, of h x F "rev (map f [0..<?n])"] Fi s(3,4) c(2) by (auto simp: holders_def)
  qed
  moreover have "chain (ram st') (free_head (cs[i := c] ! j)) (?F j)" if "j < NUM_CLASSES" for j
    using other[OF that] ch c i slab_invD(4)[OF inv] by (auto simp: nth_list_update)
  ultimately have inv': "slab_inv h ?F (cs[i := c], st', live)"
    using inv s(1,6) c fd z by (auto simp: slab_inv_def nth_list_update)
  have "?n \<noteq> 0" using class_count(1)[OF i] by (cases ?n) auto
  then have "free_head c \<noteq> 0" using chain_head[of m h' "rev (map f [0..<?n])"] ch c(1) by simp
  then show ?thesis using inv' by blast
qed

lemma slab_inv_mono:
  assumes inv: "slab_inv h F (cs, st, live)" and st: "hhdm_off st' = h" "buddy_inv (frames st')" "ram st' = ram st"
    and live: "\<forall>b \<in> set live'. live_ok h b"
    and le: "\<And>x. holders h F st' live' x \<le> holders h F st live x"
  shows "slab_inv h F (cs, st', live')"
proof -
  have "holders h F st' live' x \<le> 1" for x using le[of x] slab_invD(9)[OF inv, of x] by linarith
  moreover have "holders h F st' live' (unat (- h)) = 0" using le[of "unat (- h)"] slab_invD(10)[OF inv] by simp
  ultimately show ?thesis using inv st live by (auto simp: slab_inv_def)
qed

lemma alloc_inv:
  assumes inv: "slab_inv h F (cs, st, live)" and sz: "unat sz \<le> 2 ^ 63" and a: "slab_alloc sz (cs, st) = Some (Some p, cs', st')"
  shows "\<exists>F'. slab_inv h F' (cs', st', (p, sz) # live)"
proof (cases "sz = 0")
  case True
  then have e: "cs' = cs" "st' = st" using a by (auto simp: slab_alloc_def)
  have "obytes h (p, 0) = {}" for p by (simp add: obytes_def)
  then have "holders h F st ((p, sz) # live) x = holders h F st live x" for x
    using True by (simp add: holders_def live_objs_def rsz_def)
  then have "slab_inv h F (cs, st, (p, sz) # live)"
    using slab_invD(1,3,8)[OF inv] True by (intro slab_inv_mono[OF inv]) (auto simp: live_ok_def)
  then show ?thesis using e by blast
next
  case nz: False
  show ?thesis
  proof (cases "size_class_idx sz")
    case (Some i)
    have iN: "i < NUM_CLASSES" by (rule size_class_idx_Some(1)[OF Some])
    obtain c where ca: "cache_alloc (cs ! i) st = Some (Some p, c, st')" "cs' = cs[i := c]"
      using a nz Some by (auto simp: slab_alloc_def bind_eq_Some_conv)
    show ?thesis
    proof (cases "free_head (cs ! i) = 0")
      case True
      then obtain c1 where r: "cache_refill (cs ! i) st = Some (True, c1, st')" "cache_pop c1 st' = (p, c)"
        using ca(1) by (auto simp: cache_alloc_def bind_eq_Some_conv split: if_splits prod.splits)
      obtain F1 where F1: "slab_inv h F1 (cs[i := c1], st', live)" "free_head c1 \<noteq> 0"
        using refill_inv[OF inv iN True r(1)] by blast
      have "cs[i := c1] ! i = c1" using iN slab_invD(4)[OF inv] by simp
      then show ?thesis using pop_inv[OF F1(1) Some nz sz] F1(2) r(2) ca(2) by auto
    next
      case False
      then have "cache_pop (cs ! i) st = (p, c)" "st' = st"
        using ca(1) by (auto simp: cache_alloc_def bind_eq_Some_conv split: prod.splits)
      then show ?thesis using pop_inv[OF inv Some nz sz False] ca(2) by auto
    qed
  next
    case None
    let ?g = "(sz + PAGE_SIZE - 1) div PAGE_SIZE"
    obtain ord q where o: "slab_pages_to_order ?g = Some (Some ord)" "mm_alloc ord st = Some (Some q, st')"
      "p = phys_to_virt st' q" "cs' = cs"
      using a nz None by (auto simp: slab_alloc_def bind_eq_Some_conv split: option.splits)
    note s = mm_alloc_Some[OF slab_invD(3)[OF inv] o(2)]
    note b = big_fits[OF sz o(1)]
    have ph: "p - h = q" using o(3) s(6) slab_invD(1)[OF inv] by (simp add: phys_to_virt_def)
    have rs: "rsz sz = bsz ord" using None nz b(3) by (simp add: rsz_def)
    have ob: "obytes h (p, rsz sz) = blk q ord" using ph rs by (simp add: obytes_def blk_def)
    have "live_ok h (p, sz)" using nz b rs sz None o(1) s(2) ph by (simp add: live_ok_def)
    moreover have "holders h F st' ((p, sz) # live) x \<le> holders h F st live x" for x
      using ob s(3,4) by (auto simp: holders_def live_objs_def)
    ultimately have "slab_inv h F (cs, st', (p, sz) # live)"
      using slab_invD(8)[OF inv] s slab_invD(1)[OF inv] by (intro slab_inv_mono[OF inv]) auto
    then show ?thesis using o(4) by blast
  qed
qed

lemma alloc_oom:
  assumes inv: "slab_inv h F (cs, st, live)" and a: "slab_alloc sz (cs, st) = Some (None, cs', st')"
  shows "slab_inv h F (cs', st', live)"
proof -
  have "cs' = cs \<and> st' = st"
  proof (cases "size_class_idx sz")
    case (Some i)
    have iN: "i < NUM_CLASSES" by (rule size_class_idx_Some(1)[OF Some])
    obtain c where c: "cache_alloc (cs ! i) st = Some (None, c, st')" "cs' = cs[i := c]"
      using a Some by (auto simp: slab_alloc_def bind_eq_Some_conv split: if_splits)
    then have "cache_refill (cs ! i) st = Some (False, c, st')"
      by (auto simp: cache_alloc_def bind_eq_Some_conv split: if_splits prod.splits)
    then have "mm_alloc 0 st = Some (None, st')" "c = cs ! i"
      by (auto simp: cache_refill_def bind_eq_Some_conv split: option.splits prod.splits)
    then show ?thesis using mm_alloc_None[OF slab_invD(3)[OF inv]] c(2) by auto
  next
    case None
    then show ?thesis
      using a mm_alloc_None[OF slab_invD(3)[OF inv]] by (auto simp: slab_alloc_def bind_eq_Some_conv split: option.splits if_splits)
  qed
  then show ?thesis using inv by simp
qed

lemma free_inv:
  assumes inv: "slab_inv h F (cs, st, live)" and m: "(p, sz) \<in> set live" and f: "slab_free p sz (cs, st) = Some (cs', st')"
  shows "\<exists>F'. slab_inv h F' (cs', st', remove1 (p, sz) live)"
proof (cases "sz = 0")
  case True
  then have e: "cs' = cs" "st' = st" using f by (auto simp: slab_free_def)
  have "holders h F st (remove1 (p, sz) live) x = holders h F st live x" for x
    using live_objs_remove1[OF m, of h x] True by (simp add: holders_def rsz_def obytes_def)
  moreover have "\<forall>b \<in> set (remove1 (p, sz) live). live_ok h b"
    using slab_invD(8)[OF inv] set_remove1_subset[of "(p, sz)" live] by blast
  ultimately have "slab_inv h F (cs, st, remove1 (p, sz) live)"
    using slab_invD(1,3)[OF inv] by (intro slab_inv_mono[OF inv]) simp_all
  then show ?thesis using e by blast
next
  case nz: False
  note p0 = live_first(1)[OF inv m nz]
  show ?thesis
  proof (cases "size_class_idx sz")
    case (Some i)
    then show ?thesis using push_inv[OF inv m nz Some] f nz p0 by (auto simp: slab_free_def split: prod.splits)
  next
    case None
    let ?q = "p - h" and ?o = "big_order sz"
    note l = slab_invD(8)[OF inv m, unfolded live_ok_def]
    have g: "slab_pages_to_order ((sz + PAGE_SIZE - 1) div PAGE_SIZE) = Some (Some ?o)" "unat sz \<le> 2 ^ 63"
      and rs: "rsz sz = bsz ?o" and al: "bsz ?o dvd unat ?q"
      using l nz None by (auto simp: rsz_def)
    obtain b where b: "buddy_free ?q ?o (frames st) = Some b" "cs' = cs" "st' = st\<lparr>frames := b\<rparr>"
      using f nz p0 None g(1) slab_invD(1)[OF inv]
      by (auto simp: slab_free_def mm_free_def mm_virt_to_phys_def bind_eq_Some_conv)
    have ob: "obytes h (p, rsz sz) = blk ?q ?o" using rs by (simp add: obytes_def blk_def)
    have dis: "blk ?q ?o \<inter> free_bytes (frames st) = {}"
    proof (rule ccontr)
      assume "blk ?q ?o \<inter> free_bytes (frames st) \<noteq> {}"
      then obtain x where x: "x \<in> blk ?q ?o" "x \<in> free_bytes (frames st)" by blast
      then have "1 \<le> cover h x (live_objs live)" using live_objs_remove1[OF m, of h x] ob by simp
      then show False using free_held(1)[OF inv x(2)] by simp
    qed
    obtain s' q where s': "buddy_free ?q ?o (frames st) = Some s'" "buddy_inv s'"
      "free_bytes s' = (free_bytes (frames st) \<union> blk ?q ?o) - slot_blk (free_lists (frames st)) q"
      using buddy_free_sound[OF slab_invD(3)[OF inv] big_fits(1)[OF g(2,1)] al dis] by metis
    have "holders h F st' (remove1 (p, sz) live) x \<le> holders h F st live x" for x
      using live_objs_remove1[OF m, of h x] ob s'(1,3) b(1,3) dis by (auto simp: holders_def)
    moreover have "\<forall>b \<in> set (remove1 (p, sz) live). live_ok h b"
      using slab_invD(8)[OF inv] set_remove1_subset[of "(p, sz)" live] by blast
    ultimately have "slab_inv h F (cs, st', remove1 (p, sz) live)"
      using s'(1,2) b slab_invD(1)[OF inv] by (intro slab_inv_mono[OF inv]) auto
    then show ?thesis using b(2) by blast
  qed
qed

text \<open>A client may write anything to the memory of its objects.\<close>

lemma write_inv:
  assumes inv: "slab_inv h F (cs, st, live)"
    and w: "\<And>x. (\<And>b. b \<in> set (live_objs live) \<Longrightarrow> unat (x - h) \<notin> obytes h b) \<Longrightarrow> m x = ram st x"
  shows "slab_inv h F (cs, st\<lparr>ram := m\<rparr>, live)"
proof -
  have "load64 m a = load64 (ram st) a" if j: "j < NUM_CLASSES" "a \<in> set (F j)" for j a
  proof (rule load64_cong)
    fix k :: nat assume k: "k < 8"
    have d: "csz j dvd unat (a - h)" by (rule slab_invD(7)[OF inv j])
    then have fit: "unat (a - h) + csz j \<le> 2 ^ 64"
      using aligned_block_fits[of "j + 3" "a - h"] csz_eq[OF j(1)] j(1) by (simp add: NUM_CLASSES)
    have "unat (a + of_nat k - h) = unat (a - h + of_nat k)" by (simp add: algebra_simps)
    also have "\<dots> = unat (a - h) + k"
      using fit k csz_ge(1)[OF j(1)] by (subst unat_add_nowrap) (simp_all add: of_nat_small)
    finally have x: "unat (a + of_nat k - h) \<in> obytes h (a, csz j)" using k csz_ge(1)[OF j(1)] by (simp add: obytes_def)
    have "cover h (unat (a + of_nat k - h)) (live_objs live) = 0"
      using slot_cover[where F = F, OF j x] slab_invD(9)[OF inv, of "unat (a + of_nat k - h)"] by (simp add: holders_def)
    then show "m (a + of_nat k) = ram st (a + of_nat k)" using cover_pos by (intro w) fastforce
  qed
  then have "chain m (free_head (cs ! j)) (F j)" if "j < NUM_CLASSES" for j
    using chain_cong[OF slab_invD(6)[OF inv that]] that by blast
  then show ?thesis using inv by (auto simp: slab_inv_def holders_def)
qed

subsection \<open>Objects never overlap\<close>

text \<open>
  What the kernel does with the heap: allocations of at most \<open>isize::MAX\<close> bytes (the bound of
  \<open>Layout\<close>), failed allocations, frees of live objects with their size, and writes to live objects.
\<close>

inductive slab_step :: "slab_state \<Rightarrow> slab_state \<Rightarrow> bool" where
  alloc: "unat sz < 2 ^ 63 \<Longrightarrow> slab_alloc sz (cs, st) = Some (Some p, cs', st') \<Longrightarrow> slab_step (cs, st, live) (cs', st', (p, sz) # live)"
| oom: "slab_alloc sz (cs, st) = Some (None, cs', st') \<Longrightarrow> slab_step (cs, st, live) (cs', st', live)"
| free: "(p, sz) \<in> set live \<Longrightarrow> slab_free p sz (cs, st) = Some (cs', st') \<Longrightarrow> slab_step (cs, st, live) (cs', st', remove1 (p, sz) live)"
| store: "(\<And>x. (\<And>b. b \<in> set (live_objs live) \<Longrightarrow> unat (x - hhdm_off st) \<notin> obytes (hhdm_off st) b) \<Longrightarrow> m x = ram st x)
    \<Longrightarrow> slab_step (cs, st, live) (cs, st\<lparr>ram := m\<rparr>, live)"

lemma slab_step_inv:
  assumes "slab_step s s'" "slab_inv h F s"
  shows "\<exists>F'. slab_inv h F' s'"
  using assms
proof cases
  case (alloc sz cs st p cs' st' live)
  then show ?thesis using alloc_inv[of h F cs st live sz p cs' st'] assms(2) by auto
next
  case (oom sz cs st cs' st' live)
  then show ?thesis using alloc_oom[of h F cs st live sz cs' st'] assms(2) by blast
next
  case (free p sz live cs st cs' st')
  then show ?thesis using free_inv[of h F cs st live p sz cs' st'] assms(2) by blast
next
  case (store live st m cs)
  have inv: "slab_inv h F (cs, st, live)" using store(1) assms(2) by simp
  then have "slab_inv h F (cs, st\<lparr>ram := m\<rparr>, live)"
    using store(3) slab_invD(1)[OF inv] by (intro write_inv) auto
  then show ?thesis using store(2) by blast
qed

lemma slab_init_inv:
  assumes "page_aligned (hhdm_off st)" "buddy_inv (frames st)" "unat (- hhdm_off st) \<notin> free_bytes (frames st)"
  shows "slab_inv (hhdm_off st) (\<lambda>_. []) (caches_init, st, [])"
  using assms by (simp add: slab_inv_def caches_init_def NUM_CLASSES_def cache_new_def holders_def live_objs_def slot_objs_def)

lemma slab_reach_inv:
  assumes "slab_step\<^sup>*\<^sup>* (caches_init, st0, []) s" "page_aligned (hhdm_off st0)" "buddy_inv (frames st0)"
    "unat (- hhdm_off st0) \<notin> free_bytes (frames st0)"
  shows "\<exists>F. slab_inv (hhdm_off st0) F s"
  using assms(1)
proof (induction rule: rtranclp_induct)
  case base
  then show ?case using slab_init_inv[OF assms(2-4)] by blast
next
  case (step s s')
  then show ?case using slab_step_inv by blast
qed

lemma slab_order_returns: "\<exists>r. slab_pages_to_order g = Some r \<and> (\<forall>p. r = Some p \<longrightarrow> p < MAX_ORDER)"
proof (cases "unat g \<le> 2 ^ (MAX_ORDER - 1)")
  case True
  then obtain p where "slab_pages_to_order g = Some (Some p)" "p < MAX_ORDER" by (rule slab_order)
  then show ?thesis by simp
next
  case False
  then have "push_bit (MAX_ORDER - 1) 1 < g" by (simp add: MAX_ORDER_def word_less_nat_alt)
  then show ?thesis by (simp add: slab_pages_to_order_def)
qed

lemma cache_alloc_returns: "cache_alloc c st \<noteq> None"
proof -
  obtain r st' where m: "mm_alloc 0 st = Some (r, st')" using mm_alloc_returns[of 0 st] by (auto simp: MAX_ORDER_def)
  have "cache_refill c st \<noteq> None"
    unfolding cache_refill_def m by (cases r) (simp_all add: case_prod_unfold Let_def)
  then show ?thesis by (auto simp: cache_alloc_def Let_def case_prod_unfold)
qed

lemma slab_alloc_returns: "slab_alloc sz (cs, st) \<noteq> None"
proof (cases "size_class_idx sz")
  case (Some i)
  obtain r c st' where "cache_alloc (cs ! i) st = Some (r, c, st')" using cache_alloc_returns[of "cs ! i" st] by auto
  then show ?thesis using Some by (simp add: slab_alloc_def)
next
  case None
  obtain r where r: "slab_pages_to_order ((sz + PAGE_SIZE - 1) div PAGE_SIZE) = Some r" "\<forall>p. r = Some p \<longrightarrow> p < MAX_ORDER"
    using slab_order_returns by blast
  show ?thesis
  proof (cases r)
    case (Some p)
    obtain q st' where "mm_alloc p st = Some (q, st')" using mm_alloc_returns[of p st] r(2) Some by blast
    then show ?thesis using None r(1) Some by (simp add: slab_alloc_def)
  qed (use None r(1) in \<open>simp add: slab_alloc_def\<close>)
qed

text \<open>
  C21. Whatever the kernel allocates, frees and writes to its objects, in any order, from an initialised
  page allocator: two live heap objects never share a byte, every live object has at least the size
  asked for, lies on a boundary of its size in physical memory and is not at address 0, and a further
  allocation of any size returns (an object or the out-of-memory result).
\<close>

theorem slab_objects_disjoint:
  assumes "slab_step\<^sup>*\<^sup>* (caches_init, st0, []) (cs, st, live)" "page_aligned (hhdm_off st0)" "buddy_inv (frames st0)"
    "unat (- hhdm_off st0) \<notin> free_bytes (frames st0)"
  shows "(\<forall>i j. i < j \<longrightarrow> j < length live \<longrightarrow>
        obytes (hhdm_off st) (live_objs live ! i) \<inter> obytes (hhdm_off st) (live_objs live ! j) = {})
    \<and> (\<forall>p sz. (p, sz) \<in> set live \<longrightarrow> sz \<noteq> 0 \<longrightarrow> p \<noteq> 0 \<and> unat sz \<le> rsz sz \<and> rsz sz dvd unat (mm_virt_to_phys st p))
    \<and> (\<forall>sz. slab_alloc sz (cs, st) \<noteq> None)"
proof -
  obtain F where inv: "slab_inv (hhdm_off st0) F (cs, st, live)" using slab_reach_inv[OF assms] by blast
  have h: "hhdm_off st = hhdm_off st0" by (rule slab_invD(1)[OF inv])
  have "obytes (hhdm_off st0) (live_objs live ! i) \<inter> obytes (hhdm_off st0) (live_objs live ! j) = {}" if "i < j" "j < length live" for i j
  proof (rule ccontr)
    assume "\<not> ?thesis"
    then obtain x where "x \<in> obytes (hhdm_off st0) (live_objs live ! i)" "x \<in> obytes (hhdm_off st0) (live_objs live ! j)" by blast
    then have "2 \<le> cover (hhdm_off st0) x (live_objs live)"
      using that by (intro cover_two[of i j]) (auto simp: live_objs_def)
    then show False using slab_invD(9)[OF inv, of x] by (simp add: holders_def)
  qed
  moreover have "p \<noteq> 0 \<and> unat sz \<le> rsz sz \<and> rsz sz dvd unat (mm_virt_to_phys st p)" if "(p, sz) \<in> set live" "sz \<noteq> 0" for p sz
    using live_first(1)[OF inv that] slab_invD(8)[OF inv that(1)] that(2) h by (auto simp: live_ok_def mm_virt_to_phys_def)
  moreover have "slab_alloc sz (cs, st) \<noteq> None" for sz by (rule slab_alloc_returns)
  ultimately show ?thesis unfolding h by blast
qed

lemma two_allocs:
  assumes "slab_alloc a (caches_init, st) = Some (Some p, cs1, st1)" "slab_alloc b (cs1, st1) = Some (Some q, cs2, st2)"
    "unat a < 2 ^ 63" "unat b < 2 ^ 63"
  shows "slab_step\<^sup>*\<^sup>* (caches_init, st, []) (cs2, st2, [(q, b), (p, a)])"
  using slab_step.alloc[OF assms(3,1)] slab_step.alloc[OF assms(4,2)] by (meson r_into_rtranclp rtranclp_trans)

lemma page_cache_alloc:
  assumes "size_class_idx sz = Some 9" "sz \<noteq> 0" "mm_alloc 0 st = Some (Some p, st1)" "phys_to_virt st1 p \<noteq> 0"
    "cs ! 9 = cache_new 4096" "9 < length cs"
  shows "slab_alloc sz (cs, st) = Some (Some (phys_to_virt st1 p), cs, st1\<lparr>ram := store64 (ram st1) (phys_to_virt st1 p) 0\<rparr>)"
proof -
  have "cache_refill (cache_new 4096) st
      = Some (True, \<lparr>obj_size = 4096, free_head = phys_to_virt st1 p\<rparr>, st1\<lparr>ram := store64 (ram st1) (phys_to_virt st1 p) 0\<rparr>)"
    using assms(3) by (simp add: cache_refill_def cache_new_def PAGE_SIZE_def)
  then have "cache_alloc (cache_new 4096) st
      = Some (Some (phys_to_virt st1 p), cache_new 4096, st1\<lparr>ram := store64 (ram st1) (phys_to_virt st1 p) 0\<rparr>)"
    by (simp add: cache_alloc_def cache_pop_def) (simp add: cache_new_def)
  then show ?thesis using assms list_update_id[of cs 9] by (simp add: slab_alloc_def)
qed

lemma demo_pages: "\<exists>f1 f2. buddy_alloc 0 demo_frames = Some (Some 0x4000, f1) \<and> buddy_alloc 0 f1 = Some (Some 0x5000, f2)"
  by (simp add: buddy_alloc_def demo_frames_def MAX_ORDER_def numeral_eq_Suc PAGE_SIZE_def)

theorem slab_objects_disjoint_witness:
  "\<exists>p q cs st. p \<noteq> q \<and> slab_step\<^sup>*\<^sup>* (caches_init, demo_mm, []) (cs, st, [(q, 3000), (p, 4096)])
     \<and> obytes (hhdm_off st) (q, rsz 3000) \<inter> obytes (hhdm_off st) (p, rsz 4096) = {}"
proof -
  obtain f1 f2 where f: "buddy_alloc 0 demo_frames = Some (Some 0x4000, f1)" "buddy_alloc 0 f1 = Some (Some 0x5000, f2)"
    using demo_pages by blast
  have ix: "size_class_idx 4096 = Some 9" "size_class_idx 3000 = Some 9"
    by (simp_all add: size_class_idx_def SIZE_CLASSES_def)
  have c: "caches_init ! 9 = cache_new 4096" "9 < length caches_init" by (simp_all add: caches_init_def SIZE_CLASSES_def)
  have m1: "mm_alloc 0 demo_mm = Some (Some 0x4000, demo_mm\<lparr>frames := f1\<rparr>)" using f(1) by (simp add: mm_alloc_def demo_mm_def)
  obtain cs1 st1 where a1: "slab_alloc 4096 (caches_init, demo_mm) = Some (Some 0xFFFF800000004000, cs1, st1)"
    "cs1 = caches_init" "frames st1 = f1" "hhdm_off st1 = hhdm_off demo_mm"
    using page_cache_alloc[OF ix(1) _ m1 _ c] by (simp add: phys_to_virt_def demo_mm_def)
  have m2: "mm_alloc 0 st1 = Some (Some 0x5000, st1\<lparr>frames := f2\<rparr>)" using f(2) a1(3) by (simp add: mm_alloc_def)
  obtain st2 where a2: "slab_alloc 3000 (cs1, st1) = Some (Some 0xFFFF800000005000, caches_init, st2)"
    using page_cache_alloc[OF ix(2) _ m2 _ c] a1(2,4) by (simp add: phys_to_virt_def demo_mm_def)
  have r: "slab_step\<^sup>*\<^sup>* (caches_init, demo_mm, []) (caches_init, st2, [(0xFFFF800000005000, 3000), (0xFFFF800000004000, 4096)])"
    by (rule two_allocs[OF a1(1) a2]) simp_all
  have d: "page_aligned (hhdm_off demo_mm)" "buddy_inv (frames demo_mm)" "unat (- hhdm_off demo_mm) \<notin> free_bytes (frames demo_mm)"
    using demo_frames_ok by (simp_all add: demo_mm_def page_aligned_def)
  have "obytes (hhdm_off st2) (0xFFFF800000005000, rsz 3000) \<inter> obytes (hhdm_off st2) (0xFFFF800000004000, rsz 4096) = {}"
    using slab_objects_disjoint[OF r d] by (fastforce simp: live_objs_def dest: spec[of _ 0])
  then show ?thesis using r by (intro exI[of _ "0xFFFF800000004000"] exI[of _ "0xFFFF800000005000"]) auto
qed

end
