(* ===== verification/Elf.thy ===== *)
theory Elf
  imports Vmm_Arch
begin

text \<open>
  The ELF64 loader (\<open>src/elf/src/lib.rs\<close>). The image is a list of bytes; the loader works on an
  address space and the memory state. The debug output and the cache maintenance of executable
  segments have no effect on the modelled state. \<open>em_target\<close> is the machine the kernel is built for.
\<close>

datatype elf_error = TooShort | BadMagic | NotElf64 | NotLittleEndian | NotExecutable | UnsupportedArch
  | BadProgramHeader | MappingFailed | SegmentOverflow

type_synonym 'a elf_result = "(elf_error + 'a) panicking"

text \<open>The operator \<open>?\<close> on a result, inside code that may panic.\<close>

fun and_then :: "'a elf_result \<Rightarrow> ('a \<Rightarrow> 'b elf_result) \<Rightarrow> 'b elf_result" where
  "and_then None f = None"
| "and_then (Some (Inl e)) f = Some (Inl e)"
| "and_then (Some (Inr x)) f = f x"

definition ok_or :: "elf_error \<Rightarrow> 'a option panicking \<Rightarrow> 'a elf_result" where
  "ok_or e r = map_option (\<lambda>v. case v of None \<Rightarrow> Inl e | Some x \<Rightarrow> Inr x) r"

definition ELF_MAGIC :: "u8 list" where "ELF_MAGIC = [0x7F, 0x45, 0x4C, 0x46]"
definition ELFCLASS64 :: u8 where "ELFCLASS64 = 2"
definition ELFDATA2LSB :: u8 where "ELFDATA2LSB = 1"
definition ET_EXEC :: u16 where "ET_EXEC = 2"
definition ET_DYN :: u16 where "ET_DYN = 3"
definition PT_LOAD :: u32 where "PT_LOAD = 1"
definition ELF_PF_X :: u32 where "ELF_PF_X = 1"
definition ELF_PF_W :: u32 where "ELF_PF_W = 2"
definition EM_AARCH64 :: u16 where "EM_AARCH64 = 183"
definition EM_X86_64 :: u16 where "EM_X86_64 = 62"

text \<open>
  A little-endian field of \<open>n\<close> bytes. The test adds to the offset and can wrap; the slice that follows
  panics when it is out of range.
\<close>

fun le_bytes :: "u8 list \<Rightarrow> 'a::len word" where
  "le_bytes [] = 0"
| "le_bytes (x # xs) = ucast x OR push_bit 8 (le_bytes xs)"

definition read_le :: "nat \<Rightarrow> u8 list \<Rightarrow> usize \<Rightarrow> 'a::len word option panicking" where
  "read_le n b off =
     (if unat (off + of_nat n) > length b then Some None
      else if unat off + n \<le> length b then Some (Some (le_bytes (take n (drop (unat off) b))))
      else None)"

definition r16 :: "u8 list \<Rightarrow> usize \<Rightarrow> u16 option panicking" where "r16 = read_le 2"
definition r32 :: "u8 list \<Rightarrow> usize \<Rightarrow> u32 option panicking" where "r32 = read_le 4"
definition r64 :: "u8 list \<Rightarrow> usize \<Rightarrow> u64 option panicking" where "r64 = read_le 8"

record ehdr =
  e_type :: u16
  e_machine :: u16
  e_entry :: u64
  e_phoff :: u64
  e_phentsize :: u16
  e_phnum :: u16

definition parse_ehdr :: "u16 \<Rightarrow> u8 list \<Rightarrow> ehdr elf_result" where
  "parse_ehdr em_target b =
     (if length b < 64 then Some (Inl TooShort)
      else if take 4 b \<noteq> ELF_MAGIC then Some (Inl BadMagic)
      else if b ! 4 \<noteq> ELFCLASS64 then Some (Inl NotElf64)
      else if b ! 5 \<noteq> ELFDATA2LSB then Some (Inl NotLittleEndian)
      else and_then (ok_or TooShort (r16 b 16)) (\<lambda>ty.
           and_then (ok_or TooShort (r16 b 18)) (\<lambda>mach.
           and_then (ok_or TooShort (r64 b 24)) (\<lambda>entry.
           and_then (ok_or TooShort (r64 b 32)) (\<lambda>phoff.
           and_then (ok_or TooShort (r16 b 54)) (\<lambda>phentsize.
           and_then (ok_or TooShort (r16 b 56)) (\<lambda>phnum.
             if ty \<noteq> ET_EXEC \<and> ty \<noteq> ET_DYN then Some (Inl NotExecutable)
             else if mach \<noteq> em_target then Some (Inl UnsupportedArch)
             else Some (Inr \<lparr>e_type = ty, e_machine = mach, e_entry = entry, e_phoff = phoff,
                             e_phentsize = phentsize, e_phnum = phnum\<rparr>))))))))"

record phdr =
  p_type :: u32
  p_flags :: u32
  p_offset :: u64
  p_vaddr :: u64
  p_filesz :: u64
  p_memsz :: u64

definition parse_phdr :: "u8 list \<Rightarrow> usize \<Rightarrow> phdr elf_result" where
  "parse_phdr b off =
     and_then (ok_or BadProgramHeader (r32 b (off + 0))) (\<lambda>ty.
     and_then (ok_or BadProgramHeader (r32 b (off + 4))) (\<lambda>fl.
     and_then (ok_or BadProgramHeader (r64 b (off + 8))) (\<lambda>po.
     and_then (ok_or BadProgramHeader (r64 b (off + 16))) (\<lambda>va.
     and_then (ok_or BadProgramHeader (r64 b (off + 32))) (\<lambda>fs.
     and_then (ok_or BadProgramHeader (r64 b (off + 40))) (\<lambda>ms.
       Some (Inr \<lparr>p_type = ty, p_flags = fl, p_offset = po, p_vaddr = va, p_filesz = fs, p_memsz = ms\<rparr>)))))))"

text \<open>The page flags of a segment: user memory, writable unless it is executable.\<close>

definition seg_flags :: "u32 \<Rightarrow> u64" where
  "seg_flags fl =
     (let f0 = PF_PRESENT OR PF_USER;
          f1 = (if fl AND ELF_PF_W \<noteq> 0 \<and> fl AND ELF_PF_X = 0 then f0 OR PF_WRITABLE else f0)
      in if fl AND ELF_PF_X \<noteq> 0 then f1 OR PF_EXECUTE else f1)"

text \<open>
  One \<open>PT_LOAD\<close> segment: the range check on the file, the mapping, the copy, and the end of the
  segment, in this order. The address space and the memory are returned in the error cases too.
\<close>

type_synonym load_state = "address_space \<times> mm_state"

definition load_segment :: "arch_paging \<Rightarrow> u8 list \<Rightarrow> phdr \<Rightarrow> load_state \<Rightarrow> ((elf_error + usize) \<times> load_state) panicking" where
  "load_segment ar bytes ph st =
     (let (as, mm) = st;
          vaddr = p_vaddr ph; memsz = p_memsz ph; filesz = p_filesz ph; foffset = p_offset ph
      in case checked_add foffset filesz of
           None \<Rightarrow> Some (Inl SegmentOverflow, st)
         | Some fend \<Rightarrow>
             if unat fend > length bytes then Some (Inl BadProgramHeader, st)
             else (let page_vaddr = vaddr AND NOT (PAGE_SIZE - 1);
                       page_offset = vaddr - page_vaddr;
                       map_size = memsz + page_offset
                   in do {
                     (ok, as1, mm1) \<leftarrow> as_map ar as page_vaddr map_size (seg_flags (p_flags ph)) mm;
                     if \<not> ok then Some (Inl MappingFailed, as1, mm1)
                     else case as_find as1 page_vaddr of
                       None \<Rightarrow> Some (Inl MappingFailed, as1, mm1)
                     | Some i \<Rightarrow> do {
                         vma \<leftarrow> regions as1 ! i;
                         let virt_base = phys_to_virt mm1 (vma_phys vma + (vaddr - vma_start vma));
                         let mm2 = (if filesz > 0
                                    then mm1\<lparr>ram := write_bytes (ram mm1) virt_base (take (unat filesz) (drop (unat foffset) bytes))\<rparr>
                                    else mm1);
                         (case checked_add vaddr memsz of
                            None \<Rightarrow> Some (Inl SegmentOverflow, as1, mm2)
                          | Some seg_end \<Rightarrow> Some (Inr seg_end, as1, mm2))
                       }
                   }))"

text \<open>The loop over the program headers: \<open>n\<close> headers are left, \<open>i\<close> is the next one.\<close>

fun load_loop :: "arch_paging \<Rightarrow> u8 list \<Rightarrow> usize \<Rightarrow> usize \<Rightarrow> nat \<Rightarrow> nat \<Rightarrow> usize \<Rightarrow> load_state
    \<Rightarrow> ((elf_error + usize) \<times> load_state) panicking" where
  "load_loop ar bytes phoff phentsize i 0 highest st = Some (Inr highest, st)"
| "load_loop ar bytes phoff phentsize i (Suc n) highest st =
     (case parse_phdr bytes (phoff + of_nat i * phentsize) of
        None \<Rightarrow> None
      | Some (Inl e) \<Rightarrow> Some (Inl e, st)
      | Some (Inr ph) \<Rightarrow>
          if p_type ph \<noteq> PT_LOAD \<or> p_memsz ph = 0
          then load_loop ar bytes phoff phentsize (Suc i) n highest st
          else (case load_segment ar bytes ph st of
                  None \<Rightarrow> None
                | Some (Inl e, st1) \<Rightarrow> Some (Inl e, st1)
                | Some (Inr seg_end, st1) \<Rightarrow>
                    load_loop ar bytes phoff phentsize (Suc i) n (if seg_end > highest then seg_end else highest) st1))"

definition set_heap :: "usize \<Rightarrow> address_space \<Rightarrow> address_space" where
  "set_heap highest as =
     (if highest > 0
      then (let heap_page = (highest + PAGE_SIZE - 1) AND NOT (PAGE_SIZE - 1)
            in as\<lparr>heap_start := heap_page + PAGE_SIZE, heap_end := heap_page + PAGE_SIZE\<rparr>)
      else as)"

definition elf_load :: "arch_paging \<Rightarrow> u16 \<Rightarrow> u8 list \<Rightarrow> load_state \<Rightarrow> ((elf_error + usize) \<times> load_state) panicking" where
  "elf_load ar em_target bytes st =
     (case parse_ehdr em_target bytes of
        None \<Rightarrow> None
      | Some (Inl e) \<Rightarrow> Some (Inl e, st)
      | Some (Inr eh) \<Rightarrow>
          (let phoff = e_phoff eh; phentsize = ucast (e_phentsize eh); phnum = ucast (e_phnum eh)
           in case checked_mul phentsize phnum of
                None \<Rightarrow> Some (Inl BadProgramHeader, st)
              | Some tbl \<Rightarrow>
                  (case checked_add phoff tbl of
                     None \<Rightarrow> Some (Inl BadProgramHeader, st)
                   | Some ph_table_end \<Rightarrow>
                       if unat ph_table_end > length bytes then Some (Inl BadProgramHeader, st)
                       else (case load_loop ar bytes phoff phentsize 0 (unat phnum) 0 st of
                               None \<Rightarrow> None
                             | Some (Inl e, st1) \<Rightarrow> Some (Inl e, st1)
                             | Some (Inr highest, as1, mm1) \<Rightarrow> Some (Inr (e_entry eh), set_heap highest as1, mm1)))))"

end
