(* ===== verification/Elf_Props.thy ===== *)
theory Elf_Props
  imports Elf
begin

text \<open>
  What the ELF loader (\<open>src/elf/src/lib.rs\<close>) guarantees: headers are read in bounds, a loaded segment
  shows the file contents followed by zeros, and no page is writable and executable. A segment whose
  file size exceeds its memory size is copied past its pages.
\<close>

subsection \<open>Headers\<close>

lemma read_le_in_bounds:
  assumes "unat off + n < 2 ^ 64"
  shows "read_le n b off \<noteq> None"
    "read_le n b off = Some None \<longleftrightarrow> length b < unat off + n"
proof -
  have "unat (off + of_nat n) = unat off + n"
    using assms by (subst unat_add_nowrap) (simp_all add: unat_of_nat)
  then show "read_le n b off \<noteq> None" "read_le n b off = Some None \<longleftrightarrow> length b < unat off + n"
    by (auto simp: read_le_def)
qed

lemma and_then_returns:
  assumes "m \<noteq> None" "\<And>x. f x \<noteq> None"
  shows "and_then m f \<noteq> None"
  using assms by (cases m; cases "the m") auto

lemma ok_or_returns: "r \<noteq> None \<Longrightarrow> ok_or e r \<noteq> None"
  by (auto simp: ok_or_def)

lemma if_returns: "(c \<Longrightarrow> a \<noteq> None) \<Longrightarrow> (\<not> c \<Longrightarrow> b \<noteq> None) \<Longrightarrow> (if c then a else b) \<noteq> None"
  by simp

lemma unat_lt_u16: "unat (x :: u16) < 65536"
  using unsigned_less[of x] by simp

lemma unat_u16: "unat (ucast (x :: u16) :: usize) = unat x"
  using unat_lt_u16[of x] by (simp add: unsigned_ucast_eq take_bit_nat_eq_self)

lemmas field_returns = read_le_in_bounds(1)[THEN ok_or_returns]

lemma parse_ehdr_returns: "parse_ehdr em b \<noteq> None"
  unfolding parse_ehdr_def r16_def r64_def
  by (intro if_returns and_then_returns field_returns) simp_all

lemma parse_phdr_returns:
  assumes "unat off + 48 < 2 ^ 64"
  shows "parse_phdr b off \<noteq> None"
proof -
  have u: "unat (off + k) + n < 2 ^ 64" if "unat k + n \<le> 48" for k n
    using assms that by (subst unat_add_nowrap) auto
  show ?thesis
    unfolding parse_phdr_def r32_def r64_def
    by (intro and_then_returns field_returns u) simp_all
qed


text \<open>A program of one segment: a header of 64 bytes and one program header.\<close>

definition demo_elf :: "u8 list" where
  "demo_elf = [127, 69, 76, 70, 2, 1, 1, 0, 0, 0, 0, 0, 0, 0, 0, 0, 2, 0, 183, 0, 1, 0, 0, 0, 0, 0, 64, 0, 0, 0, 0, 0, 64, 0,
     0, 0, 0, 0, 0, 0, 0, 0, 0, 0, 0, 0, 0, 0, 0, 0, 0, 0, 64, 0, 56, 0, 1, 0, 0, 0, 0, 0, 0, 0, 1, 0, 0, 0, 5, 0,
     0, 0, 0, 0, 0, 0, 0, 0, 0, 0, 0, 0, 64, 0, 0, 0, 0, 0, 0, 0, 0, 0, 0, 0, 0, 0, 120, 0, 0, 0, 0, 0, 0, 0, 120,
     0, 0, 0, 0, 0, 0, 0, 0, 16, 0, 0, 0, 0, 0, 0]"

definition demo_ehdr :: ehdr where
  "demo_ehdr = \<lparr>e_type = ET_EXEC, e_machine = EM_AARCH64, e_entry = 0x400000, e_phoff = 64, e_phentsize = 56, e_phnum = 1\<rparr>"

lemma demo_elf_header: "parse_ehdr EM_AARCH64 demo_elf = Some (Inr demo_ehdr)"
  by code_simp


subsection \<open>Segments\<close>

lemma seg_flags_wx: "\<not> (seg_flags fl AND PF_WRITABLE \<noteq> 0 \<and> seg_flags fl AND PF_EXECUTE \<noteq> 0)"
  "pf_contains (seg_flags fl) PF_PRESENT" "pf_contains (seg_flags fl) PF_USER"
  by (simp_all add: seg_flags_def Let_def PF_PRESENT_def PF_USER_def PF_WRITABLE_def PF_EXECUTE_def pf_contains_def)

lemma as_map_success:
  assumes "as_map ar as virt sz flags st = Some (True, as', st')"
  obtains slot stop phys where "map_accepts as virt sz slot stop" "slot < length (regions as)"
    "as' = as\<lparr>regions := (regions as)[slot := Some (eager_region (page_of virt) (page_of virt + map_pages sz * PAGE_SIZE) phys flags)]\<rparr>"
proof -
  obtain slot stop where acc: "map_accepts as virt sz slot stop"
    using assms as_map_rejected[of as virt sz ar flags st] by fastforce
  have "slot < length (regions as)" using acc position_SomeD(1) by (auto simp: map_accepts_def)
  moreover have "\<exists>phys. as' = as\<lparr>regions := (regions as)[slot := Some (eager_region (page_of virt) (page_of virt + map_pages sz * PAGE_SIZE) phys flags)]\<rparr>"
    using assms unfolding as_map_accepted[OF acc] by (auto simp: bind_eq_Some_conv split: option.splits)
  ultimately show thesis using that acc by blast
qed

lemma load_segment_steps:
  assumes ld: "load_segment ar bytes ph (as, st) = Some (Inr e, as', st')"
  obtains fend i vma st1 where "checked_add (p_offset ph) (p_filesz ph) = Some fend" "unat fend \<le> length bytes"
    "as_map ar as (page_of (p_vaddr ph)) (p_memsz ph + (p_vaddr ph - page_of (p_vaddr ph))) (seg_flags (p_flags ph)) st = Some (True, as', st1)"
    "as_find as' (page_of (p_vaddr ph)) = Some i" "regions as' ! i = Some vma"
    "st' = (if p_filesz ph > 0 then st1\<lparr>ram := write_bytes (ram st1) (phys_to_virt st1 (vma_phys vma + (p_vaddr ph - vma_start vma)))
       (take (unat (p_filesz ph)) (drop (unat (p_offset ph)) bytes))\<rparr> else st1)"
proof -
  let ?v = "page_of (p_vaddr ph)" and ?sz = "p_memsz ph + (p_vaddr ph - page_of (p_vaddr ph))"
  note ld' = ld[unfolded load_segment_def Let_def align_page prod.case]
  obtain fend where f: "checked_add (p_offset ph) (p_filesz ph) = Some fend" using ld' by (cases "checked_add (p_offset ph) (p_filesz ph)") auto
  have fe: "unat fend \<le> length bytes" using ld' f by (cases "length bytes < unat fend") auto
  obtain ok as1 st1 where m: "as_map ar as ?v ?sz (seg_flags (p_flags ph)) st = Some (ok, as1, st1)"
    using ld' f fe by (cases "as_map ar as ?v ?sz (seg_flags (p_flags ph)) st") auto
  have ok: "ok" using ld' f fe m by (cases ok) auto
  obtain i where i: "as_find as1 ?v = Some i" using ld' f fe m ok by (cases "as_find as1 ?v") auto
  obtain vma where v: "regions as1 ! i = Some vma" using ld' f fe m ok i by (cases "regions as1 ! i") auto
  obtain seg_end where "checked_add (p_vaddr ph) (p_memsz ph) = Some seg_end"
    using ld' f fe m ok i v by (cases "checked_add (p_vaddr ph) (p_memsz ph)") auto
  then have r: "as' = as1" "st' = (if p_filesz ph > 0 then st1\<lparr>ram := write_bytes (ram st1) (phys_to_virt st1 (vma_phys vma + (p_vaddr ph - vma_start vma)))
       (take (unat (p_filesz ph)) (drop (unat (p_offset ph)) bytes))\<rparr> else st1)"
    using ld' f fe m ok i v by auto
  show thesis by (rule that[OF f fe _ _ _ r(2)]) (use m ok i v r(1) in auto)
qed

lemma seg_range:
  assumes "unat memsz \<le> 2 ^ 62" "memsz \<noteq> 0"
  shows "unat (memsz + (v - page_of v)) = unat memsz + unat v mod 4096" "0 < unat (map_pages (memsz + (v - page_of v)))"
    "unat memsz + unat v mod 4096 \<le> unat (map_pages (memsz + (v - page_of v))) * 4096"
    "unat (map_pages (memsz + (v - page_of v))) * 4096 < unat memsz + unat v mod 4096 + 4096"
proof -
  have o: "unat (v - page_of v) = unat v mod 4096"
    by (subst unat_sub) (simp_all add: word_le_nat_alt unat_page_of)
  show s: "unat (memsz + (v - page_of v)) = unat memsz + unat v mod 4096"
    using assms(1) mod_less_divisor[of 4096 "unat v"] unfolding o[symmetric] by (subst unat_add_nowrap) (simp_all add: o)
  have "unat memsz \<noteq> 0" using assms(2) by (simp add: unsigned_eq_0_iff)
  then have m0: "0 < unat memsz" by simp
  have "unat (memsz + (v - page_of v) + PAGE_SIZE - 1) = unat (memsz + (v - page_of v)) + 4095"
  proof -
    have e: "memsz + (v - page_of v) + PAGE_SIZE - 1 = memsz + (v - page_of v) + 4095" by (simp add: PAGE_SIZE_def)
    show ?thesis unfolding e using assms(1) mod_less_divisor[of 4096 "unat v"] by (subst unat_add_nowrap) (simp_all add: s)
  qed
  then have p: "unat (map_pages (memsz + (v - page_of v))) = (unat memsz + unat v mod 4096 + 4095) div 4096"
    unfolding map_pages_def unat_div s by simp
  show "0 < unat (map_pages (memsz + (v - page_of v)))"
    "unat memsz + unat v mod 4096 \<le> unat (map_pages (memsz + (v - page_of v))) * 4096"
    "unat (map_pages (memsz + (v - page_of v))) * 4096 < unat memsz + unat v mod 4096 + 4096"
    unfolding p using m0 by (auto simp: div_greater_zero_iff)
qed

lemma write_bytes_at: "k < 2 ^ 64 \<Longrightarrow> write_bytes m p bs (p + of_nat k) = (if k < length bs then bs ! k else m (p + of_nat k))"
  by (simp add: write_bytes_def unat_of_nat)

text \<open>
  A loaded segment: the area that was added and where the file bytes went.
\<close>

lemma load_segment_success:
  assumes inv: "as_inv as" and ld: "load_segment ar bytes ph (as, st) = Some (Inr e, as', st')"
    and sz: "unat (p_memsz ph) \<le> 2 ^ 62" "p_memsz ph \<noteq> 0"
  obtains slot stop phys st1 where
    "as_map ar as (page_of (p_vaddr ph)) (p_memsz ph + (p_vaddr ph - page_of (p_vaddr ph))) (seg_flags (p_flags ph)) st = Some (True, as', st1)"
    "map_accepts as (page_of (p_vaddr ph)) (p_memsz ph + (p_vaddr ph - page_of (p_vaddr ph))) slot stop"
    "as' = as\<lparr>regions := (regions as)[slot := Some (eager_region (page_of (p_vaddr ph)) stop phys (seg_flags (p_flags ph)))]\<rparr>"
    "slot < length (regions as)"
    "hhdm_off st' = hhdm_off st1"
    "\<And>k. k < 2 ^ 64 \<Longrightarrow> ram st' (phys_to_virt st1 (phys + (p_vaddr ph - page_of (p_vaddr ph))) + of_nat k)
       = (if k < unat (p_filesz ph) then bytes ! (unat (p_offset ph) + k)
          else ram st1 (phys_to_virt st1 (phys + (p_vaddr ph - page_of (p_vaddr ph))) + of_nat k))"
proof -
  let ?v = "page_of (p_vaddr ph)" and ?sz = "p_memsz ph + (p_vaddr ph - page_of (p_vaddr ph))"
  obtain fend i vma st1 where s: "checked_add (p_offset ph) (p_filesz ph) = Some fend" "unat fend \<le> length bytes"
    "as_map ar as ?v ?sz (seg_flags (p_flags ph)) st = Some (True, as', st1)"
    "as_find as' ?v = Some i" "regions as' ! i = Some vma"
    "st' = (if p_filesz ph > 0 then st1\<lparr>ram := write_bytes (ram st1) (phys_to_virt st1 (vma_phys vma + (p_vaddr ph - vma_start vma)))
       (take (unat (p_filesz ph)) (drop (unat (p_offset ph)) bytes))\<rparr> else st1)"
    by (rule load_segment_steps[OF ld])
  obtain slot stop phys where a: "map_accepts as ?v ?sz slot stop" "slot < length (regions as)"
    "as' = as\<lparr>regions := (regions as)[slot := Some (eager_region (page_of ?v) (page_of ?v + map_pages ?sz * PAGE_SIZE) phys (seg_flags (p_flags ph)))]\<rparr>"
    by (rule as_map_success[OF s(3)])
  have vv: "page_of ?v = ?v" by (simp add: page_of_aligned)
  have stop: "stop = ?v + map_pages ?sz * PAGE_SIZE"
    using a(1) vv by (auto simp: map_accepts_def checked_add_def split: if_splits)
  note a' = a(3)[unfolded vv, folded stop]
  have "?v < stop" using map_accepts_range(2)[OF a(1)] seg_range(2)[OF sz, of "p_vaddr ph"] vv by (simp add: word_less_nat_alt)
  then have "in_vma ?v (eager_region ?v stop phys (seg_flags (p_flags ph)))" by (simp add: in_vma_def eager_region_def)
  moreover have "as_inv as'" by (rule as_map_inv[OF inv s(3)])
  ultimately have "i = slot" using as_find_unique[of as' slot _ ?v] a' a(2) s(4) by simp
  then have vma: "vma = eager_region ?v stop phys (seg_flags (p_flags ph))" using s(5) a' a(2) by simp
  have l: "length (take (unat (p_filesz ph)) (drop (unat (p_offset ph)) bytes)) = unat (p_filesz ph)"
    using checked_add_Some[OF s(1)] s(2) by simp
  have w: "ram st' (phys_to_virt st1 (phys + (p_vaddr ph - ?v)) + of_nat k)
      = (if k < unat (p_filesz ph) then bytes ! (unat (p_offset ph) + k)
         else ram st1 (phys_to_virt st1 (phys + (p_vaddr ph - ?v)) + of_nat k))" if "k < 2 ^ 64" for k
    using s(6) vma l checked_add_Some[OF s(1)] s(2)
    by (auto simp: eager_region_def write_bytes_at[OF that] word_gt_0)
  have "hhdm_off st' = hhdm_off st1" using s(6) by simp
  then show thesis by (rule that[OF s(3) a(1) a' a(2) _ w])
qed

text \<open>The pages of a segment of less than 4 MiB.\<close>

lemma segment_pages:
  assumes sz: "unat (p_memsz ph) \<le> 0x3FF000" "p_memsz ph \<noteq> 0"
    and acc: "map_accepts as (page_of (p_vaddr ph)) (p_memsz ph + (p_vaddr ph - page_of (p_vaddr ph))) slot stop"
  shows "(\<And>va. page_of (p_vaddr ph) \<le> va \<Longrightarrow> unat va < unat (p_vaddr ph) + unat (p_memsz ph) \<Longrightarrow> Q va) \<Longrightarrow>
      j < unat (map_pages (p_memsz ph + (p_vaddr ph - page_of (p_vaddr ph)))) \<Longrightarrow>
      Q (page_of (page_of (p_vaddr ph)) + of_nat j * PAGE_SIZE)"
    "unat (map_pages (p_memsz ph + (p_vaddr ph - page_of (p_vaddr ph)))) \<le> 1024"
    "k < unat (p_memsz ph) \<Longrightarrow> unat (p_vaddr ph) + k < unat stop"
proof -
  let ?v = "page_of (p_vaddr ph)" and ?n = "unat (map_pages (p_memsz ph + (p_vaddr ph - page_of (p_vaddr ph))))"
  have sz62: "unat (p_memsz ph) \<le> 2 ^ 62" using sz(1) by simp
  have vv: "page_of ?v = ?v" by (simp add: page_of_aligned)
  note rg = seg_range[OF sz62 sz(2), of "p_vaddr ph"] and ar = map_accepts_range[OF acc, unfolded vv]
  have uv: "unat (p_vaddr ph) = unat ?v + unat (p_vaddr ph) mod 4096" by (simp add: unat_page_of)
  show "?n \<le> 1024" using rg(4) sz(1) mod_less_divisor[of 4096 "unat (p_vaddr ph)"] by linarith
  show "unat (p_vaddr ph) + k < unat stop" if "k < unat (p_memsz ph)" using that rg(3) ar(2) uv by linarith
  assume Q: "\<And>va. ?v \<le> va \<Longrightarrow> unat va < unat (p_vaddr ph) + unat (p_memsz ph) \<Longrightarrow> Q va" and j: "j < ?n"
  have u: "unat (?v + of_nat j * PAGE_SIZE) = unat ?v + j * 4096" using unat_range_page[OF ar(1), of j] j by simp
  have "j * 4096 + 4096 \<le> ?n * 4096" using mult_le_mono1[of "Suc j" ?n 4096] j by simp
  then have "unat ?v + j * 4096 < unat (p_vaddr ph) + unat (p_memsz ph)" using rg(4) uv by linarith
  then show "Q (page_of ?v + of_nat j * PAGE_SIZE)" unfolding vv using u by (intro Q) (simp_all add: word_le_nat_alt)
qed

context paging_arch
begin

lemma segment_image:
  assumes inv: "as_inv as" and wf: "pt_wf f st (page_table_root as)" and hh: "hhdm_ok f st"
    and ld: "load_segment ar bytes ph (as, st) = Some (Inr e, as', st')"
    and sz: "unat (p_memsz ph) \<le> 0x3FF000" "p_memsz ph \<noteq> 0" "p_filesz ph \<le> p_memsz ph"
    and user: "\<And>va. page_of (p_vaddr ph) \<le> va \<Longrightarrow> unat va < unat (p_vaddr ph) + unat (p_memsz ph) \<Longrightarrow> mappable f va"
    and k: "k < unat (p_memsz ph)"
  shows "\<exists>p. as_virt_to_phys as' (p_vaddr ph + of_nat k) = Some p
    \<and> ram st' (phys_to_virt st' p) = (if k < unat (p_filesz ph) then bytes ! (unat (p_offset ph) + k) else 0)"
proof -
  let ?v = "page_of (p_vaddr ph)" and ?sz = "p_memsz ph + (p_vaddr ph - page_of (p_vaddr ph))"
  have sz62: "unat (p_memsz ph) \<le> 2 ^ 62" using sz(1) by simp
  obtain slot stop phys st1 where s:
    "as_map ar as ?v ?sz (seg_flags (p_flags ph)) st = Some (True, as', st1)" "map_accepts as ?v ?sz slot stop"
    "as' = as\<lparr>regions := (regions as)[slot := Some (eager_region ?v stop phys (seg_flags (p_flags ph)))]\<rparr>"
    "slot < length (regions as)" "hhdm_off st' = hhdm_off st1"
    "\<And>k. k < 2 ^ 64 \<Longrightarrow> ram st' (phys_to_virt st1 (phys + (p_vaddr ph - ?v)) + of_nat k)
       = (if k < unat (p_filesz ph) then bytes ! (unat (p_offset ph) + k)
          else ram st1 (phys_to_virt st1 (phys + (p_vaddr ph - ?v)) + of_nat k))"
    by (rule load_segment_success[OF inv ld sz62 sz(2)]) (rule that)
  have vv: "page_of ?v = ?v" by (simp add: page_of_aligned)
  note pages = segment_pages[OF sz(1,2) s(2)]
  have pg: "mappable f (page_of ?v + of_nat j * PAGE_SIZE)" if "j < unat (map_pages ?sz)" for j
    by (rule pages(1)[where Q = "mappable f", OF user that])
  obtain ok as2 st2 where m: "as_map ar as ?v ?sz (seg_flags (p_flags ph)) st = Some (ok, as2, st2)"
    "if ok then (\<exists>phys. as2 = as\<lparr>regions := (regions as)[slot := Some (eager_region (page_of ?v) stop phys (seg_flags (p_flags ph)))]\<rparr>
              \<and> mapped_range f leaf_of (page_of ?v) stop phys (seg_flags (p_flags ph)) as2 st2)
            \<and> (\<forall>va. mappable f va \<longrightarrow> \<not> (page_of ?v \<le> va \<and> va < stop) \<longrightarrow>
                 pt_leaf f st2 (page_table_root as) va = pt_leaf f st (page_table_root as) va)
       else as2 = as \<and> (\<forall>va. mappable f va \<longrightarrow>
                 pt_leaf f st2 (page_table_root as) va = pt_leaf f st (page_table_root as) va
                 \<or> (page_of ?v \<le> va \<and> va < stop \<and> pt_leaf f st2 (page_table_root as) va = 0))"
    using as_map_ok[OF inv wf hh seg_flags_wx(2) s(2) pages(2) pg] by blast
  have eqs: "ok" "as2 = as'" "st2 = st1" using m(1) s(1) by auto
  obtain phys' where p': "as' = as\<lparr>regions := (regions as)[slot := Some (eager_region ?v stop phys' (seg_flags (p_flags ph)))]\<rparr>"
    "mapped_range f leaf_of ?v stop phys' (seg_flags (p_flags ph)) as' st1" using m(2) eqs vv by auto
  have "regions as' ! slot = Some (eager_region ?v stop phys' (seg_flags (p_flags ph)))" using p'(1) s(4) by simp
  moreover have "regions as' ! slot = Some (eager_region ?v stop phys (seg_flags (p_flags ph)))" using s(3,4) by simp
  ultimately have pp: "phys' = phys" by (simp add: eager_region_def)
  let ?va = "p_vaddr ph + of_nat k"
  have uv: "unat (p_vaddr ph) = unat ?v + unat (p_vaddr ph) mod 4096" by (simp add: unat_page_of)
  have top: "unat (p_vaddr ph) + k < unat stop" by (rule pages(3)[OF k])
  then have uva: "unat ?va = unat (p_vaddr ph) + k"
    using less_trans[OF top unat_lt_usize] k sz(1) by (subst unat_add_nowrap) (simp_all add: unat_of_nat)
  have r: "?v \<le> ?va" "?va < stop" using uva uv top by (simp_all add: word_le_nat_alt word_less_nat_alt)
  then have v: "as_virt_to_phys as' ?va = Some (phys + (?va - ?v))" "ram st1 (phys_to_virt st1 (phys + (?va - ?v))) = 0"
    using p'(2) pp by (auto simp: mapped_range_def)
  have e: "phys_to_virt st1 (phys + (?va - ?v)) = phys_to_virt st1 (phys + (p_vaddr ph - ?v)) + of_nat k"
    "phys_to_virt st' (phys + (?va - ?v)) = phys_to_virt st1 (phys + (p_vaddr ph - ?v)) + of_nat k"
    using s(5) by (simp_all add: phys_to_virt_def algebra_simps)
  have "k < 2 ^ 64" using k sz(1) by simp
  then show ?thesis using v e s(6) by auto
qed

lemma segment_returns:
  assumes inv: "as_inv as" and wf: "pt_wf f st (page_table_root as)" and hh: "hhdm_ok f st"
    and sz: "unat (p_memsz ph) \<le> 0x3FF000" "p_memsz ph \<noteq> 0"
    and user: "\<And>va. page_of (p_vaddr ph) \<le> va \<Longrightarrow> unat va < unat (p_vaddr ph) + unat (p_memsz ph) \<Longrightarrow> mappable f va"
  shows "\<exists>r as' st'. load_segment ar bytes ph (as, st) = Some (r, as', st') \<and> as_inv as'"
proof -
  let ?v = "page_of (p_vaddr ph)" and ?sz = "p_memsz ph + (p_vaddr ph - page_of (p_vaddr ph))" and ?fl = "seg_flags (p_flags ph)"
  have "\<exists>ok as1 st1. as_map ar as ?v ?sz ?fl st = Some (ok, as1, st1)"
  proof (cases "\<exists>slot stop. map_accepts as ?v ?sz slot stop")
    case True
    then obtain slot stop where acc: "map_accepts as ?v ?sz slot stop" by blast
    have pg: "mappable f (page_of ?v + of_nat j * PAGE_SIZE)" if "j < unat (map_pages ?sz)" for j
      by (rule segment_pages(1)[where Q = "mappable f", OF sz(1,2) acc user that])
    show ?thesis
      using as_map_ok[OF inv wf hh seg_flags_wx(2) acc segment_pages(2)[OF sz(1,2) acc] pg] by blast
  next
    case False
    then show ?thesis using as_map_rejected[of as ?v ?sz ar ?fl st] by auto
  qed
  then obtain ok as1 st1 where m: "as_map ar as ?v ?sz ?fl st = Some (ok, as1, st1)" by blast
  have inv1: "as_inv as1" by (rule as_map_inv[OF inv m])
  show ?thesis
  proof (cases "as_find as1 ?v")
    case None
    then show ?thesis using m inv inv1 unfolding load_segment_def Let_def align_page
      by (cases "checked_add (p_offset ph) (p_filesz ph)") auto
  next
    case (Some i)
    then obtain vma where "regions as1 ! i = Some vma" using as_find_Some[OF Some] by blast
    then show ?thesis using m inv inv1 Some unfolding load_segment_def Let_def align_page
      by (cases "checked_add (p_offset ph) (p_filesz ph)"; cases "checked_add (p_vaddr ph) (p_memsz ph)") auto
  qed
qed

end


text \<open>
  C36. The file size of a segment is never compared with its memory size. When the file size is larger
  than what the segment's pages hold, a successful load has written the bytes of the file into the
  physical memory behind the segment's block, up to the file size.
\<close>

theorem elf_oversized_segment_overruns:
  assumes "as_inv as" "load_segment ar bytes ph (as, st) = Some (Inr e, as', st')"
    "unat (p_memsz ph) \<le> 2 ^ 62" "p_memsz ph \<noteq> 0"
    "unat (map_pages (p_memsz ph + (p_vaddr ph - page_of (p_vaddr ph)))) * 4096 \<le> unat (p_vaddr ph - page_of (p_vaddr ph)) + d"
    "d < unat (p_filesz ph)"
  shows "\<exists>i rg. regions as' ! i = Some rg \<and> vma_start rg = page_of (p_vaddr ph)
    \<and> vma_end rg - vma_start rg = map_pages (p_memsz ph + (p_vaddr ph - page_of (p_vaddr ph))) * PAGE_SIZE
    \<and> ram st' (phys_to_virt st' (vma_phys rg + (p_vaddr ph - page_of (p_vaddr ph)) + of_nat d)) = bytes ! (unat (p_offset ph) + d)"
proof -
  let ?v = "page_of (p_vaddr ph)" and ?sz = "p_memsz ph + (p_vaddr ph - page_of (p_vaddr ph))"
  obtain slot stop phys st1 where s: "map_accepts as ?v ?sz slot stop"
    "as' = as\<lparr>regions := (regions as)[slot := Some (eager_region ?v stop phys (seg_flags (p_flags ph)))]\<rparr>"
    "slot < length (regions as)" "hhdm_off st' = hhdm_off st1"
    "\<And>k. k < 2 ^ 64 \<Longrightarrow> ram st' (phys_to_virt st1 (phys + (p_vaddr ph - ?v)) + of_nat k)
       = (if k < unat (p_filesz ph) then bytes ! (unat (p_offset ph) + k)
          else ram st1 (phys_to_virt st1 (phys + (p_vaddr ph - ?v)) + of_nat k))"
    by (rule load_segment_success[OF assms(1-4)]) (rule that)
  have stop: "stop = ?v + map_pages ?sz * PAGE_SIZE"
    using s(1) by (auto simp: map_accepts_def checked_add_def page_of_aligned split: if_splits)
  have "d < 2 ^ 64" using less_trans[OF assms(6) unat_lt_usize] by simp
  from s(5)[OF this] have "ram st' (phys_to_virt st' (phys + (p_vaddr ph - ?v) + of_nat d)) = bytes ! (unat (p_offset ph) + d)"
    using assms(6) s(4) by (simp add: phys_to_virt_def algebra_simps)
  then show ?thesis using s(2,3) stop by (intro exI[of _ slot]) (simp add: eager_region_def)
qed

subsection \<open>Witnesses\<close>

definition demo_phdr :: "u64 \<Rightarrow> u64 \<Rightarrow> phdr" where
  "demo_phdr filesz memsz = \<lparr>p_type = PT_LOAD, p_flags = 6, p_offset = 0, p_vaddr = 0x400000, p_filesz = filesz, p_memsz = memsz\<rparr>"

lemma demo_page_of: "page_of 0x400000 = 0x400000"
  by (rule page_of_aligned) (simp add: page_aligned_def)


text \<open>One page of a machine with four free pages, and the three tables for it.\<close>

definition demo_mm1 :: mm_state where
  "demo_mm1 = demo_mm\<lparr>frames := \<lparr>free_lists = (replicate MAX_ORDER None)[0 := Some 0x5000, 1 := Some 0x6000], free_pages = 3, total_pages = 4\<rparr>\<rparr>"

lemma demo_page: "mm_alloc 0 demo_mm = Some (Some 0x4000, demo_mm1)"
  by (simp add: mm_alloc_def buddy_alloc_def demo_mm_def demo_mm1_def demo_frames_def MAX_ORDER_def numeral_eq_Suc PAGE_SIZE_def)

lemma demo_page_mapped:
  "case map_page x86_paging 0x1000 0x400000 0x4000 7
    (demo_mm1\<lparr>ram := fill_bytes (ram demo_mm1) (phys_to_virt demo_mm1 0x4000) 0 (1 * PAGE_SIZE)\<rparr>) of
     Some (ok, st) \<Rightarrow> ok | None \<Rightarrow> False"
  by code_simp

lemma demo_segment_loads: "\<exists>e as' st'. load_segment x86_paging (replicate 5000 0xAA) (demo_phdr 5000 0x1000) (as_new 0x1000, demo_mm) = Some (Inr e, as', st')"
proof -
  obtain st3 where m: "map_page x86_paging 0x1000 0x400000 0x4000 7
      (demo_mm1\<lparr>ram := fill_bytes (ram demo_mm1) (phys_to_virt demo_mm1 0x4000) 0 (1 * PAGE_SIZE)\<rparr>) = Some (True, st3)"
    using demo_page_mapped by (auto split: option.splits prod.splits)
  have o: "pages_to_order 1 = Some 0" by (subst pages_to_order_def, subst order_loop.simps) simp
  have fl: "seg_flags 6 = 7"
    by (simp add: seg_flags_def ELF_PF_W_def ELF_PF_X_def PF_PRESENT_def PF_USER_def PF_WRITABLE_def)
  define as1 where "as1 = (as_new 0x1000)\<lparr>regions := (replicate 8 None)[0 := Some (eager_region 0x400000 0x401000 0x4000 7)]\<rparr>"
  have mp: "as_map x86_paging (as_new 0x1000) 0x400000 0x1000 7 demo_mm = Some (True, as1, st3)"
    unfolding as_map_accepted[OF demo_accepts(1)] demo_accepts(2) o demo_page_of
    using demo_page m by (simp add: as1_def as_new_def PAGE_SIZE_def)
  have "as_inv as1" by (rule as_map_inv[OF as_new_inv mp])
  then have f: "as_find as1 0x400000 = Some 0"
    by (rule as_find_unique[where r = "eager_region 0x400000 0x401000 0x4000 7"])
       (simp_all add: as1_def as_new_def in_vma_def eager_region_def)
  show ?thesis
    unfolding load_segment_def Let_def align_page
    using mp f by (simp add: demo_phdr_def demo_page_of fl checked_add_def) (simp add: as1_def)
qed

theorem elf_oversized_segment_overruns_witness:
  "\<exists>e as' st' i rg. load_segment x86_paging (replicate 5000 0xAA) (demo_phdr 5000 0x1000) (as_new 0x1000, demo_mm) = Some (Inr e, as', st')
     \<and> regions as' ! i = Some rg \<and> vma_end rg - vma_start rg = 0x1000 \<and> ram st' (phys_to_virt st' (vma_phys rg + 0x1000)) = 0xAA"
proof -
  let ?ph = "demo_phdr 5000 0x1000"
  obtain e as' st' where l: "load_segment x86_paging (replicate 5000 0xAA) ?ph (as_new 0x1000, demo_mm) = Some (Inr e, as', st')"
    using demo_segment_loads by blast
  have d: "p_memsz ?ph + (p_vaddr ?ph - page_of (p_vaddr ?ph)) = 0x1000" "p_vaddr ?ph - page_of (p_vaddr ?ph) = 0"
    by (simp_all add: demo_phdr_def demo_page_of)
  from elf_oversized_segment_overruns[OF as_new_inv l, of 4096]
  obtain i rg where "regions as' ! i = Some rg" "vma_end rg - vma_start rg = 1 * PAGE_SIZE"
    "ram st' (phys_to_virt st' (vma_phys rg + 0 + of_nat 4096)) = replicate 5000 0xAA ! (0 + 4096)"
    unfolding d using demo_accepts(2) by (auto simp: demo_phdr_def)
  then show ?thesis using l by (auto simp: PAGE_SIZE_def)
qed

end
