(* ===== verification/Vfs_State.thy ===== *)
theory Vfs_State
  imports Ipc
begin

text \<open>
  State of the file server (\<open>src/servers/vfs/src/lib.rs\<close>): the pool of writable files, pipes, event and
  timer descriptors, the descriptor tables of the processes, and the helpers the handlers share. Sizes,
  positions and descriptor numbers are natural numbers; \<open>u64\<close> counters keep their width.
\<close>

text \<open>A byte string literal.\<close>

definition str :: "string \<Rightarrow> u8 list" where
  "str s = map of_char s"

definition nl :: string where "nl = [CHR 0x0A]"
definition tab :: string where "tab = [CHR 0x09]"

subsection \<open>Messages\<close>

fun le_word :: "u8 list \<Rightarrow> u64" where
  "le_word [] = 0"
| "le_word (b # bs) = ucast b OR push_bit 8 (le_word bs)"

definition to_le_bytes :: "u64 \<Rightarrow> u8 list" where
  "to_le_bytes v = map (byte_of v) [0..<8]"

definition vfs_arg :: "message \<Rightarrow> nat \<Rightarrow> u64" where
  "vfs_arg msg n = le_word (take 8 (drop (n * 8) (msg_data msg)))"

definition make_reply :: "int \<Rightarrow> message" where
  "make_reply v = message_empty\<lparr>msg_data := to_le_bytes (of_int v) @ drop 8 (msg_data message_empty)\<rparr>"

definition ok_reply :: message where "ok_reply = make_reply 0"
definition err_reply :: "int \<Rightarrow> message" where "err_reply e = make_reply e"
definition val_reply :: "u64 \<Rightarrow> message" where "val_reply v = make_reply (sint v)"

subsection \<open>Writable files\<close>

definition MAX_TMP_FILES :: nat where "MAX_TMP_FILES = 32"
definition MAX_TMP_SIZE :: nat where "MAX_TMP_SIZE = 4096"
definition MAX_TMP_PATH :: nat where "MAX_TMP_PATH = 64"

record tmp_entry =
  t_path :: "u8 list"
  t_path_len :: nat
  t_data :: "u8 list"
  t_len :: nat
  t_in_use :: bool
  t_is_dir :: bool

definition tmp_empty :: tmp_entry where
  "tmp_empty = \<lparr>t_path = replicate MAX_TMP_PATH 0, t_path_len = 0, t_data = replicate MAX_TMP_SIZE 0, t_len = 0,
     t_in_use = False, t_is_dir = False\<rparr>"

text \<open>\<open>dst[off..off + src.len()].copy_from_slice(src)\<close>.\<close>

definition copy_at :: "nat \<Rightarrow> 'a list \<Rightarrow> 'a list \<Rightarrow> 'a list" where
  "copy_at off src dst = take off dst @ src @ drop (off + length src) dst"

subsection \<open>Vnodes\<close>

text \<open>
  A slice of read-only data: the contents of an entry of the static file table, a directory name, or a
  range of the initrd.
\<close>

datatype ram_ref = RamIdx nat | DirIdx nat | TmpDir | MemSlice usize nat

datatype vnode_kind = VNone | RamFile ram_ref nat | DevNull | DevZero | Pipe nat bool | TmpFile nat nat bool
  | EventFd nat | TimerFd nat | DevUrandom | DevStdio nat | DevFb nat

subsection \<open>Pipes\<close>

definition PIPE_RING_SIZE :: nat where "PIPE_RING_SIZE = 4096"
definition MAX_PIPES :: nat where "MAX_PIPES = 16"

record pipe_ring =
  p_buf :: "u8 list"
  read_pos :: nat
  write_pos :: nat
  p_count :: nat
  read_open :: bool
  write_open :: bool

definition pipe_new :: pipe_ring where
  "pipe_new = \<lparr>p_buf = replicate PIPE_RING_SIZE 0, read_pos = 0, write_pos = 0, p_count = 0, read_open = False, write_open = False\<rparr>"

definition pipe_put :: "u8 \<Rightarrow> pipe_ring \<Rightarrow> bool \<times> pipe_ring" where
  "pipe_put b r =
     (if p_count r \<ge> PIPE_RING_SIZE then (False, r)
      else (True, r\<lparr>p_buf := (p_buf r)[write_pos r := b], write_pos := (write_pos r + 1) mod PIPE_RING_SIZE,
                    p_count := p_count r + 1\<rparr>))"

definition pipe_get :: "pipe_ring \<Rightarrow> u8 option \<times> pipe_ring" where
  "pipe_get r =
     (if p_count r = 0 then (None, r)
      else (Some (p_buf r ! read_pos r),
            r\<lparr>read_pos := (read_pos r + 1) mod PIPE_RING_SIZE, p_count := p_count r - 1\<rparr>))"

subsection \<open>Event and timer descriptors, random bytes\<close>

definition MAX_EVENTFDS :: nat where "MAX_EVENTFDS = 16"
definition MAX_TIMERFDS :: nat where "MAX_TIMERFDS = 16"
definition u64_MAX :: u64 where "u64_MAX = 0xFFFFFFFFFFFFFFFF"

definition lfsr_next :: "u64 \<Rightarrow> u64 \<Rightarrow> u8 \<times> u64" where
  "lfsr_next now state =
     (let s1 = state XOR (now * 0x9e3779b97f4a7c15);
          lsb = s1 AND 1;
          s2 = drop_bit 1 s1;
          s3 = (if lsb \<noteq> 0 then s2 XOR 0xB400000000000000 else s2)
      in (ucast (s3 AND 0xFF), s3))"

record timerfd =
  armed :: bool
  deadline_ticks :: u64
  interval_ticks :: u64
  expirations :: u64

definition timerfd_free :: timerfd where
  "timerfd_free = \<lparr>armed = False, deadline_ticks = 0, interval_ticks = 0, expirations = 0\<rparr>"

definition timerfd_is_free :: "timerfd \<Rightarrow> bool" where
  "timerfd_is_free e \<longleftrightarrow> \<not> armed e \<and> deadline_ticks e = 0 \<and> expirations e = 0"

subsection \<open>Descriptor tables\<close>

definition MAX_PROCS :: nat where "MAX_PROCS = 64"
definition MAX_FDS :: nat where "MAX_FDS = 64"
definition O_CLOEXEC :: u32 where "O_CLOEXEC = 0x80000"

record fd_entry =
  vkind :: vnode_kind
  fd_flags :: u32
  fd_in_use :: bool

definition fd_empty :: fd_entry where
  "fd_empty = \<lparr>vkind = VNone, fd_flags = 0, fd_in_use = False\<rparr>"

record fd_table =
  tbl_pid :: u32
  fds :: "fd_entry list"
  tbl_in_use :: bool

definition fd_table_empty :: fd_table where
  "fd_table_empty = \<lparr>tbl_pid = 0, fds = replicate MAX_FDS fd_empty, tbl_in_use = False\<rparr>"

definition alloc_fd :: "fd_table \<Rightarrow> nat option" where
  "alloc_fd t = position (\<lambda>f. \<not> fd_in_use f) (fds t)"

text \<open>
  The server's statics, and the memory (\<open>vmm\<close>) that the raw pointers of a request address.
\<close>

record vfs =
  tmp_files :: "tmp_entry list"
  pipe_rings :: "pipe_ring list"
  eventfds :: "u64 list"
  lfsr_state :: u64
  timers :: "timerfd list"
  fd_tables :: "fd_table list"
  initrd_base :: usize
  initrd_size :: usize
  fb_base :: u64
  fb_width :: u32
  fb_height :: u32
  fb_pitch :: u32
  vfs_port :: u32
  vmm :: mm_state

definition vfs_statics :: "mm_state \<Rightarrow> vfs" where
  "vfs_statics m = \<lparr>tmp_files = replicate MAX_TMP_FILES tmp_empty, pipe_rings = replicate MAX_PIPES pipe_new,
     eventfds = replicate MAX_EVENTFDS u64_MAX, lfsr_state = 0xdeadbeefcafebabe, timers = replicate MAX_TIMERFDS timerfd_free,
     fd_tables = replicate MAX_PROCS fd_table_empty, initrd_base = 0, initrd_size = 0, fb_base = 0, fb_width = 0, fb_height = 0, fb_pitch = 0,
     vfs_port = u32_MAX, vmm = m\<rparr>"

definition set_framebuffer :: "u64 \<Rightarrow> u32 \<Rightarrow> u32 \<Rightarrow> u32 \<Rightarrow> vfs \<Rightarrow> vfs" where
  "set_framebuffer b w h p v = v\<lparr>fb_base := b, fb_width := w, fb_height := h, fb_pitch := p\<rparr>"

definition set_initrd :: "usize \<Rightarrow> usize \<Rightarrow> vfs \<Rightarrow> vfs" where
  "set_initrd b n v = v\<lparr>initrd_base := b, initrd_size := n\<rparr>"

definition put_ram :: "memory \<Rightarrow> vfs \<Rightarrow> vfs" where
  "put_ram r v = v\<lparr>vmm := (vmm v)\<lparr>ram := r\<rparr>\<rparr>"

abbreviation vram :: "vfs \<Rightarrow> memory" where
  "vram v \<equiv> ram (vmm v)"

text \<open>What the handlers ask the scheduler: the tick counter and the identity of the running process.\<close>

record vfs_env =
  now :: u64
  cur_pid :: u32
  cur_ppid :: u32
  cur_pgid :: u32

definition sched_env :: "nat \<Rightarrow> sched \<Rightarrow> vfs_env" where
  "sched_env cpu s = \<lparr>now = timer_ticks s, cur_pid = current_pid cpu s,
     cur_ppid = (case current_task cpu s of None \<Rightarrow> 0 | Some t \<Rightarrow> ppid t),
     cur_pgid = (case current_task cpu s of None \<Rightarrow> 0 | Some t \<Rightarrow> pgid t)\<rparr>"

text \<open>Copies between the server's buffers and memory.\<close>

definition write_slice :: "memory \<Rightarrow> usize \<Rightarrow> u8 list \<Rightarrow> memory" where
  "write_slice m p bs = (\<lambda>x. if unat (x - p) < length bs then bs ! unat (x - p) else m x)"

definition read_slice :: "memory \<Rightarrow> usize \<Rightarrow> nat \<Rightarrow> u8 list" where
  "read_slice m p n = map (\<lambda>i. m (p + of_nat i)) [0..<n]"

definition vfs_server_init :: "u32 \<Rightarrow> port_table \<Rightarrow> vfs \<Rightarrow> port option \<times> port_table \<times> vfs" where
  "vfs_server_init owner pt v = (case port_create owner pt of
       (None, pt') \<Rightarrow> (None, pt', v)
     | (Some p, pt') \<Rightarrow>
         (let v1 = v\<lparr>vfs_port := p\<rparr>
          in (Some p, pt', (case position (\<lambda>t. \<not> tbl_in_use t) (fd_tables v1) of
                None \<Rightarrow> v1
              | Some i \<Rightarrow>
                  (let t = fd_tables v1 ! i;
                       e = \<lparr>vkind = DevNull, fd_flags = 0, fd_in_use = True\<rparr>
                   in v1\<lparr>fd_tables := (fd_tables v1)[i :=
                        t\<lparr>tbl_in_use := True, tbl_pid := 1, fds := (fds t)[0 := e, 1 := e, 2 := e]\<rparr>]\<rparr>)))))"

subsection \<open>Finding tables and descriptors\<close>

definition tbl_idx :: "u32 \<Rightarrow> vfs \<Rightarrow> nat option" where
  "tbl_idx p v = position (\<lambda>t. tbl_in_use t \<and> tbl_pid t = p) (fd_tables v)"

definition find_tbl :: "u32 \<Rightarrow> vfs \<Rightarrow> nat option" where
  "find_tbl p v = tbl_idx p v"

definition get_or_create :: "u32 \<Rightarrow> vfs \<Rightarrow> nat option \<times> vfs" where
  "get_or_create p v = (case tbl_idx p v of
       Some i \<Rightarrow> (Some i, v)
     | None \<Rightarrow> (case position (\<lambda>t. \<not> tbl_in_use t) (fd_tables v) of
         None \<Rightarrow> (None, v)
       | Some i \<Rightarrow> (Some i, v\<lparr>fd_tables := (fd_tables v)[i := fd_table_empty\<lparr>tbl_in_use := True, tbl_pid := p\<rparr>]\<rparr>)))"

text \<open>The entry of an open descriptor, and an update of it in place.\<close>

definition open_fd :: "u32 \<Rightarrow> nat \<Rightarrow> vfs \<Rightarrow> (nat \<times> fd_entry) option" where
  "open_fd p fd v = (case find_tbl p v of
       None \<Rightarrow> None
     | Some i \<Rightarrow>
         (if fd \<ge> MAX_FDS \<or> \<not> fd_in_use (fds (fd_tables v ! i) ! fd) then None
          else Some (i, fds (fd_tables v ! i) ! fd)))"

definition put_fd :: "nat \<Rightarrow> nat \<Rightarrow> fd_entry \<Rightarrow> vfs \<Rightarrow> vfs" where
  "put_fd i fd e v = v\<lparr>fd_tables := (fd_tables v)[i := (fd_tables v ! i)\<lparr>fds := (fds (fd_tables v ! i))[fd := e]\<rparr>]\<rparr>"

definition put_kind :: "nat \<Rightarrow> nat \<Rightarrow> vnode_kind \<Rightarrow> vfs \<Rightarrow> vfs" where
  "put_kind i fd k v = put_fd i fd ((fds (fd_tables v ! i) ! fd)\<lparr>vkind := k\<rparr>) v"

subsection \<open>Paths\<close>

fun cstr_loop :: "memory \<Rightarrow> usize \<Rightarrow> nat \<Rightarrow> nat \<Rightarrow> u8 list option" where
  "cstr_loop m ptr i 0 = None"
| "cstr_loop m ptr i (Suc n) =
     (let b = m (ptr + of_nat i)
      in if b = 0 then Some [] else map_option ((#) b) (cstr_loop m ptr (Suc i) n))"

text \<open>The path without its terminator; \<open>None\<close> for a null pointer or when 256 bytes hold no terminator.\<close>

definition read_cstr_raw :: "memory \<Rightarrow> usize \<Rightarrow> u8 list option" where
  "read_cstr_raw m ptr = (if ptr = 0 then None else cstr_loop m ptr 0 256)"

definition starts_with :: "'a list \<Rightarrow> 'a list \<Rightarrow> bool" where
  "starts_with p xs \<longleftrightarrow> take (length p) xs = p"

definition ends_with :: "'a list \<Rightarrow> 'a list \<Rightarrow> bool" where
  "ends_with s xs \<longleftrightarrow> length s \<le> length xs \<and> drop (length xs - length s) xs = s"

definition is_tmp_path :: "u8 list \<Rightarrow> bool" where
  "is_tmp_path path \<longleftrightarrow> path = str ''/tmp'' \<or> starts_with (str ''/tmp/'') path"

text \<open>The test the handlers make on an entry of the pool; the path of an entry never fills its buffer.\<close>

definition has_path :: "u8 list \<Rightarrow> tmp_entry \<Rightarrow> bool" where
  "has_path path e \<longleftrightarrow> t_in_use e \<and> t_path_len e = length path \<and> take (length path) (t_path e) = path"

definition is_tmp_file :: "u8 list \<Rightarrow> tmp_entry \<Rightarrow> bool" where
  "is_tmp_file path e \<longleftrightarrow> has_path path e \<and> \<not> t_is_dir e"

definition is_tmp_dir :: "u8 list \<Rightarrow> tmp_entry \<Rightarrow> bool" where
  "is_tmp_dir path e \<longleftrightarrow> has_path path e \<and> t_is_dir e"

definition set_path :: "u8 list \<Rightarrow> tmp_entry \<Rightarrow> tmp_entry" where
  "set_path path e =
     (let copy_len = min (length path) (MAX_TMP_PATH - 1)
      in e\<lparr>t_path := copy_at 0 (take copy_len path) (t_path e), t_path_len := copy_len\<rparr>)"

definition new_tmp :: "u8 list \<Rightarrow> bool \<Rightarrow> tmp_entry" where
  "new_tmp path dir = set_path path (tmp_empty\<lparr>t_in_use := True, t_is_dir := dir\<rparr>)"

definition find_free_tmp :: "vfs \<Rightarrow> nat option" where
  "find_free_tmp v = position (\<lambda>e. \<not> t_in_use e) (tmp_files v)"

definition put_tmp :: "nat \<Rightarrow> tmp_entry \<Rightarrow> vfs \<Rightarrow> vfs" where
  "put_tmp i e v = v\<lparr>tmp_files := (tmp_files v)[i := e]\<rparr>"

end
