(* ===== verification/Vfs_Files.thy ===== *)
theory Vfs_Files
  imports Vfs_State
begin

text \<open>
  The read-only parts of the file tree: the static file table, the files of \<open>/proc\<close> that are generated when
  they are opened, and the CPIO archive of the initrd.
\<close>

subsection \<open>Static files\<close>

definition RAMFS :: "(u8 list \<times> u8 list) list" where
  \<open>RAMFS = map (\<lambda>(p, d). (str p, str d)) [
     (''/dev/null'', ''''), (''/dev/zero'', ''''), (''/dev/urandom'', ''''), (''/dev/random'', ''''),
     (''/dev/stdin'', ''''), (''/dev/stdout'', ''''), (''/dev/stderr'', ''''), (''/dev/tty'', ''''),
     (''/etc/motd'', ''Welcome to Cyanos!'' @ nl @ ''Type 'help' for available commands.'' @ nl),
     (''/etc/passwd'', ''root:x:0:0:root:/root:/bin/sh'' @ nl @ ''daemon:x:1:1:daemon:/:/bin/false'' @ nl),
     (''/etc/group'', ''root:x:0:root'' @ nl @ ''daemon:x:1:'' @ nl),
     (''/etc/hostname'', ''cyanos'' @ nl),
     (''/etc/hosts'', ''127.0.0.1'' @ tab @ ''localhost'' @ nl @ ''::1'' @ tab @ tab @ ''localhost'' @ nl
        @ ''127.0.0.1'' @ tab @ ''cyanos'' @ nl),
     (''/etc/resolv.conf'', ''nameserver 8.8.8.8'' @ nl @ ''nameserver 8.8.4.4'' @ nl),
     (''/etc/services'', ''http'' @ tab @ ''80/tcp'' @ nl @ ''https'' @ tab @ ''443/tcp'' @ nl @ ''ssh'' @ tab @ ''22/tcp'' @ nl
        @ ''ftp'' @ tab @ ''21/tcp'' @ nl),
     (''/etc/protocols'', ''ip'' @ tab @ ''0'' @ tab @ ''IP'' @ nl @ ''tcp'' @ tab @ ''6'' @ tab @ ''TCP'' @ nl
        @ ''udp'' @ tab @ ''17'' @ tab @ ''UDP'' @ nl @ ''icmp'' @ tab @ ''1'' @ tab @ ''ICMP'' @ nl),
     (''/etc/nsswitch.conf'', ''hosts: files dns'' @ nl @ ''passwd: files'' @ nl @ ''group: files'' @ nl),
     (''/etc/os-release'', ''NAME="Cyanos"'' @ nl @ ''VERSION="1.0"'' @ nl @ ''ID=cyanos'' @ nl @ ''PRETTY_NAME="Cyanos 1.0"'' @ nl),
     (''/proc/version'', ''Linux version 6.0.0-cyanos (Cyanos Project) (gcc 13.0)'' @ nl),
     (''/proc/cpuinfo'', ''processor'' @ tab @ '': 0'' @ nl @ ''model name'' @ tab @ '': Cyanos Virtual CPU'' @ nl
        @ ''cpu MHz'' @ tab @ tab @ '': 1000.000'' @ nl @ ''cache size'' @ tab @ '': 4096 KB'' @ nl
        @ ''flags'' @ tab @ tab @ '': fpu vme de pse tsc msr pae mce'' @ nl),
     (''/proc/filesystems'', ''nodev'' @ tab @ ''tmpfs'' @ nl @ ''nodev'' @ tab @ ''ramfs'' @ nl @ ''nodev'' @ tab @ ''procfs'' @ nl
        @ tab @ ''ext2'' @ nl),
     (''/proc/mounts'', ''proc /proc procfs rw 0 0'' @ nl @ ''tmpfs /tmp tmpfs rw 0 0'' @ nl),
     (''/proc/net/dev'', ''Inter-|   Receive                                       |  Transmit'' @ nl
        @ ''face |bytes packets errs drop fifo frame compressed multicast|bytes packets errs drop fifo colls carrier compressed'' @ nl
        @ ''lo:      0       0    0    0    0     0          0         0       0       0    0    0    0     0       0          0'' @ nl),
     (''/proc/net/if_inet6'', ''''),
     (''/proc/net/fib_trie'', ''Main:'' @ nl @ ''  +-- 0.0.0.0/0'' @ nl),
     (''/proc/sys/kernel/hostname'', ''cyanos'' @ nl),
     (''/proc/sys/kernel/ostype'', ''Linux'' @ nl),
     (''/proc/sys/kernel/osrelease'', ''6.0.0-cyanos'' @ nl),
     (''/proc/sys/vm/overcommit_memory'', ''0'' @ nl)]\<close>

definition RAMFS_DIRS :: "u8 list list" where
  "RAMFS_DIRS = map str [''/'', ''/etc'', ''/dev'', ''/proc'', ''/bin'', ''/tmp'', ''/home'', ''/root'', ''/proc/net'',
     ''/proc/sys'', ''/proc/sys/kernel'', ''/proc/sys/vm'']"

definition ram_bytes :: "vfs \<Rightarrow> ram_ref \<Rightarrow> u8 list" where
  "ram_bytes v r = (case r of
       RamIdx i \<Rightarrow> snd (RAMFS ! i)
     | DirIdx i \<Rightarrow> RAMFS_DIRS ! i
     | TmpDir \<Rightarrow> str ''/tmp''
     | MemSlice a n \<Rightarrow> read_slice (vram v) a n)"

definition get_file_data :: "usize \<Rightarrow> vfs \<Rightarrow> (ram_ref \<times> nat) option" where
  "get_file_data ptr v = (case read_cstr_raw (vram v) ptr of
       None \<Rightarrow> None
     | Some path \<Rightarrow> map_option (\<lambda>i. (RamIdx i, length (snd (RAMFS ! i)))) (position (\<lambda>e. path = fst e) RAMFS))"

definition get_file_data_by_path :: "u8 list \<Rightarrow> (ram_ref \<times> nat) option" where
  "get_file_data_by_path path =
     map_option (\<lambda>i. (RamIdx i, length (snd (RAMFS ! i)))) (position (\<lambda>e. fst e = path) RAMFS)"

definition is_directory :: "usize \<Rightarrow> vfs \<Rightarrow> bool" where
  "is_directory ptr v = (case read_cstr_raw (vram v) ptr of
       None \<Rightarrow> False
     | Some path \<Rightarrow> path \<in> set RAMFS_DIRS \<or> list_ex (is_tmp_dir path) (tmp_files v))"

subsection \<open>Generated files\<close>

definition TMP_BUF_SIZE :: nat where "TMP_BUF_SIZE = 512"

text \<open>Decimal digits, least significant first; no digit for zero.\<close>

fun digits_rev :: "nat \<Rightarrow> u8 list" where
  "digits_rev n = (if n = 0 then [] else (of_char CHR ''0'' + of_nat (n mod 10)) # digits_rev (n div 10))"

declare digits_rev.simps [simp del]

definition decimal :: "nat \<Rightarrow> u8 list" where
  "decimal n = (if n = 0 then str ''0'' else rev (digits_rev n))"

text \<open>The buffer is the list of the bytes written so far; what does not fit is dropped.\<close>

definition write_u32 :: "u8 list \<Rightarrow> u32 \<Rightarrow> u8 list" where
  "write_u32 w n = foldl (\<lambda>out d. if length out < TMP_BUF_SIZE then out @ [d] else out) w (decimal (unat n))"

definition write_lit :: "u8 list \<Rightarrow> string \<Rightarrow> u8 list" where
  "write_lit w s =
     (let copy = min (length s) (TMP_BUF_SIZE - length w)
      in w @ take copy (str s))"

datatype piece = Lit string | Num u32

text \<open>A run of \<open>write_lit\<close> and \<open>write_u32\<close> calls.\<close>

fun write_pieces :: "u8 list \<Rightarrow> piece list \<Rightarrow> u8 list" where
  "write_pieces w [] = w"
| "write_pieces w (Lit s # ps) = write_pieces (write_lit w s) ps"
| "write_pieces w (Num n # ps) = write_pieces (write_u32 w n) ps"

definition gen_proc_system_content :: "vfs_env \<Rightarrow> mm_state \<Rightarrow> u8 list \<Rightarrow> u8 list option" where
  "gen_proc_system_content env st path =
     (let uptime_sec = now env div 100;
          uptime_frac = (now env mod 100) div 10
      in if path = str ''/proc/uptime'' then
           Some (write_pieces [] [Num (ucast uptime_sec), Lit ''.'', Num (ucast uptime_frac), Lit '' '',
             Num (ucast uptime_sec), Lit (''.0'' @ nl)])
         else if path = str ''/proc/loadavg'' then
           Some (write_pieces [] [Lit ''0.00 0.00 0.00 1/1 '', Num (cur_pid env), Lit nl])
         else if path = str ''/proc/meminfo'' then
           (let total = total_pages (frames st) * 4;
                free = free_pages (frames st) * 4;
                used = (if free \<le> total then total - free else 0)
            in Some (write_pieces [] [Lit ''MemTotal:       '', Num (ucast total), Lit ('' kB'' @ nl @ ''MemFree:        ''),
                 Num (ucast free), Lit ('' kB'' @ nl @ ''MemAvailable:   ''), Num (ucast free),
                 Lit ('' kB'' @ nl @ ''Buffers:        0 kB'' @ nl @ ''Cached:         ''), Num (ucast used),
                 Lit ('' kB'' @ nl @ ''SwapTotal:      0 kB'' @ nl @ ''SwapFree:       0 kB'' @ nl)]))
         else if path = str ''/proc/stat'' then
           Some (write_pieces [] [Lit ''cpu  0 0 0 '', Num (ucast (uptime_sec * 100)),
             Lit ('' 0 0 0 0 0 0'' @ nl @ ''cpu0 0 0 0 ''), Num (ucast (uptime_sec * 100)),
             Lit ('' 0 0 0 0 0 0'' @ nl @ ''btime ''), Lit (''0'' @ nl @ ''processes 1'' @ nl @ ''procs_running 1'' @ nl)])
         else if path = str ''/proc/self'' then Some (write_pieces [] [Num (cur_pid env)])
         else None)"

definition gen_proc_self_content :: "vfs_env \<Rightarrow> u32 \<Rightarrow> u8 list \<Rightarrow> u8 list option" where
  "gen_proc_self_content env p path =
     (let uptime_sec = now env div 100
      in if path = str ''/proc/self/status'' \<or> ends_with (str ''/status'') path then
           Some (write_pieces [] [Lit (''Name:'' @ tab @ ''cyanos'' @ nl @ ''State:'' @ tab @ ''R (running)'' @ nl @ ''Pid:'' @ tab),
             Num p, Lit (nl @ ''PPid:'' @ tab), Num (cur_ppid env), Lit (nl @ ''PGid:'' @ tab), Num (cur_pgid env),
             Lit (nl @ ''Uid:'' @ tab @ ''0'' @ tab @ ''0'' @ tab @ ''0'' @ tab @ ''0'' @ nl
                  @ ''Gid:'' @ tab @ ''0'' @ tab @ ''0'' @ tab @ ''0'' @ tab @ ''0'' @ nl),
             Lit (''VmRSS:'' @ tab @ ''4096 kB'' @ nl @ ''VmSize:'' @ tab @ ''8192 kB'' @ nl @ ''Threads:'' @ tab @ ''1'' @ nl)])
         else if path = str ''/proc/self/stat'' \<or> ends_with (str ''/stat'') path then
           Some (write_pieces [] [Num p, Lit '' (cyanos) R '', Num (cur_ppid env), Lit '' '', Num (cur_pgid env),
             Lit '' 0 0 0 0 0 0 0 0 0 0 0 0 0 0 20 0 1 0 '', Num (ucast uptime_sec),
             Lit ('' 8388608 2048 18446744073709551615 0 0 0 0 0 0 0 0 0 0 0 0 0'' @ nl)])
         else if path = str ''/proc/self/cmdline'' \<or> ends_with (str ''/cmdline'') path then
           Some (take (min 7 TMP_BUF_SIZE) (str ''cyanos'' @ [0]))
         else if path = str ''/proc/self/maps'' \<or> ends_with (str ''/maps'') path then Some []
         else if path = str ''/proc/self/fd'' then Some []
         else None)"

text \<open>Both generators store the text in a fresh pool entry under a synthetic path.\<close>

definition store_generated :: "string \<Rightarrow> u8 list \<Rightarrow> vfs \<Rightarrow> vnode_kind option \<times> vfs" where
  "store_generated prefix content v = (case find_free_tmp v of
       None \<Rightarrow> (None, v)
     | Some idx \<Rightarrow>
         (let fake_path = str prefix @ decimal idx;
              copy = min (length content) TMP_BUF_SIZE;
              e = new_tmp fake_path False
          in (Some (TmpFile idx 0 False),
              put_tmp idx (e\<lparr>t_data := copy_at 0 (take copy content) (t_data e), t_len := copy\<rparr>) v)))"

definition gen_proc_system :: "vfs_env \<Rightarrow> u8 list \<Rightarrow> vfs \<Rightarrow> vnode_kind option \<times> vfs" where
  "gen_proc_system env path v = (case gen_proc_system_content env (vmm v) path of
       None \<Rightarrow> (None, v)
     | Some content \<Rightarrow> store_generated ''/tmp/.psys_'' content v)"

definition gen_proc_self :: "vfs_env \<Rightarrow> u32 \<Rightarrow> u8 list \<Rightarrow> vfs \<Rightarrow> vnode_kind option \<times> vfs" where
  "gen_proc_self env p path v = (case gen_proc_self_content env p path of
       None \<Rightarrow> (None, v)
     | Some content \<Rightarrow> store_generated ''/tmp/.proc_'' content v)"

subsection \<open>The initrd\<close>

definition hex_digit :: "u8 \<Rightarrow> nat option" where
  "hex_digit b =
     (if of_char CHR ''0'' \<le> b \<and> b \<le> of_char CHR ''9'' then Some (unat (b - of_char CHR ''0''))
      else if of_char CHR ''a'' \<le> b \<and> b \<le> of_char CHR ''f'' then Some (unat (b - of_char CHR ''a'' + 10))
      else if of_char CHR ''A'' \<le> b \<and> b \<le> of_char CHR ''F'' then Some (unat (b - of_char CHR ''A'' + 10))
      else None)"

fun cpio_hex :: "nat \<Rightarrow> u8 list \<Rightarrow> nat" where
  "cpio_hex val [] = val"
| "cpio_hex val (b # bs) = (case hex_digit b of None \<Rightarrow> 0 | Some d \<Rightarrow> cpio_hex (val * 16 + d) bs)"

definition parse_cpio_hex :: "u8 list \<Rightarrow> nat" where
  "parse_cpio_hex s = cpio_hex 0 s"

text \<open>\<open>data[a..b]\<close>, and rounding up to a multiple of four.\<close>

definition slice :: "'a list \<Rightarrow> nat \<Rightarrow> nat \<Rightarrow> 'a list" where
  "slice xs a b = take (b - a) (drop a xs)"

definition align4 :: "nat \<Rightarrow> nat" where
  "align4 n = (n + 3) div 4 * 4"

definition CPIO_MAGIC :: "u8 list" where "CPIO_MAGIC = str ''070701''"

definition strip_prefix :: "u8 list \<Rightarrow> u8 list \<Rightarrow> u8 list" where
  "strip_prefix p xs = (if starts_with p xs then drop (length p) xs else xs)"

definition cpio_name :: "u8 list \<Rightarrow> u8 list" where
  "cpio_name name = strip_prefix (str ''/'') (strip_prefix (str ''./'') name)"

definition cpio_namesize :: "u8 list \<Rightarrow> nat \<Rightarrow> nat" where
  "cpio_namesize d off = parse_cpio_hex (slice d (off + 94) (off + 102))"

definition cpio_filesize :: "u8 list \<Rightarrow> nat \<Rightarrow> nat" where
  "cpio_filesize d off = parse_cpio_hex (slice d (off + 54) (off + 62))"

text \<open>The archive as the server sees it; \<open>None\<close> when no initrd was given.\<close>

definition initrd_data :: "vfs \<Rightarrow> u8 list option" where
  "initrd_data v =
     (if initrd_base v = 0 \<or> initrd_size v = 0 then None
      else Some (read_slice (vram v) (phys_to_virt (vmm v) (initrd_base v)) (unat (initrd_size v))))"

function find_loop :: "u8 list \<Rightarrow> u8 list \<Rightarrow> nat \<Rightarrow> (nat \<times> nat) option" where
  "find_loop d query off =
     (if off + 110 > length d then None
      else if slice d off (off + 6) \<noteq> CPIO_MAGIC then None
      else
        let namesize = cpio_namesize d off; filesize = cpio_filesize d off; name_off = off + 110
        in if name_off + namesize > length d then None
           else let name = slice d name_off (name_off + (namesize - 1))
             in if name = str ''TRAILER!!!'' then None
                else let file_off = align4 (name_off + namesize)
                  in if cpio_name name = query \<and> file_off + filesize \<le> length d then Some (file_off, filesize)
                     else let next_off = align4 (file_off + filesize)
                       in if next_off \<le> off then None else find_loop d query next_off)"
  by pat_completeness auto

termination
  by (relation "measure (\<lambda>(d, query, off). length d - off)") (auto simp: not_le)

declare find_loop.simps [simp del]

definition find_in_initrd :: "u8 list \<Rightarrow> vfs \<Rightarrow> ram_ref option" where
  "find_in_initrd path v = (case initrd_data v of
       None \<Rightarrow> None
     | Some d \<Rightarrow>
         (if length d < 6 \<or> take 6 d \<noteq> CPIO_MAGIC then None
          else map_option (\<lambda>(off, n). MemSlice (phys_to_virt (vmm v) (initrd_base v) + of_nat off) n)
                 (find_loop d (strip_prefix (str ''/'') path) 0)))"

definition is_duplicated :: "u8 list \<Rightarrow> bool" where
  "is_duplicated path =
     (let p = str ''/'' @ take 254 (cpio_name path)
      in list_ex (\<lambda>e. fst e = p) RAMFS \<or> p \<in> set RAMFS_DIRS)"

end
