(* ===== verification/Vfs.thy ===== *)
theory Vfs
  imports Vfs_Files
begin

text \<open>
  The request handlers of the file server. A handler returns the reply and the new state; \<open>handle_read\<close>
  and \<open>handle_write\<close> re-enter themselves for \<open>/dev/stdin\<close> and its companions, so for them not returning is
  the value \<open>None\<close>.
\<close>

definition O_WRONLY :: u32 where "O_WRONLY = 0x01"
definition O_RDWR :: u32 where "O_RDWR = 0x02"
definition O_CREAT :: u32 where "O_CREAT = 0x40"
definition O_TRUNC :: u32 where "O_TRUNC = 0x200"
definition O_APPEND :: u32 where "O_APPEND = 0x400"

subsection \<open>Open\<close>

definition normalize :: "u8 list \<Rightarrow> u8 list" where
  "normalize path =
     (if path = str ''.'' then str ''/''
      else if length path > 1 \<and> ends_with (str ''/'') path then take (length path - 1) path
      else path)"

definition open_tmp :: "u8 list \<Rightarrow> u32 \<Rightarrow> vfs \<Rightarrow> (int + vnode_kind) \<times> vfs" where
  "open_tmp path flags v =
     (let writable = (flags AND (O_WRONLY OR O_RDWR) \<noteq> 0);
          create = (flags AND O_CREAT \<noteq> 0);
          trunc = (flags AND O_TRUNC \<noteq> 0)
      in case position (is_tmp_file path) (tmp_files v) of
           Some idx \<Rightarrow>
             (let v1 = (if trunc then put_tmp idx ((tmp_files v ! idx)\<lparr>t_len := 0\<rparr>) v else v);
                  pos = (if writable \<and> flags AND O_WRONLY \<noteq> 0 \<and> trunc then 0
                         else if flags AND O_WRONLY \<noteq> 0 then t_len (tmp_files v1 ! idx)
                         else 0)
              in (Inr (TmpFile idx pos writable), v1))
         | None \<Rightarrow>
             (if create then
                (case find_free_tmp v of
                   Some idx \<Rightarrow> (Inr (TmpFile idx 0 writable), put_tmp idx (new_tmp path False) v)
                 | None \<Rightarrow> (Inl (- 28), v))
              else (Inl (- 2), v)))"

definition open_static :: "u8 list \<Rightarrow> vfs \<Rightarrow> vnode_kind option" where
  "open_static path v =
     (case position (\<lambda>e. path = fst e) RAMFS of
        Some i \<Rightarrow> Some (RamFile (RamIdx i) 0)
      | None \<Rightarrow> (case position (\<lambda>dir. path = dir) RAMFS_DIRS of
          Some i \<Rightarrow> Some (RamFile (DirIdx i) 0)
        | None \<Rightarrow>
            (if is_tmp_path path then Some (RamFile TmpDir 0)
             else if position (is_tmp_dir path) (tmp_files v) \<noteq> None then Some DevNull
             else map_option (\<lambda>r. RamFile r 0) (find_in_initrd path v))))"

definition open_kind :: "vfs_env \<Rightarrow> u32 \<Rightarrow> u8 list \<Rightarrow> u32 \<Rightarrow> vfs \<Rightarrow> (int + vnode_kind) \<times> vfs" where
  "open_kind env p path flags v =
     (if path = str ''/dev/null'' then (Inr DevNull, v)
      else if path = str ''/dev/zero'' then (Inr DevZero, v)
      else if path = str ''/dev/urandom'' \<or> path = str ''/dev/random'' then (Inr DevUrandom, v)
      else if path = str ''/dev/stdin'' then (Inr (DevStdio 0), v)
      else if path = str ''/dev/stdout'' then (Inr (DevStdio 1), v)
      else if path = str ''/dev/stderr'' then (Inr (DevStdio 2), v)
      else if path = str ''/dev/fb0'' then (Inr (DevFb 0), v)
      else if is_tmp_path path \<and> path \<noteq> str ''/tmp'' then open_tmp path flags v
      else if starts_with (str ''/proc/self/'') path \<and> path \<noteq> str ''/proc/self/'' then
        (case gen_proc_self env p path v of (None, v') \<Rightarrow> (Inl (- 2), v') | (Some k, v') \<Rightarrow> (Inr k, v'))
      else if path = str ''/proc/meminfo'' \<or> path = str ''/proc/uptime'' \<or> path = str ''/proc/loadavg''
              \<or> path = str ''/proc/stat'' \<or> path = str ''/proc/self'' then
        (case gen_proc_system env path v of (None, v') \<Rightarrow> (Inl (- 2), v') | (Some k, v') \<Rightarrow> (Inr k, v'))
      else (case open_static path v of None \<Rightarrow> (Inl (- 2), v) | Some k \<Rightarrow> (Inr k, v)))"

text \<open>A new descriptor in the table of the process; the table stays when no descriptor is free.\<close>

definition install_fd :: "u32 \<Rightarrow> fd_entry \<Rightarrow> vfs \<Rightarrow> (int + nat) \<times> vfs" where
  "install_fd p e v = (case get_or_create p v of
       (None, v1) \<Rightarrow> (Inl (- 12), v1)
     | (Some i, v1) \<Rightarrow> (case alloc_fd (fd_tables v1 ! i) of
         None \<Rightarrow> (Inl (- 24), v1)
       | Some fd \<Rightarrow> (Inr fd, put_fd i fd e v1)))"

definition handle_open :: "vfs_env \<Rightarrow> u32 \<Rightarrow> usize \<Rightarrow> u32 \<Rightarrow> vfs \<Rightarrow> message \<times> vfs" where
  "handle_open env p path_ptr flags v = (case read_cstr_raw (vram v) path_ptr of
       None \<Rightarrow> (err_reply (- 14), v)
     | Some raw \<Rightarrow> (case open_kind env p (normalize raw) flags v of
         (Inl e, v1) \<Rightarrow> (err_reply e, v1)
       | (Inr vn, v1) \<Rightarrow>
           (case install_fd p \<lparr>vkind = vn, fd_flags = flags, fd_in_use = True\<rparr> v1 of
              (Inl e, v2) \<Rightarrow> (err_reply e, v2)
            | (Inr fd, v2) \<Rightarrow> (val_reply (of_nat fd), v2))))"

subsection \<open>Read\<close>

fun urandom_loop :: "u64 \<Rightarrow> nat \<Rightarrow> u64 \<Rightarrow> u8 list \<times> u64" where
  "urandom_loop t 0 s = ([], s)"
| "urandom_loop t (Suc n) s =
     (let (b, s1) = lfsr_next t s; (bs, s2) = urandom_loop t n s1
      in (b # bs, s2))"

definition fb_virt :: "vfs \<Rightarrow> nat \<Rightarrow> usize" where
  "fb_virt v cur =
     (if fb_base v \<ge> 0xFFFF000000000000 then fb_base v + of_nat cur
      else phys_to_virt (vmm v) (fb_base v + of_nat cur))"

definition fb_size :: "vfs \<Rightarrow> nat" where
  "fb_size v = unat (fb_height v) * unat (fb_pitch v)"

definition read_fb :: "nat \<Rightarrow> nat \<Rightarrow> nat \<Rightarrow> usize \<Rightarrow> nat \<Rightarrow> vfs \<Rightarrow> message \<times> vfs" where
  "read_fb i fd cur ptr count v =
     (if fb_base v = 0 then (err_reply (- 19), v)
      else if cur \<ge> fb_size v then (val_reply 0, v)
      else let n = min count (fb_size v - cur)
        in (val_reply (of_nat n),
            put_kind i fd (DevFb (cur + n)) (put_ram (copy_bytes (vram v) (fb_virt v cur) ptr (of_nat n)) v)))"

definition read_ram :: "nat \<Rightarrow> nat \<Rightarrow> ram_ref \<Rightarrow> nat \<Rightarrow> usize \<Rightarrow> nat \<Rightarrow> vfs \<Rightarrow> message \<times> vfs" where
  "read_ram i fd r pos ptr count v =
     (let d = ram_bytes v r;
          n = min count (length d - pos)
      in if n = 0 then (val_reply 0, v)
         else (val_reply (of_nat n),
               put_kind i fd (RamFile r (pos + n)) (put_ram (write_slice (vram v) ptr (slice d pos (pos + n))) v)))"

text \<open>\<open>while n < limit\<close>: bytes leave the ring in order until it is empty.\<close>

fun pipe_read_loop :: "nat \<Rightarrow> pipe_ring \<Rightarrow> u8 list \<times> pipe_ring" where
  "pipe_read_loop 0 r = ([], r)"
| "pipe_read_loop (Suc k) r = (case pipe_get r of
       (None, r1) \<Rightarrow> ([], r1)
     | (Some b, r1) \<Rightarrow> (let (bs, r2) = pipe_read_loop k r1 in (b # bs, r2)))"

definition put_ring :: "nat \<Rightarrow> pipe_ring \<Rightarrow> vfs \<Rightarrow> vfs" where
  "put_ring ring r v = v\<lparr>pipe_rings := (pipe_rings v)[ring := r]\<rparr>"

definition read_pipe :: "nat \<Rightarrow> usize \<Rightarrow> nat \<Rightarrow> vfs \<Rightarrow> message \<times> vfs" where
  "read_pipe ring ptr count v =
     (let r = pipe_rings v ! ring
      in if p_count r = 0 then ((if write_open r then err_reply (- 11) else val_reply 0), v)
         else let (bs, r') = pipe_read_loop (min count 4096) r
           in (val_reply (of_nat (length bs)), put_ring ring r' (put_ram (write_slice (vram v) ptr bs) v)))"

text \<open>The position is stored back only if the descriptor still is an open file of the pool.\<close>

definition set_tmp_pos :: "u32 \<Rightarrow> nat \<Rightarrow> nat \<Rightarrow> vfs \<Rightarrow> vfs" where
  "set_tmp_pos p fd pos v = (case find_tbl p v of
       None \<Rightarrow> v
     | Some i \<Rightarrow>
         (if fd < MAX_FDS then
            (case vkind (fds (fd_tables v ! i) ! fd) of
               TmpFile idx _ w \<Rightarrow> put_kind i fd (TmpFile idx pos w) v
             | _ \<Rightarrow> v)
          else v))"

definition read_tmp :: "u32 \<Rightarrow> nat \<Rightarrow> nat \<Rightarrow> nat \<Rightarrow> usize \<Rightarrow> nat \<Rightarrow> vfs \<Rightarrow> message \<times> vfs" where
  "read_tmp p fd idx cur ptr count v =
     (let e = tmp_files v ! idx;
          n = min (min count (t_len e - cur)) 4096
      in if n = 0 then (val_reply 0, v)
         else (val_reply (of_nat n),
               set_tmp_pos p fd (cur + n) (put_ram (write_slice (vram v) ptr (slice (t_data e) cur (cur + n))) v)))"

definition read_event :: "nat \<Rightarrow> usize \<Rightarrow> nat \<Rightarrow> vfs \<Rightarrow> message \<times> vfs" where
  "read_event slot ptr count v =
     (if count < 8 then (err_reply (- 22), v)
      else let val = eventfds v ! slot
        in if val = 0 then (err_reply (- 11), v)
           else (val_reply 8, put_ram (store64 (vram v) ptr val) (v\<lparr>eventfds := (eventfds v)[slot := 0]\<rparr>)))"

definition timer_update :: "u64 \<Rightarrow> timerfd \<Rightarrow> timerfd" where
  "timer_update t e =
     (if armed e \<and> t \<ge> deadline_ticks e then
        let elapsed = t - deadline_ticks e;
            extra = (if interval_ticks e > 0 then elapsed div interval_ticks e + 1 else 1);
            e1 = e\<lparr>expirations := expirations e + extra\<rparr>
        in if interval_ticks e > 0 then e1\<lparr>deadline_ticks := deadline_ticks e + extra * interval_ticks e\<rparr>
           else e1\<lparr>armed := False\<rparr>
      else e)"

definition read_timer :: "u64 \<Rightarrow> nat \<Rightarrow> usize \<Rightarrow> nat \<Rightarrow> vfs \<Rightarrow> message \<times> vfs" where
  "read_timer t slot ptr count v =
     (if count < 8 then (err_reply (- 22), v)
      else let e = timer_update t (timers v ! slot)
        in if expirations e = 0 then (err_reply (- 11), v\<lparr>timers := (timers v)[slot := e]\<rparr>)
           else (val_reply 8, put_ram (store64 (vram v) ptr (expirations e))
                   (v\<lparr>timers := (timers v)[slot := e\<lparr>expirations := 0\<rparr>]\<rparr>)))"

text \<open>A read from an entry that is not a \<open>DevStdio\<close> one.\<close>

definition read_node :: "vfs_env \<Rightarrow> u32 \<Rightarrow> nat \<Rightarrow> nat \<Rightarrow> vnode_kind \<Rightarrow> usize \<Rightarrow> nat \<Rightarrow> vfs \<Rightarrow> message \<times> vfs" where
  "read_node env p i fd vn ptr count v = (case vn of
       DevNull \<Rightarrow> (val_reply 0, v)
     | DevZero \<Rightarrow>
         (let n = min count 4096
          in (val_reply (of_nat n), put_ram (fill_bytes (vram v) ptr 0 (of_nat n)) v))
     | DevUrandom \<Rightarrow>
         (let n = min count 4096;
              (bs, s) = urandom_loop (now env) n (lfsr_state v)
          in (val_reply (of_nat n), put_ram (write_slice (vram v) ptr bs) (v\<lparr>lfsr_state := s\<rparr>)))
     | DevFb pos \<Rightarrow> read_fb i fd pos ptr count v
     | RamFile r pos \<Rightarrow> read_ram i fd r pos ptr count v
     | Pipe ring is_write \<Rightarrow> (if is_write then (err_reply (- 9), v) else read_pipe ring ptr count v)
     | TmpFile idx pos _ \<Rightarrow> read_tmp p fd idx pos ptr count v
     | EventFd slot \<Rightarrow> read_event slot ptr count v
     | TimerFd slot \<Rightarrow> read_timer (now env) slot ptr count v
     | _ \<Rightarrow> (err_reply (- 9), v))"

partial_function (option) handle_read :: "vfs_env \<Rightarrow> u32 \<Rightarrow> nat \<Rightarrow> usize \<Rightarrow> nat \<Rightarrow> vfs \<Rightarrow> (message \<times> vfs) option" where
  "handle_read env p fd ptr count v =
     (if count = 0 then Some (val_reply 0, v)
      else case open_fd p fd v of
        None \<Rightarrow> Some (err_reply (- 9), v)
      | Some (i, e) \<Rightarrow> (case vkind e of
          DevStdio target_fd \<Rightarrow> handle_read env p target_fd ptr count v
        | _ \<Rightarrow> Some (read_node env p i fd (vkind e) ptr count v)))"

subsection \<open>Write\<close>

text \<open>\<open>while n < count\<close>: bytes enter the ring until it is full.\<close>

fun pipe_write_loop :: "u8 list \<Rightarrow> pipe_ring \<Rightarrow> nat \<times> pipe_ring" where
  "pipe_write_loop [] r = (0, r)"
| "pipe_write_loop (b # bs) r = (case pipe_put b r of
       (False, r1) \<Rightarrow> (0, r1)
     | (True, r1) \<Rightarrow> (let (n, r2) = pipe_write_loop bs r1 in (Suc n, r2)))"

definition write_pipe :: "nat \<Rightarrow> usize \<Rightarrow> nat \<Rightarrow> vfs \<Rightarrow> message \<times> vfs" where
  "write_pipe ring ptr count v =
     (let r = pipe_rings v ! ring
      in if \<not> read_open r then (err_reply (- 32), v)
         else let (n, r') = pipe_write_loop (read_slice (vram v) ptr count) r
           in (val_reply (of_nat n), put_ring ring r' v))"

definition write_tmp :: "u32 \<Rightarrow> nat \<Rightarrow> fd_entry \<Rightarrow> nat \<Rightarrow> nat \<Rightarrow> bool \<Rightarrow> usize \<Rightarrow> nat \<Rightarrow> vfs \<Rightarrow> message \<times> vfs" where
  "write_tmp p fd e idx pos writable ptr count v =
     (if \<not> writable then (err_reply (- 9), v)
      else
        let t = tmp_files v ! idx;
            cur = (if fd_flags e AND O_APPEND \<noteq> 0 then t_len t else pos);
            n = min count (MAX_TMP_SIZE - cur)
        in if n = 0 then (err_reply (- 28), v)
           else
             let new_pos = cur + n;
                 t' = t\<lparr>t_data := copy_at cur (read_slice (vram v) ptr n) (t_data t),
                        t_len := (if new_pos > t_len t then new_pos else t_len t)\<rparr>
             in (val_reply (of_nat n), set_tmp_pos p fd new_pos (put_tmp idx t' v)))"

definition write_event :: "nat \<Rightarrow> usize \<Rightarrow> nat \<Rightarrow> vfs \<Rightarrow> message \<times> vfs" where
  "write_event slot ptr count v =
     (if count < 8 then (err_reply (- 22), v)
      else let addval = load64 (vram v) ptr
        in if addval = u64_MAX then (err_reply (- 22), v)
           else let old = eventfds v ! slot;
                    new = (if unat old + unat addval < 2 ^ 64 then old + addval else u64_MAX)
             in (val_reply 8, v\<lparr>eventfds := (eventfds v)[slot := new]\<rparr>))"

definition write_fb :: "nat \<Rightarrow> nat \<Rightarrow> nat \<Rightarrow> usize \<Rightarrow> nat \<Rightarrow> vfs \<Rightarrow> message \<times> vfs" where
  "write_fb i fd cur ptr count v =
     (if fb_base v = 0 then (err_reply (- 19), v)
      else if cur \<ge> fb_size v then (val_reply 0, v)
      else let n = min count (fb_size v - cur)
        in (val_reply (of_nat n),
            put_kind i fd (DevFb (cur + n)) (put_ram (copy_bytes (vram v) ptr (fb_virt v cur) (of_nat n)) v)))"

definition write_node :: "u32 \<Rightarrow> nat \<Rightarrow> nat \<Rightarrow> fd_entry \<Rightarrow> usize \<Rightarrow> nat \<Rightarrow> vfs \<Rightarrow> message \<times> vfs" where
  "write_node p i fd e ptr count v = (case vkind e of
       DevUrandom \<Rightarrow> (val_reply (of_nat count), v)
     | DevNull \<Rightarrow> (val_reply (of_nat count), v)
     | DevZero \<Rightarrow> (val_reply (of_nat count), v)
     | Pipe ring is_write \<Rightarrow> (if is_write then write_pipe ring ptr count v else (err_reply (- 9), v))
     | TmpFile idx pos writable \<Rightarrow> write_tmp p fd e idx pos writable ptr count v
     | EventFd slot \<Rightarrow> write_event slot ptr count v
     | DevFb pos \<Rightarrow> write_fb i fd pos ptr count v
     | _ \<Rightarrow> (err_reply (- 9), v))"

partial_function (option) handle_write :: "u32 \<Rightarrow> nat \<Rightarrow> usize \<Rightarrow> nat \<Rightarrow> vfs \<Rightarrow> (message \<times> vfs) option" where
  "handle_write p fd ptr count v =
     (if count = 0 then Some (val_reply 0, v)
      else case open_fd p fd v of
        None \<Rightarrow> Some (err_reply (- 9), v)
      | Some (i, e) \<Rightarrow> (case vkind e of
          DevStdio target_fd \<Rightarrow> handle_write p target_fd ptr count v
        | _ \<Rightarrow> Some (write_node p i fd e ptr count v)))"

subsection \<open>Close and seek\<close>

definition handle_close :: "u32 \<Rightarrow> nat \<Rightarrow> vfs \<Rightarrow> message \<times> vfs" where
  "handle_close p fd v = (case open_fd p fd v of
       None \<Rightarrow> (err_reply (- 9), v)
     | Some (i, e) \<Rightarrow> (case vkind e of
         Pipe ring is_write \<Rightarrow>
           (let r = pipe_rings v ! ring
            in (ok_reply, put_ring ring (if is_write then r\<lparr>write_open := False\<rparr> else r\<lparr>read_open := False\<rparr>) v))
       | EventFd slot \<Rightarrow> (ok_reply, (put_fd i fd fd_empty v)\<lparr>eventfds := (eventfds v)[slot := u64_MAX]\<rparr>)
       | TimerFd slot \<Rightarrow> (ok_reply, (put_fd i fd fd_empty v)\<lparr>timers := (timers v)[slot := timerfd_free]\<rparr>)
       | _ \<Rightarrow> (ok_reply, put_fd i fd fd_empty v)))"

definition i64_add :: "int \<Rightarrow> int \<Rightarrow> int" where
  "i64_add a b = signed_take_bit 63 (a + b)"

definition seek_pos :: "nat \<Rightarrow> nat \<Rightarrow> int \<Rightarrow> u32 \<Rightarrow> nat option" where
  "seek_pos cur len offset whence =
     (let new_pos = (if whence = 0 then Some offset
                     else if whence = 1 then Some (i64_add (int cur) offset)
                     else if whence = 2 then Some (i64_add (int len) offset)
                     else None)
      in case new_pos of None \<Rightarrow> None | Some q \<Rightarrow> if q < 0 then None else Some (nat q))"

definition handle_lseek :: "u32 \<Rightarrow> nat \<Rightarrow> int \<Rightarrow> u32 \<Rightarrow> vfs \<Rightarrow> message \<times> vfs" where
  "handle_lseek p fd offset whence v = (case open_fd p fd v of
       None \<Rightarrow> (err_reply (- 9), v)
     | Some (i, e) \<Rightarrow> (case vkind e of
         RamFile r pos \<Rightarrow> (case seek_pos pos (length (ram_bytes v r)) offset whence of
             None \<Rightarrow> (err_reply (- 22), v)
           | Some q \<Rightarrow> (val_reply (of_nat q), put_kind i fd (RamFile r q) v))
       | DevFb pos \<Rightarrow> (case seek_pos pos (fb_size v) offset whence of
             None \<Rightarrow> (err_reply (- 22), v)
           | Some q \<Rightarrow> (val_reply (of_nat q), put_kind i fd (DevFb q) v))
       | TmpFile idx pos w \<Rightarrow> (case seek_pos pos (t_len (tmp_files v ! idx)) offset whence of
             None \<Rightarrow> (err_reply (- 22), v)
           | Some q \<Rightarrow> (val_reply (of_nat q), put_kind i fd (TmpFile idx q w) v))
       | _ \<Rightarrow> (err_reply (- 29), v)))"

end
