(* ===== verification/Vfs_Server.thy ===== *)
theory Vfs_Server
  imports Vfs
begin

text \<open>
  The remaining request handlers of the file server (pipes, descriptor tables, event and timer descriptors,
  the writable tree, directory listings) and the dispatch of a request message.
\<close>

subsection \<open>Pipes and descriptor tables\<close>

definition ring_free :: "pipe_ring \<Rightarrow> bool" where
  "ring_free r \<longleftrightarrow> \<not> read_open r \<and> \<not> write_open r \<and> p_count r = 0"

definition pipe_entry :: "nat \<Rightarrow> bool \<Rightarrow> fd_entry" where
  "pipe_entry ring w = \<lparr>vkind = Pipe ring w, fd_flags = 0, fd_in_use = True\<rparr>"

definition handle_pipe :: "u32 \<Rightarrow> usize \<Rightarrow> usize \<Rightarrow> vfs \<Rightarrow> message \<times> vfs" where
  "handle_pipe p rfd_ptr wfd_ptr v = (case position ring_free (pipe_rings v) of
       None \<Rightarrow> (err_reply (- 23), v)
     | Some ring \<Rightarrow>
         (let v1 = put_ring ring ((pipe_rings v ! ring)\<lparr>read_open := True, write_open := True\<rparr>) v
          in case get_or_create p v1 of
               (None, v2) \<Rightarrow> (err_reply (- 12), v2)
             | (Some i, v2) \<Rightarrow> (case alloc_fd (fd_tables v2 ! i) of
                 None \<Rightarrow> (err_reply (- 24), v2)
               | Some rfd \<Rightarrow>
                   (let v3 = put_fd i rfd (pipe_entry ring False) v2
                    in case alloc_fd (fd_tables v3 ! i) of
                         None \<Rightarrow> (err_reply (- 24), put_fd i rfd fd_empty v3)
                       | Some wfd \<Rightarrow>
                           (let v4 = put_fd i wfd (pipe_entry ring True) v3
                            in (ok_reply, put_ram (store32 (store32 (vram v4) rfd_ptr (of_nat rfd)) wfd_ptr (of_nat wfd)) v4))))))"

definition handle_dup2 :: "u32 \<Rightarrow> nat \<Rightarrow> nat \<Rightarrow> vfs \<Rightarrow> message \<times> vfs" where
  "handle_dup2 p oldfd newfd v =
     (if oldfd \<ge> MAX_FDS \<or> newfd \<ge> MAX_FDS then (err_reply (- 9), v)
      else case find_tbl p v of
        None \<Rightarrow> (err_reply (- 9), v)
      | Some i \<Rightarrow>
          (if \<not> fd_in_use (fds (fd_tables v ! i) ! oldfd) then (err_reply (- 9), v)
           else (val_reply (of_nat newfd), put_fd i newfd (fds (fd_tables v ! i) ! oldfd) v)))"

definition handle_fork_dup :: "u32 \<Rightarrow> u32 \<Rightarrow> vfs \<Rightarrow> message \<times> vfs" where
  "handle_fork_dup parent child v = (case tbl_idx parent v of
       None \<Rightarrow> (ok_reply, v)
     | Some i \<Rightarrow> (case position (\<lambda>t. \<not> tbl_in_use t) (fd_tables v) of
         None \<Rightarrow> (ok_reply, v)
       | Some j \<Rightarrow> (ok_reply, v\<lparr>fd_tables := (fd_tables v)[j :=
           fd_table_empty\<lparr>tbl_in_use := True, tbl_pid := child, fds := fds (fd_tables v ! i)\<rparr>]\<rparr>)))"

definition handle_exec_cloexec :: "u32 \<Rightarrow> vfs \<Rightarrow> message \<times> vfs" where
  "handle_exec_cloexec p v = (case tbl_idx p v of
       None \<Rightarrow> (ok_reply, v)
     | Some i \<Rightarrow>
         (let t = fd_tables v ! i
          in (ok_reply, v\<lparr>fd_tables := (fd_tables v)[i := t\<lparr>fds :=
                map (\<lambda>e. if fd_in_use e \<and> fd_flags e AND O_CLOEXEC \<noteq> 0 then fd_empty else e) (fds t)\<rparr>]\<rparr>)))"

definition handle_close_all :: "u32 \<Rightarrow> vfs \<Rightarrow> message \<times> vfs" where
  "handle_close_all p v = (case tbl_idx p v of
       None \<Rightarrow> (ok_reply, v)
     | Some i \<Rightarrow> (ok_reply, v\<lparr>fd_tables := (fd_tables v)[i := fd_table_empty]\<rparr>))"

definition put_flags :: "nat \<Rightarrow> nat \<Rightarrow> u32 \<Rightarrow> vfs \<Rightarrow> vfs" where
  "put_flags i fd f v = put_fd i fd ((fds (fd_tables v ! i) ! fd)\<lparr>fd_flags := f\<rparr>) v"

definition handle_fcntl :: "u32 \<Rightarrow> nat \<Rightarrow> usize \<Rightarrow> usize \<Rightarrow> vfs \<Rightarrow> message \<times> vfs" where
  "handle_fcntl p fd cmd a v = (case open_fd p fd v of
       None \<Rightarrow> (err_reply (- 9), v)
     | Some (i, e) \<Rightarrow>
         (if cmd = 1 then (val_reply (if fd_flags e AND O_CLOEXEC \<noteq> 0 then 1 else 0), v)
          else if cmd = 2 then (ok_reply, put_flags i fd (ucast a) v)
          else if cmd = 3 then (val_reply (ucast (fd_flags e)), v)
          else if cmd = 4 then (ok_reply, put_flags i fd ((fd_flags e AND O_CLOEXEC) OR ucast a) v)
          else (ok_reply, v)))"

definition handle_alloc_fd :: "u32 \<Rightarrow> nat \<Rightarrow> vfs \<Rightarrow> message \<times> vfs" where
  "handle_alloc_fd p oldfd v =
     (if oldfd \<ge> MAX_FDS then (err_reply (- 9), v)
      else case get_or_create p v of
        (None, v1) \<Rightarrow> (err_reply (- 12), v1)
      | (Some i, v1) \<Rightarrow>
          (let t = fds (fd_tables v1 ! i)
           in if \<not> fd_in_use (t ! oldfd) then (err_reply (- 9), v1)
              else case position (\<lambda>(j, f). j \<noteq> oldfd \<and> \<not> fd_in_use f) (enumerate 0 t) of
                None \<Rightarrow> (err_reply (- 24), v1)
              | Some newfd \<Rightarrow>
                  (val_reply (of_nat newfd),
                   put_fd i newfd ((t ! oldfd)\<lparr>fd_flags := fd_flags (t ! oldfd) AND NOT O_CLOEXEC\<rparr>) v1)))"

subsection \<open>Event and timer descriptors\<close>

text \<open>A failed installation gives the slot back; both failures are reported as \<open>EMFILE\<close>.\<close>

definition handle_eventfd :: "u32 \<Rightarrow> u64 \<Rightarrow> vfs \<Rightarrow> message \<times> vfs" where
  "handle_eventfd p initval v = (case position (\<lambda>c. c = u64_MAX) (eventfds v) of
       None \<Rightarrow> (err_reply (- 24), v)
     | Some slot \<Rightarrow>
         (let v1 = v\<lparr>eventfds := (eventfds v)[slot := (if initval = u64_MAX then u64_MAX - 1 else initval)]\<rparr>
          in case install_fd p \<lparr>vkind = EventFd slot, fd_flags = 0, fd_in_use = True\<rparr> v1 of
               (Inl _, v2) \<Rightarrow> (err_reply (- 24), v2\<lparr>eventfds := (eventfds v2)[slot := u64_MAX]\<rparr>)
             | (Inr fd, v2) \<Rightarrow> (val_reply (of_nat fd), v2)))"

definition handle_timerfd_create :: "u32 \<Rightarrow> vfs \<Rightarrow> message \<times> vfs" where
  "handle_timerfd_create p v = (case position timerfd_is_free (timers v) of
       None \<Rightarrow> (err_reply (- 24), v)
     | Some slot \<Rightarrow>
         (let v1 = v\<lparr>timers := (timers v)[slot := timerfd_free\<lparr>deadline_ticks := 1\<rparr>]\<rparr>
          in case install_fd p \<lparr>vkind = TimerFd slot, fd_flags = 0, fd_in_use = True\<rparr> v1 of
               (Inl _, v2) \<Rightarrow> (err_reply (- 24), v2\<lparr>timers := (timers v2)[slot := timerfd_free]\<rparr>)
             | (Inr fd, v2) \<Rightarrow> (val_reply (of_nat fd), v2)))"

definition NS_PER_TICK :: u64 where "NS_PER_TICK = 10000000"

definition handle_timerfd_settime :: "vfs_env \<Rightarrow> u32 \<Rightarrow> nat \<Rightarrow> u64 \<Rightarrow> u64 \<Rightarrow> vfs \<Rightarrow> message \<times> vfs" where
  "handle_timerfd_settime env p fd value_ns interval_ns v = (case open_fd p fd v of
       None \<Rightarrow> (err_reply (- 9), v)
     | Some (i, e) \<Rightarrow> (case vkind e of
         TimerFd slot \<Rightarrow>
           (let t = timers v ! slot;
                t' = (if value_ns = 0 then t\<lparr>armed := False, expirations := 0\<rparr>
                      else t\<lparr>armed := True, deadline_ticks := now env + max (value_ns div NS_PER_TICK) 1,
                             interval_ticks := interval_ns div NS_PER_TICK, expirations := 0\<rparr>)
            in (ok_reply, v\<lparr>timers := (timers v)[slot := t']\<rparr>))
       | _ \<Rightarrow> (err_reply (- 22), v)))"

definition handle_timerfd_gettime :: "vfs_env \<Rightarrow> u32 \<Rightarrow> nat \<Rightarrow> usize \<Rightarrow> vfs \<Rightarrow> message \<times> vfs" where
  "handle_timerfd_gettime env p fd out_ptr v =
     (if out_ptr = 0 then (err_reply (- 14), v)
      else case open_fd p fd v of
        None \<Rightarrow> (err_reply (- 9), v)
      | Some (i, e) \<Rightarrow> (case vkind e of
          TimerFd slot \<Rightarrow>
            (let t = timers v ! slot;
                 remaining_ns = (if armed t \<and> deadline_ticks t > now env then (deadline_ticks t - now env) * NS_PER_TICK else 0);
                 interval_ns = interval_ticks t * NS_PER_TICK;
                 m1 = store64 (vram v) out_ptr (interval_ns div 1000000000);
                 m2 = store64 m1 (out_ptr + 8) (interval_ns mod 1000000000);
                 m3 = store64 m2 (out_ptr + 16) (remaining_ns div 1000000000);
                 m4 = store64 m3 (out_ptr + 24) (remaining_ns mod 1000000000)
             in (ok_reply, put_ram m4 v))
        | _ \<Rightarrow> (err_reply (- 22), v)))"

subsection \<open>Device control\<close>

definition FIONREAD :: usize where "FIONREAD = 0x541B"
definition FBIOGET_VSCREENINFO :: usize where "FBIOGET_VSCREENINFO = 0x4600"

definition is_fb :: "vnode_kind \<Rightarrow> bool" where
  "is_fb k = (case k of DevFb _ \<Rightarrow> True | _ \<Rightarrow> False)"

definition screen_info :: "usize \<Rightarrow> vfs \<Rightarrow> memory" where
  "screen_info a v = foldl (\<lambda>m (k, x). store32 m (a + 4 * of_nat k) x) (vram v)
     (enumerate 0 [fb_width v, fb_height v, fb_width v, fb_height v, 0, 0, 32, fb_pitch v])"

definition bytes_avail :: "vnode_kind \<Rightarrow> vfs \<Rightarrow> nat option" where
  "bytes_avail k v = (case k of
       Pipe ring False \<Rightarrow> Some (p_count (pipe_rings v ! ring))
     | RamFile r pos \<Rightarrow> Some (length (ram_bytes v r) - pos)
     | TmpFile idx pos _ \<Rightarrow> Some (t_len (tmp_files v ! idx) - pos)
     | EventFd slot \<Rightarrow> Some (if eventfds v ! slot > 0 then 8 else 0)
     | TimerFd slot \<Rightarrow> Some (if expirations (timers v ! slot) > 0 then 8 else 0)
     | _ \<Rightarrow> None)"

definition handle_fionread :: "u32 \<Rightarrow> nat \<Rightarrow> usize \<Rightarrow> usize \<Rightarrow> vfs \<Rightarrow> message \<times> vfs" where
  "handle_fionread p fd cmd a v =
     (if cmd \<noteq> FIONREAD then (err_reply (- 25), v)
      else if a = 0 then (err_reply (- 14), v)
      else case open_fd p fd v of
        None \<Rightarrow> (err_reply (- 9), v)
      | Some (i, e) \<Rightarrow> (case bytes_avail (vkind e) v of
          None \<Rightarrow> (err_reply (- 25), v)
        | Some n \<Rightarrow> (val_reply 0, put_ram (store32 (vram v) a (of_nat n)) v)))"

definition handle_ioctl :: "u32 \<Rightarrow> nat \<Rightarrow> usize \<Rightarrow> usize \<Rightarrow> vfs \<Rightarrow> message \<times> vfs" where
  "handle_ioctl p fd cmd a v =
     (if cmd = FBIOGET_VSCREENINFO then
        (case open_fd p fd v of
           None \<Rightarrow> (err_reply (- 9), v)
         | Some (i, e) \<Rightarrow>
             (if is_fb (vkind e) then (ok_reply, put_ram (screen_info a v) v) else handle_fionread p fd cmd a v))
      else handle_fionread p fd cmd a v)"

subsection \<open>The writable tree\<close>

definition handle_ftruncate :: "u32 \<Rightarrow> nat \<Rightarrow> nat \<Rightarrow> vfs \<Rightarrow> message \<times> vfs" where
  "handle_ftruncate p fd new_len v = (case open_fd p fd v of
       None \<Rightarrow> (err_reply (- 9), v)
     | Some (i, e) \<Rightarrow> (case vkind e of
         TmpFile idx _ _ \<Rightarrow>
           (let t = tmp_files v ! idx
            in if new_len > MAX_TMP_SIZE then (err_reply (- 28), v)
               else (ok_reply, put_tmp idx (t\<lparr>t_data := (if new_len > t_len t
                       then copy_at (t_len t) (replicate (new_len - t_len t) 0) (t_data t) else t_data t),
                     t_len := new_len\<rparr>) v))
       | _ \<Rightarrow> (err_reply (- 22), v)))"

definition handle_rename :: "usize \<Rightarrow> usize \<Rightarrow> vfs \<Rightarrow> message \<times> vfs" where
  "handle_rename old_ptr new_ptr v = (case read_cstr_raw (vram v) old_ptr of
       None \<Rightarrow> (err_reply (- 14), v)
     | Some old \<Rightarrow> (case read_cstr_raw (vram v) new_ptr of
         None \<Rightarrow> (err_reply (- 14), v)
       | Some new \<Rightarrow>
           (if \<not> is_tmp_path old \<or> \<not> is_tmp_path new then (err_reply (- 30), v)
            else case position (is_tmp_file old) (tmp_files v) of
              None \<Rightarrow> (err_reply (- 2), v)
            | Some idx \<Rightarrow> (ok_reply, put_tmp idx (set_path new (tmp_files v ! idx)) v))))"

definition handle_unlink :: "usize \<Rightarrow> vfs \<Rightarrow> message \<times> vfs" where
  "handle_unlink path_ptr v = (case read_cstr_raw (vram v) path_ptr of
       None \<Rightarrow> (err_reply (- 14), v)
     | Some path \<Rightarrow>
         (if \<not> is_tmp_path path then (err_reply (- 30), v)
          else case position (is_tmp_file path) (tmp_files v) of
            None \<Rightarrow> (err_reply (- 2), v)
          | Some idx \<Rightarrow> (ok_reply, put_tmp idx tmp_empty v)))"

definition handle_mkdir :: "usize \<Rightarrow> vfs \<Rightarrow> message \<times> vfs" where
  "handle_mkdir path_ptr v = (case read_cstr_raw (vram v) path_ptr of
       None \<Rightarrow> (err_reply (- 14), v)
     | Some path \<Rightarrow>
         (if \<not> is_tmp_path path then (err_reply (- 30), v)
          else if path \<in> set RAMFS_DIRS then (err_reply (- 17), v)
          else if list_ex (has_path path) (tmp_files v) then (err_reply (- 17), v)
          else case find_free_tmp v of
            None \<Rightarrow> (err_reply (- 28), v)
          | Some idx \<Rightarrow> (ok_reply, put_tmp idx (new_tmp path True) v)))"

subsection \<open>The path of a descriptor\<close>

datatype fd_info = Static "u8 list" | PipeInfo nat | RamData usize | TmpIdx nat | Bad

text \<open>The address of static data is the linker's choice, the parameter \<open>addr\<close>.\<close>

definition data_ptr :: "(ram_ref \<Rightarrow> usize) \<Rightarrow> ram_ref \<Rightarrow> usize" where
  "data_ptr addr r = (case r of MemSlice a _ \<Rightarrow> a | _ \<Rightarrow> addr r)"

definition fd_info_of :: "(ram_ref \<Rightarrow> usize) \<Rightarrow> vnode_kind \<Rightarrow> fd_info" where
  "fd_info_of addr k = (case k of
       DevNull \<Rightarrow> Static (str ''/dev/null'')
     | DevZero \<Rightarrow> Static (str ''/dev/zero'')
     | Pipe ring _ \<Rightarrow> PipeInfo ring
     | RamFile r _ \<Rightarrow> RamData (data_ptr addr r)
     | TmpFile idx _ _ \<Rightarrow> TmpIdx idx
     | EventFd _ \<Rightarrow> Static (str ''eventfd'')
     | TimerFd _ \<Rightarrow> Static (str ''timerfd'')
     | DevUrandom \<Rightarrow> Static (str ''/dev/urandom'')
     | DevStdio t \<Rightarrow> Static (str (if t = 0 then ''/dev/stdin'' else if t = 1 then ''/dev/stdout'' else ''/dev/stderr''))
     | _ \<Rightarrow> Bad)"

definition reply_path :: "usize \<Rightarrow> nat \<Rightarrow> u8 list \<Rightarrow> vfs \<Rightarrow> message \<times> vfs" where
  "reply_path ptr len path v =
     (let c = min (length path) len
      in (val_reply (of_nat c), put_ram (write_slice (vram v) ptr (take c path)) v))"

definition handle_fd_path :: "(ram_ref \<Rightarrow> usize) \<Rightarrow> u32 \<Rightarrow> nat \<Rightarrow> usize \<Rightarrow> nat \<Rightarrow> vfs \<Rightarrow> message \<times> vfs" where
  "handle_fd_path addr p fd ptr len v =
     (if ptr = 0 \<or> len = 0 then (err_reply (- 14), v)
      else case open_fd p fd v of
        None \<Rightarrow> (err_reply (- 9), v)
      | Some (i, e) \<Rightarrow> (case fd_info_of addr (vkind e) of
          Bad \<Rightarrow> (err_reply (- 9), v)
        | Static path \<Rightarrow> reply_path ptr len path v
        | PipeInfo ring \<Rightarrow> reply_path ptr len (str ''pipe:['' @ decimal ring @ str '']'') v
        | RamData a \<Rightarrow> (case position (\<lambda>j. addr (RamIdx j) = a) [0..<length RAMFS] of
              None \<Rightarrow> (err_reply (- 2), v)
            | Some j \<Rightarrow> reply_path ptr len (fst (RAMFS ! j)) v)
        | TmpIdx j \<Rightarrow>
            (if j < length (tmp_files v) \<and> t_in_use (tmp_files v ! j)
             then reply_path ptr len (take (t_path_len (tmp_files v ! j)) (t_path (tmp_files v ! j))) v
             else (err_reply (- 9), v))))"

subsection \<open>Directory listings\<close>

record listing =
  ls_off :: nat
  ls_pos :: nat
  ls_vidx :: nat
  ls_mem :: memory

definition dirent_len :: "u8 list \<Rightarrow> nat" where
  "dirent_len name = (8 + 8 + 2 + 1 + length name + 1 + 7) div 8 * 8"

definition dirent_bytes :: "u64 \<Rightarrow> u8 list \<Rightarrow> u8 \<Rightarrow> u8 list" where
  "dirent_bytes ino name d_type =
     map (byte_of ino) [0..<8] @ replicate 8 0 @ map (byte_of (of_nat (dirent_len name))) [0..<2] @ [d_type] @ name @ [0]"

text \<open>One record at the offset reached; \<open>None\<close> when it does not fit.\<close>

definition write_dirent :: "usize \<Rightarrow> nat \<Rightarrow> u64 \<Rightarrow> u8 list \<Rightarrow> u8 \<Rightarrow> listing \<Rightarrow> listing option" where
  "write_dirent ptr count ino name d_type l =
     (if ls_off l + dirent_len name > count then None
      else Some (l\<lparr>ls_mem := write_slice (ls_mem l) (ptr + of_nat (ls_off l)) (dirent_bytes ino name d_type),
                   ls_off := ls_off l + dirent_len name, ls_pos := ls_pos l + 1\<rparr>))"

text \<open>A child of the directory: skipped if listed by an earlier request; \<open>Inl\<close> ends the listing.\<close>

definition list_child :: "usize \<Rightarrow> nat \<Rightarrow> u64 \<Rightarrow> u8 list \<Rightarrow> u8 \<Rightarrow> listing \<Rightarrow> listing + listing" where
  "list_child ptr count ino name d_type l =
     (if ls_vidx l \<ge> ls_pos l then
        (case write_dirent ptr count ino name d_type l of
           None \<Rightarrow> Inl l
         | Some l' \<Rightarrow> Inr (l'\<lparr>ls_vidx := ls_vidx l + 1\<rparr>))
      else Inr (l\<lparr>ls_vidx := ls_vidx l + 1\<rparr>))"

definition slash :: u8 where "slash = of_char CHR ''/''"

definition child_name :: "u8 list \<Rightarrow> u8 list \<Rightarrow> u8 list option" where
  "child_name dir path =
     (let dl = length dir
      in if dir = str ''/'' then
           (if length path > 1 \<and> path ! 0 = slash \<and> slash \<notin> set (drop 1 path) then Some (drop 1 path) else None)
         else
           (if length path > dl + 1 \<and> starts_with dir path \<and> path ! dl = slash \<and> slash \<notin> set (drop (dl + 1) path)
            then Some (drop (dl + 1) path) else None))"

fun list_paths :: "usize \<Rightarrow> nat \<Rightarrow> nat \<Rightarrow> u8 \<Rightarrow> u8 list \<Rightarrow> u8 list list \<Rightarrow> listing \<Rightarrow> listing + listing" where
  "list_paths ptr count ino0 d_type dir [] l = Inr l"
| "list_paths ptr count ino0 d_type dir (path # paths) l = (case child_name dir path of
       None \<Rightarrow> list_paths ptr count ino0 d_type dir paths l
     | Some name \<Rightarrow> (case list_child ptr count (of_nat (ls_vidx l) + of_nat ino0) name d_type l of
         Inl l' \<Rightarrow> Inl l'
       | Inr l' \<Rightarrow> list_paths ptr count ino0 d_type dir paths l'))"

text \<open>The name of an archive member below the directory.\<close>

definition initrd_child :: "u8 list \<Rightarrow> u8 list \<Rightarrow> u8 list option" where
  "initrd_child dir name_bytes =
     (let match_name = cpio_name name_bytes;
          d1 = strip_prefix (str ''/'') dir;
          match_dir = (if ends_with (str ''/'') d1 then take (length d1 - 1) d1 else d1);
          r = drop (length match_dir + 1) match_name
      in if dir = str ''/'' then
           (if match_name \<noteq> [] \<and> slash \<notin> set match_name \<and> match_name \<noteq> str ''.'' then Some match_name else None)
         else
           (if match_dir \<noteq> [] \<and> starts_with match_dir match_name \<and> length match_name > length match_dir
               \<and> match_name ! length match_dir = slash \<and> r \<noteq> [] \<and> slash \<notin> set r
            then Some r else None))"

definition list_member :: "usize \<Rightarrow> nat \<Rightarrow> u8 list \<Rightarrow> nat \<Rightarrow> nat \<Rightarrow> u8 list \<Rightarrow> listing \<Rightarrow> listing + listing" where
  "list_member ptr count dir off mode name_bytes l = (case initrd_child dir name_bytes of
       Some name \<Rightarrow>
         (if is_duplicated name_bytes then Inr l
          else list_child ptr count (1000 + of_nat off) name
            (if (of_nat mode :: u64) AND 0xF000 = 0x4000 then 4 else 8) l)
     | None \<Rightarrow> Inr l)"

text \<open>
  Lists the members of the archive; \<open>None\<close> is the panic of the slice \<open>name_offset .. name_offset + namesize - 1\<close>
  for an empty name field.
\<close>

function list_initrd :: "usize \<Rightarrow> nat \<Rightarrow> u8 list \<Rightarrow> u8 list \<Rightarrow> nat \<Rightarrow> listing \<Rightarrow> (listing + listing) panicking" where
  "list_initrd ptr count dir d off l =
     (if off + 110 > length d then Some (Inr l)
      else if slice d off (off + 6) \<noteq> CPIO_MAGIC then Some (Inr l)
      else
        let namesize = cpio_namesize d off; filesize = cpio_filesize d off;
            mode = parse_cpio_hex (slice d (off + 14) (off + 22)); name_offset = off + 110
        in if name_offset + namesize > length d then Some (Inr l)
           else if namesize = 0 then None
           else let name_bytes = slice d name_offset (name_offset + namesize - 1)
             in if name_bytes = str ''TRAILER!!!'' then Some (Inr l)
                else let next_offset = align4 (align4 (name_offset + namesize) + filesize);
                         res = list_member ptr count dir off mode name_bytes l
                  in case res of
                       Inl l' \<Rightarrow> Some (Inl l')
                     | Inr l' \<Rightarrow> if next_offset \<le> off then Some (Inr l') else list_initrd ptr count dir d next_offset l')"
  by pat_completeness auto

termination
  by (relation "measure (\<lambda>(ptr, count, dir, d, off, l). length d - off)") (auto simp: not_le)

declare list_initrd.simps [simp del]

text \<open>The two dot entries; \<open>Inl None\<close> leaves the descriptor as it is.\<close>

definition list_dots :: "usize \<Rightarrow> nat \<Rightarrow> listing \<Rightarrow> listing option + listing" where
  "list_dots ptr count l =
     (case (if ls_pos l = 0 then write_dirent ptr count 1 (str ''.'') 4 l else Some l) of
        None \<Rightarrow> Inl None
      | Some l1 \<Rightarrow>
          (case (if ls_pos l1 = 1 then write_dirent ptr count 1 (str ''..'') 4 l1 else Some l1) of
             None \<Rightarrow> Inl (Some l1)
           | Some l2 \<Rightarrow> Inr l2))"

definition list_dir :: "usize \<Rightarrow> nat \<Rightarrow> u8 list \<Rightarrow> u8 list option \<Rightarrow> listing \<Rightarrow> (listing + listing) panicking" where
  "list_dir ptr count dir archive l =
     (case list_paths ptr count 100 4 dir (filter (\<lambda>c. c \<noteq> dir) RAMFS_DIRS) l of
        Inl l1 \<Rightarrow> Some (Inl l1)
      | Inr l1 \<Rightarrow> (case list_paths ptr count 200 8 dir (map fst RAMFS) l1 of
          Inl l2 \<Rightarrow> Some (Inl l2)
        | Inr l2 \<Rightarrow> (case archive of
            None \<Rightarrow> Some (Inr l2)
          | Some d \<Rightarrow>
              (if length d > 6 \<and> take 6 d = CPIO_MAGIC then list_initrd ptr count dir d 0 l2 else Some (Inr l2)))))"

definition either :: "'a + 'a \<Rightarrow> 'a" where
  "either x = (case x of Inl y \<Rightarrow> y | Inr y \<Rightarrow> y)"

definition handle_getdents64 :: "u32 \<Rightarrow> nat \<Rightarrow> usize \<Rightarrow> nat \<Rightarrow> vfs \<Rightarrow> (message \<times> vfs) panicking" where
  "handle_getdents64 p fd ptr count v =
     (if count < 64 then Some (err_reply (- 22), v)
      else case open_fd p fd v of
        None \<Rightarrow> Some (err_reply (- 9), v)
      | Some (i, e) \<Rightarrow> (case vkind e of
          RamFile r start_pos \<Rightarrow>
            (let finish = (\<lambda>l. (val_reply (of_nat (ls_off l)), put_kind i fd (RamFile r (ls_pos l)) (put_ram (ls_mem l) v)))
             in case list_dots ptr count \<lparr>ls_off = 0, ls_pos = start_pos, ls_vidx = 2, ls_mem = vram v\<rparr> of
                  Inl None \<Rightarrow> Some (val_reply 0, v)
                | Inl (Some l) \<Rightarrow> Some (finish l)
                | Inr l \<Rightarrow> do {
                    res \<leftarrow> list_dir ptr count (ram_bytes v r) (initrd_data v) l;
                    Some (finish (either res))
                  })
        | _ \<Rightarrow> Some (err_reply (- 20), v)))"

subsection \<open>Dispatch\<close>

definition VFS_OPEN :: u64 where "VFS_OPEN = 0x10"
definition VFS_READ :: u64 where "VFS_READ = 0x11"
definition VFS_WRITE :: u64 where "VFS_WRITE = 0x12"
definition VFS_CLOSE :: u64 where "VFS_CLOSE = 0x13"
definition VFS_LSEEK :: u64 where "VFS_LSEEK = 0x15"
definition VFS_PIPE :: u64 where "VFS_PIPE = 0x17"
definition VFS_DUP2 :: u64 where "VFS_DUP2 = 0x18"
definition VFS_FCNTL :: u64 where "VFS_FCNTL = 0x19"
definition VFS_FORK_DUP :: u64 where "VFS_FORK_DUP = 0x1A"
definition VFS_EXEC_CLOEXEC :: u64 where "VFS_EXEC_CLOEXEC = 0x1B"
definition VFS_CLOSE_ALL :: u64 where "VFS_CLOSE_ALL = 0x1C"
definition VFS_GETDENTS64 :: u64 where "VFS_GETDENTS64 = 0x1D"
definition VFS_ALLOC_FD :: u64 where "VFS_ALLOC_FD = 0x1E"
definition VFS_UNLINK :: u64 where "VFS_UNLINK = 0x1F"
definition VFS_MKDIR :: u64 where "VFS_MKDIR = 0x20"
definition VFS_FTRUNCATE :: u64 where "VFS_FTRUNCATE = 0x21"
definition VFS_RENAME :: u64 where "VFS_RENAME = 0x22"
definition VFS_FD_PATH :: u64 where "VFS_FD_PATH = 0x23"
definition VFS_EVENTFD :: u64 where "VFS_EVENTFD = 0x24"
definition VFS_TIMERFD_CREATE :: u64 where "VFS_TIMERFD_CREATE = 0x25"
definition VFS_TIMERFD_SETTIME :: u64 where "VFS_TIMERFD_SETTIME = 0x26"
definition VFS_TIMERFD_GETTIME :: u64 where "VFS_TIMERFD_GETTIME = 0x27"
definition VFS_IOCTL :: u64 where "VFS_IOCTL = 0x28"

definition handle :: "vfs_env \<Rightarrow> (ram_ref \<Rightarrow> usize) \<Rightarrow> message \<Rightarrow> u32 \<Rightarrow> vfs \<Rightarrow> (message \<times> vfs) panicking" where
  "handle env addr msg p v =
     (let a = vfs_arg msg; n = (\<lambda>k. unat (vfs_arg msg k)); w = (\<lambda>k. ucast (vfs_arg msg k) :: u32); tag = msg_tag msg
      in if tag = VFS_OPEN then Some (handle_open env p (a 0) (w 1) v)
         else if tag = VFS_READ then handle_read env p (n 0) (a 1) (n 2) v
         else if tag = VFS_WRITE then handle_write p (n 0) (a 1) (n 2) v
         else if tag = VFS_CLOSE then Some (handle_close p (n 0) v)
         else if tag = VFS_LSEEK then Some (handle_lseek p (n 0) (sint (a 1)) (w 2) v)
         else if tag = VFS_PIPE then Some (handle_pipe p (a 0) (a 1) v)
         else if tag = VFS_DUP2 then Some (handle_dup2 p (n 0) (n 1) v)
         else if tag = VFS_FCNTL then Some (handle_fcntl p (n 0) (a 1) (a 2) v)
         else if tag = VFS_FORK_DUP then Some (handle_fork_dup (w 0) (w 1) v)
         else if tag = VFS_EXEC_CLOEXEC then Some (handle_exec_cloexec (w 0) v)
         else if tag = VFS_CLOSE_ALL then Some (handle_close_all (w 0) v)
         else if tag = VFS_GETDENTS64 then handle_getdents64 p (n 0) (a 1) (n 2) v
         else if tag = VFS_ALLOC_FD then Some (handle_alloc_fd p (n 0) v)
         else if tag = VFS_UNLINK then Some (handle_unlink (a 0) v)
         else if tag = VFS_MKDIR then Some (handle_mkdir (a 0) v)
         else if tag = VFS_FTRUNCATE then Some (handle_ftruncate p (n 0) (n 1) v)
         else if tag = VFS_RENAME then Some (handle_rename (a 0) (a 1) v)
         else if tag = VFS_FD_PATH then Some (handle_fd_path addr p (n 0) (a 1) (n 2) v)
         else if tag = VFS_EVENTFD then Some (handle_eventfd p (a 0) v)
         else if tag = VFS_TIMERFD_CREATE then Some (handle_timerfd_create p v)
         else if tag = VFS_TIMERFD_SETTIME then Some (handle_timerfd_settime env p (n 0) (a 1) (a 2) v)
         else if tag = VFS_TIMERFD_GETTIME then Some (handle_timerfd_gettime env p (n 0) (a 1) v)
         else if tag = VFS_IOCTL then Some (handle_ioctl p (n 0) (a 1) (a 2) v)
         else Some (err_reply (- 38), v))"

lemmas vfs_tags = VFS_OPEN_def VFS_READ_def VFS_WRITE_def VFS_CLOSE_def VFS_LSEEK_def VFS_PIPE_def VFS_DUP2_def VFS_FCNTL_def VFS_FORK_DUP_def VFS_EXEC_CLOEXEC_def VFS_CLOSE_ALL_def VFS_GETDENTS64_def VFS_ALLOC_FD_def VFS_UNLINK_def VFS_MKDIR_def VFS_FTRUNCATE_def VFS_RENAME_def VFS_FD_PATH_def VFS_EVENTFD_def VFS_TIMERFD_CREATE_def VFS_TIMERFD_SETTIME_def VFS_TIMERFD_GETTIME_def VFS_IOCTL_def

end
