(* ===== verification/Vfs_Pipe.thy ===== *)
theory Vfs_Pipe
  imports Vfs_Server
begin

text \<open>
  Requests and replies, and the pipes: a pipe is a bounded first-in first-out queue of 4096 bytes, and what
  readers receive is what writers were told was accepted, in order.
\<close>

subsection \<open>Arguments and replies\<close>

lemma bit_le_word: "bit (le_word bs) i \<longleftrightarrow> i < 64 \<and> i < 8 * length bs \<and> bit (bs ! (i div 8)) (i mod 8)"
proof (induction bs arbitrary: i)
  case (Cons b bs)
  show ?case
  proof (cases "i < 8")
    case True
    then show ?thesis by (simp add: bit_or_iff bit_unsigned_iff bit_push_bit_iff)
  next
    case False
    then have "i div 8 = Suc ((i - 8) div 8)" "i mod 8 = (i - 8) mod 8"
      by (simp_all add: le_div_geq le_mod_geq)
    then show ?thesis
      using Cons[of "i - 8"] False bit_imp_le_length[of b i]
      by (auto simp: bit_or_iff bit_unsigned_iff bit_push_bit_iff)
  qed
qed simp

lemma length_to_le_bytes [simp]: "length (to_le_bytes v) = 8"
  by (simp add: to_le_bytes_def)

lemma le_word_to_le_bytes [simp]: "le_word (to_le_bytes v) = v"
proof (rule bit_word_eqI)
  fix i assume i: "i < LENGTH(64)"
  then have "i div 8 < 8" by simp
  then have "to_le_bytes v ! (i div 8) = byte_of v (i div 8)" by (simp add: to_le_bytes_def)
  then show "bit (le_word (to_le_bytes v)) i = bit v i"
    using i by (simp add: bit_le_word byte_of_def bit_unsigned_iff bit_drop_bit_eq)
qed

lemma reply_arg [simp]: "vfs_arg (make_reply v) 0 = of_int v"
  by (simp add: vfs_arg_def make_reply_def)

lemma val_reply_arg [simp]: "vfs_arg (val_reply v) 0 = v"
  by (simp add: val_reply_def)

lemma val_reply_inj [simp]: "val_reply v = val_reply w \<longleftrightarrow> v = w"
  by (metis val_reply_arg)

subsection \<open>Slices of memory\<close>

lemma length_read_slice [simp]: "length (read_slice m p n) = n"
  by (simp add: read_slice_def)

lemma read_slice_nth [simp]: "i < n \<Longrightarrow> read_slice m p n ! i = m (p + of_nat i)"
  by (simp add: read_slice_def)

lemma read_slice_0 [simp]: "read_slice m p 0 = []"
  by (simp add: read_slice_def)

lemma unat_of_nat_lt: "i < 18446744073709551616 \<Longrightarrow> unat (of_nat i :: 64 word) = i"
  by (simp add: unsigned_of_nat take_bit_nat_eq_self)

lemma read_write_slice [simp]:
  assumes "length bs \<le> 18446744073709551616"
  shows "read_slice (write_slice m p bs) p (length bs) = bs"
  by (rule nth_equalityI) (use assms in \<open>simp_all add: write_slice_def unat_of_nat_lt\<close>)

lemma take_read_slice: "k \<le> n \<Longrightarrow> take k (read_slice m p n) = read_slice m p k"
  by (simp add: read_slice_def take_map)

subsection \<open>The ring\<close>

definition pipe_ok :: "pipe_ring \<Rightarrow> bool" where
  "pipe_ok r \<longleftrightarrow> length (p_buf r) = PIPE_RING_SIZE \<and> read_pos r < PIPE_RING_SIZE \<and> p_count r \<le> PIPE_RING_SIZE
     \<and> write_pos r = (read_pos r + p_count r) mod PIPE_RING_SIZE"

definition pipe_items :: "pipe_ring \<Rightarrow> u8 list" where
  "pipe_items r = map (\<lambda>k. p_buf r ! ((read_pos r + k) mod PIPE_RING_SIZE)) [0..<p_count r]"

lemma length_pipe_items [simp]: "length (pipe_items r) = p_count r"
  by (simp add: pipe_items_def)

lemma pipe_slot_other:
  assumes "j < c" "c < n" "(rp + j) mod n = (rp + c) mod (n::nat)"
  shows False
proof -
  have "(rp + c) mod n = (rp + j) mod n" using assms by simp
  then have "n dvd (rp + c) - (rp + j)" by (metis mod_eq_dvd_iff_nat assms(1) add_le_cancel_left less_imp_le_nat)
  then have "n dvd c - j" by simp
  then show False using assms by (auto dest!: dvd_imp_le)
qed

lemma pipe_put_items:
  assumes "pipe_ok r" "p_count r < PIPE_RING_SIZE"
  shows "fst (pipe_put b r)" "pipe_items (snd (pipe_put b r)) = pipe_items r @ [b]" "pipe_ok (snd (pipe_put b r))"
proof -
  let ?n = PIPE_RING_SIZE
  let ?w = "write_pos r"
  have w: "?w = (read_pos r + p_count r) mod ?n" "?w < length (p_buf r)"
    using assms by (auto simp: pipe_ok_def PIPE_RING_SIZE_def)
  show "fst (pipe_put b r)" using assms by (simp add: pipe_put_def)
  have "(p_buf r)[?w := b] ! ((read_pos r + k) mod ?n) = (if k = p_count r then b else p_buf r ! ((read_pos r + k) mod ?n))"
    if "k \<le> p_count r" for k
    using that w pipe_slot_other[of k "p_count r" ?n "read_pos r"] assms(2) by (auto simp: nth_list_update)
  then show "pipe_items (snd (pipe_put b r)) = pipe_items r @ [b]"
    using assms(2) by (simp add: pipe_put_def pipe_items_def)
  show "pipe_ok (snd (pipe_put b r))"
    using assms w by (simp add: pipe_put_def pipe_ok_def mod_Suc_eq)
qed

lemma pipe_get_items:
  assumes "pipe_ok r" "p_count r \<noteq> 0"
  shows "\<exists>b. fst (pipe_get r) = Some b \<and> pipe_items r = b # pipe_items (snd (pipe_get r))" "pipe_ok (snd (pipe_get r))"
proof -
  let ?n = PIPE_RING_SIZE
  obtain c where c: "p_count r = Suc c" using assms(2) by (cases "p_count r") auto
  have rp: "read_pos r mod ?n = read_pos r" using assms(1) by (simp add: pipe_ok_def)
  have "pipe_items r = p_buf r ! read_pos r # map (\<lambda>k. p_buf r ! ((read_pos r + Suc k) mod ?n)) [0..<c]"
    unfolding pipe_items_def c by (simp only: map_upt_Suc) (simp add: rp)
  moreover have "(read_pos r + Suc k) mod ?n = (Suc (read_pos r) mod ?n + k) mod ?n" for k
    by (simp add: mod_add_left_eq)
  ultimately show "\<exists>b. fst (pipe_get r) = Some b \<and> pipe_items r = b # pipe_items (snd (pipe_get r))"
    using c by (simp add: pipe_get_def pipe_items_def)
  show "pipe_ok (snd (pipe_get r))"
    using assms c by (simp add: pipe_get_def pipe_ok_def mod_add_left_eq)
qed

interpretation pipe: bounded_fifo pipe_put pipe_get pipe_items pipe_ok "\<lambda>_. PIPE_RING_SIZE"
proof (unfold_locales, goal_cases)
  case (1 r b) then show ?case using pipe_put_items[of r b] by simp
next
  case (2 r b) then show ?case by (simp add: pipe_put_def)
next
  case (3 r) then show ?case using length_pipe_items[of r] by (simp add: pipe_get_def)
next
  case (4 r b bs)
  then have "p_count r \<noteq> 0" using length_pipe_items[of r] by auto
  then show ?case using pipe_get_items[of r] 4 by auto
next
  case (5 r b)
  then show ?case
    using pipe_put_items(3)[of r b] by (cases "p_count r < PIPE_RING_SIZE") (auto simp: pipe_put_def)
next
  case (6 r)
  then show ?case using pipe_get_items(2)[of r] by (cases "p_count r = 0") (auto simp: pipe_get_def)
next
  case (7 r) then show ?case by (simp add: pipe_ok_def)
qed

lemma pipe_new_ok: "pipe_ok pipe_new" "pipe_items pipe_new = []"
  by (simp_all add: pipe_ok_def pipe_items_def pipe_new_def PIPE_RING_SIZE_def)

lemma pipe_put_ends [simp]:
  "read_open (snd (pipe_put b r)) = read_open r" "write_open (snd (pipe_put b r)) = write_open r"
  by (simp_all add: pipe_put_def)

lemma pipe_get_ends [simp]:
  "read_open (snd (pipe_get r)) = read_open r" "write_open (snd (pipe_get r)) = write_open r"
  by (simp_all add: pipe_get_def)

text \<open>A write stores the longest prefix there is room for, a read takes the oldest bytes.\<close>

lemma pipe_write_loop_spec:
  assumes "pipe_ok r" "pipe_write_loop bs r = (n, r')"
  shows "n = min (length bs) (PIPE_RING_SIZE - p_count r) \<and> pipe_items r' = pipe_items r @ take n bs \<and> pipe_ok r'
    \<and> read_open r' = read_open r \<and> write_open r' = write_open r"
  using assms
proof (induction bs arbitrary: r n r')
  case (Cons b bs)
  show ?case
  proof (cases "p_count r < PIPE_RING_SIZE")
    case True
    obtain r1 where put: "pipe_put b r = (True, r1)" using pipe_put_items(1)[OF Cons.prems(1) True, of b]
      by (metis prod.collapse)
    note s = pipe_put_items(2,3)[OF Cons.prems(1) True, of b]
    obtain k r2 where l: "pipe_write_loop bs r1 = (k, r2)" by fastforce
    have "p_count r1 = Suc (p_count r)" using arg_cong[OF s(1), of length] put by simp
    moreover have "read_open r1 = read_open r" "write_open r1 = write_open r"
      using pipe_put_ends[of b r] put by simp_all
    ultimately show ?thesis
      using Cons.IH[OF _ l] Cons.prems(2) s put l True by (auto simp: min_def)
  next
    case False
    then show ?thesis using Cons.prems by (auto simp: pipe_put_def)
  qed
qed auto

lemma pipe_read_loop_spec:
  assumes "pipe_ok r" "pipe_read_loop k r = (bs, r')"
  shows "length bs = min k (p_count r) \<and> pipe_items r = bs @ pipe_items r' \<and> pipe_ok r'
    \<and> read_open r' = read_open r \<and> write_open r' = write_open r"
  using assms
proof (induction k arbitrary: r bs r')
  case (Suc k)
  show ?case
  proof (cases "p_count r = 0")
    case True
    then show ?thesis using Suc.prems by (auto simp: pipe_get_def)
  next
    case False
    obtain b r1 where get: "pipe_get r = (Some b, r1)" and it: "pipe_items r = b # pipe_items r1"
      using pipe_get_items(1)[OF Suc.prems(1) False] by (metis prod.collapse)
    have ok: "pipe_ok r1" using pipe_get_items(2)[OF Suc.prems(1) False] get by simp
    obtain cs r2 where l: "pipe_read_loop k r1 = (cs, r2)" by fastforce
    have "p_count r = Suc (p_count r1)" using arg_cong[OF it, of length] by simp
    moreover have "read_open r1 = read_open r" "write_open r1 = write_open r"
      using pipe_get_ends[of r] get by simp_all
    ultimately show ?thesis
      using Suc.IH[OF ok l] Suc.prems(2) it get l by auto
  qed
qed auto

subsection \<open>Requests on a pipe\<close>

text \<open>The number of bytes a reply reports; an error moved none.\<close>

definition moved :: "message \<Rightarrow> nat" where
  "moved r = (if sint (vfs_arg r 0) < 0 then 0 else unat (vfs_arg r 0))"

lemma moved_val [simp]: "n < 2 ^ 63 \<Longrightarrow> moved (val_reply (of_nat n)) = n"
  by (simp add: moved_def unat_of_nat_lt signed_of_nat signed_take_bit_int_eq_self)

lemma moved_0 [simp]: "moved (val_reply 0) = 0"
  using moved_val[of 0] by simp

lemma moved_err [simp]: "moved (err_reply (- 32)) = 0" "moved (err_reply (- 11)) = 0"
  by (simp_all add: moved_def err_reply_def)

lemma put_ram_fields [simp]:
  "fd_tables (put_ram m v) = fd_tables v" "pipe_rings (put_ram m v) = pipe_rings v"
  "tmp_files (put_ram m v) = tmp_files v" "eventfds (put_ram m v) = eventfds v" "timers (put_ram m v) = timers v"
  "vram (put_ram m v) = m"
  by (simp_all add: put_ram_def)

lemma put_ring_fields [simp]:
  "fd_tables (put_ring j r v) = fd_tables v" "vmm (put_ring j r v) = vmm v"
  "pipe_rings (put_ring j r v) = (pipe_rings v)[j := r]"
  "tmp_files (put_ring j r v) = tmp_files v" "eventfds (put_ring j r v) = eventfds v" "timers (put_ring j r v) = timers v"
  by (simp_all add: put_ring_def)

lemma open_fd_cong: "fd_tables v' = fd_tables v \<Longrightarrow> open_fd p fd v' = open_fd p fd v"
  by (simp only: open_fd_def find_tbl_def tbl_idx_def)

text \<open>A request on anything but a \<open>/dev/std*\<close> descriptor.\<close>

definition is_stdio :: "vnode_kind \<Rightarrow> bool" where
  "is_stdio k = (case k of DevStdio _ \<Rightarrow> True | _ \<Rightarrow> False)"

lemma handle_read_node:
  assumes "count \<noteq> 0" "open_fd p fd v = Some (i, e)" "\<not> is_stdio (vkind e)"
  shows "handle_read env p fd ptr count v = Some (read_node env p i fd (vkind e) ptr count v)"
  by (subst handle_read.simps) (use assms in \<open>simp add: is_stdio_def split: vnode_kind.splits\<close>)

lemma handle_write_node:
  assumes "count \<noteq> 0" "open_fd p fd v = Some (i, e)" "\<not> is_stdio (vkind e)"
  shows "handle_write p fd ptr count v = Some (write_node p i fd e ptr count v)"
  by (subst handle_write.simps) (use assms in \<open>simp add: is_stdio_def split: vnode_kind.splits\<close>)

lemma handle_read_0 [simp]: "handle_read env p fd ptr 0 v = Some (val_reply 0, v)"
  by (subst handle_read.simps) simp

lemma handle_write_0 [simp]: "handle_write p fd ptr 0 v = Some (val_reply 0, v)"
  by (subst handle_write.simps) simp

definition opens_pipe :: "u32 \<Rightarrow> nat \<Rightarrow> nat \<Rightarrow> bool \<Rightarrow> vfs \<Rightarrow> bool" where
  "opens_pipe p fd ring w v = (case open_fd p fd v of None \<Rightarrow> False | Some (i, e) \<Rightarrow> vkind e = Pipe ring w)"

lemma opens_pipe_cong: "fd_tables v' = fd_tables v \<Longrightarrow> opens_pipe p fd ring w v' = opens_pipe p fd ring w v"
  unfolding opens_pipe_def by (drule open_fd_cong[of _ _ p fd]) (simp only:)

lemma write_to_pipe:
  assumes "opens_pipe p fd ring True v" "ring < length (pipe_rings v)" "pipe_ok (pipe_rings v ! ring)"
  obtains r v' where "handle_write p fd ptr count v = Some (r, v')" "fd_tables v' = fd_tables v"
    "length (pipe_rings v') = length (pipe_rings v)" "pipe_ok (pipe_rings v' ! ring)"
    "pipe_items (pipe_rings v' ! ring) = pipe_items (pipe_rings v ! ring) @ read_slice (vram v) ptr (moved r)"
proof (cases "count = 0 \<or> \<not> read_open (pipe_rings v ! ring)")
  case True
  obtain i e where "open_fd p fd v = Some (i, e)" "vkind e = Pipe ring True"
    using assms(1) by (auto simp: opens_pipe_def split: option.splits)
  then have "handle_write p fd ptr count v = Some (if count = 0 then val_reply 0 else err_reply (- 32), v)"
    using True handle_write_node[of count p fd v i e ptr] by (auto simp: write_node_def write_pipe_def is_stdio_def)
  then show ?thesis using that assms by simp
next
  case False
  obtain i e where o: "open_fd p fd v = Some (i, e)" "vkind e = Pipe ring True"
    using assms(1) by (auto simp: opens_pipe_def split: option.splits)
  obtain n q where l: "pipe_write_loop (read_slice (vram v) ptr count) (pipe_rings v ! ring) = (n, q)" by fastforce
  note s = pipe_write_loop_spec[OF assms(3) l]
  have n: "n \<le> 4096" "n \<le> count" using s by (auto simp: PIPE_RING_SIZE_def)
  have "handle_write p fd ptr count v = Some (val_reply (of_nat n), put_ring ring q v)"
    using False o l handle_write_node[of count p fd v i e ptr] by (simp add: write_node_def write_pipe_def is_stdio_def)
  then show ?thesis using that[of "val_reply (of_nat n)" "put_ring ring q v"] s n assms(2) by (simp add: take_read_slice)
qed

lemma read_from_pipe:
  assumes "opens_pipe p fd ring False v" "ring < length (pipe_rings v)" "pipe_ok (pipe_rings v ! ring)"
  obtains r v' where "handle_read env p fd ptr count v = Some (r, v')" "fd_tables v' = fd_tables v"
    "length (pipe_rings v') = length (pipe_rings v)" "pipe_ok (pipe_rings v' ! ring)"
    "pipe_items (pipe_rings v ! ring) = read_slice (vram v') ptr (moved r) @ pipe_items (pipe_rings v' ! ring)"
proof (cases "count = 0 \<or> p_count (pipe_rings v ! ring) = 0")
  case True
  obtain i e where "open_fd p fd v = Some (i, e)" "vkind e = Pipe ring False"
    using assms(1) by (auto simp: opens_pipe_def split: option.splits)
  then have "handle_read env p fd ptr count v = Some (if count = 0 then val_reply 0
      else if write_open (pipe_rings v ! ring) then err_reply (- 11) else val_reply 0, v)"
    using True handle_read_node[of count p fd v i e env ptr] by (auto simp: read_node_def read_pipe_def is_stdio_def)
  then show ?thesis using that assms by simp
next
  case False
  obtain i e where o: "open_fd p fd v = Some (i, e)" "vkind e = Pipe ring False"
    using assms(1) by (auto simp: opens_pipe_def split: option.splits)
  obtain bs q where l: "pipe_read_loop (min count 4096) (pipe_rings v ! ring) = (bs, q)" by fastforce
  note s = pipe_read_loop_spec[OF assms(3) l]
  let ?v = "put_ring ring q (put_ram (write_slice (vram v) ptr bs) v)"
  have "handle_read env p fd ptr count v = Some (val_reply (of_nat (length bs)), ?v)"
    using False o l handle_read_node[of count p fd v i e env ptr] by (simp add: read_node_def read_pipe_def is_stdio_def)
  moreover have "length bs \<le> 4096" using s by simp
  ultimately show ?thesis
    using that[of "val_reply (of_nat (length bs))" ?v] s assms(2) read_write_slice[of bs "vram v" ptr] by simp
qed

text \<open>
  A run of requests \<open>(write?, process, descriptor, buffer, count)\<close>: the bytes reported as written, the bytes
  found in the buffers of the readers, and the final state.
\<close>

fun pipe_session ::
  "vfs_env \<Rightarrow> (bool \<times> u32 \<times> nat \<times> usize \<times> nat) list \<Rightarrow> vfs \<Rightarrow> (u8 list \<times> u8 list \<times> vfs) option" where
  "pipe_session env [] v = Some ([], [], v)"
| "pipe_session env ((w, p, fd, ptr, count) # reqs) v = do {
     (r, v1) \<leftarrow> (if w then handle_write p fd ptr count v else handle_read env p fd ptr count v);
     (accepted, delivered, v2) \<leftarrow> pipe_session env reqs v1;
     Some (if w then (read_slice (vram v) ptr (moved r) @ accepted, delivered, v2)
           else (accepted, read_slice (vram v1) ptr (moved r) @ delivered, v2)) }"

text \<open>
  C14. Any sequence of read and write requests, by any processes, on descriptors of one pipe returns; the
  bytes the readers find in their buffers are those the writers were told were accepted, after what was in the
  pipe before, none lost, repeated or reordered, and what has not been read yet is still in the pipe.
\<close>

theorem pipe_delivers_in_order:
  assumes "ring < length (pipe_rings v)" "pipe_ok (pipe_rings v ! ring)"
    "\<forall>(w, p, fd, ptr, count) \<in> set reqs. opens_pipe p fd ring w v"
  shows "\<exists>accepted delivered v'. pipe_session env reqs v = Some (accepted, delivered, v')
    \<and> pipe_items (pipe_rings v ! ring) @ accepted = delivered @ pipe_items (pipe_rings v' ! ring)
    \<and> pipe_ok (pipe_rings v' ! ring)"
  using assms
proof (induction reqs arbitrary: v)
  case (Cons req reqs)
  obtain w p fd ptr count where req: "req = (w, p, fd, ptr, count)" by (metis prod_cases5)
  have o: "opens_pipe p fd ring w v" using Cons.prems(3) req by auto
  have rest: "\<forall>(w, p, fd, ptr, count) \<in> set reqs. opens_pipe p fd ring w v'" if "fd_tables v' = fd_tables v" for v'
    using Cons.prems(3) that by (auto simp: opens_pipe_cong[OF that])
  show ?case
  proof (cases w)
    case True
    then have eq: "w = True" by simp
    obtain r v1 where s: "handle_write p fd ptr count v = Some (r, v1)" "fd_tables v1 = fd_tables v"
      "length (pipe_rings v1) = length (pipe_rings v)" "pipe_ok (pipe_rings v1 ! ring)"
      "pipe_items (pipe_rings v1 ! ring) = pipe_items (pipe_rings v ! ring) @ read_slice (vram v) ptr (moved r)"
      by (rule write_to_pipe[OF o[unfolded eq] Cons.prems(1,2)]) (rule that)
    obtain a d v2 where "pipe_session env reqs v1 = Some (a, d, v2)"
      "pipe_items (pipe_rings v1 ! ring) @ a = d @ pipe_items (pipe_rings v2 ! ring)" "pipe_ok (pipe_rings v2 ! ring)"
      using Cons.IH[OF _ s(4) rest[OF s(2)]] s(3) Cons.prems(1) by auto
    then show ?thesis using req eq s by simp
  next
    case False
    then have eq: "w = False" by simp
    obtain r v1 where s: "handle_read env p fd ptr count v = Some (r, v1)" "fd_tables v1 = fd_tables v"
      "length (pipe_rings v1) = length (pipe_rings v)" "pipe_ok (pipe_rings v1 ! ring)"
      "pipe_items (pipe_rings v ! ring) = read_slice (vram v1) ptr (moved r) @ pipe_items (pipe_rings v1 ! ring)"
      by (rule read_from_pipe[OF o[unfolded eq] Cons.prems(1,2)]) (rule that)
    obtain a d v2 where "pipe_session env reqs v1 = Some (a, d, v2)"
      "pipe_items (pipe_rings v1 ! ring) @ a = d @ pipe_items (pipe_rings v2 ! ring)" "pipe_ok (pipe_rings v2 ! ring)"
      using Cons.IH[OF _ s(4) rest[OF s(2)]] s(3) Cons.prems(1) by auto
    then show ?thesis using req eq s by simp
  qed
qed simp

text \<open>A process with the two ends of a pipe in descriptors 0 and 1.\<close>

definition demo_vfs :: vfs where
  "demo_vfs = (vfs_statics \<lparr>frames = buddy_new, ram = (\<lambda>x. ucast x), hhdm_off = 0, shootdowns = 0\<rparr>)\<lparr>
     pipe_rings := replicate 16 (pipe_new\<lparr>read_open := True, write_open := True\<rparr>),
     fd_tables := [\<lparr>tbl_pid = 1, fds = pipe_entry 0 False # pipe_entry 0 True # replicate 62 fd_empty, tbl_in_use = True\<rparr>]\<rparr>"

lemma demo_vfs_pipes: "length (pipe_rings demo_vfs) = 16" "pipe_ok (pipe_rings demo_vfs ! 0)"
  using pipe_new_ok(1) by (simp_all add: demo_vfs_def vfs_statics_def pipe_ok_def)

theorem pipe_delivers_in_order_witness:
  "0 < length (pipe_rings demo_vfs) \<and> pipe_ok (pipe_rings demo_vfs ! 0)
   \<and> opens_pipe 1 1 0 True demo_vfs \<and> opens_pipe 1 0 0 False demo_vfs
   \<and> (\<exists>accepted delivered v'.
        pipe_session \<lparr>now = 0, cur_pid = 1, cur_ppid = 0, cur_pgid = 1\<rparr>
          [(True, 1, 1, 0x1000, 3), (False, 1, 0, 0x2000, 2)] demo_vfs = Some (accepted, delivered, v')
        \<and> pipe_items (pipe_rings demo_vfs ! 0) @ accepted = delivered @ pipe_items (pipe_rings v' ! 0)
        \<and> pipe_ok (pipe_rings v' ! 0))"
proof -
  have o: "opens_pipe 1 1 0 True demo_vfs" "opens_pipe 1 0 0 False demo_vfs"
    by (simp_all add: opens_pipe_def open_fd_def find_tbl_def tbl_idx_def demo_vfs_def pipe_entry_def MAX_FDS_def)
  show ?thesis
    using pipe_delivers_in_order[of 0 demo_vfs "[(True, 1, 1, 0x1000, 3), (False, 1, 0, 0x2000, 2)]"
        "\<lparr>now = 0, cur_pid = 1, cur_ppid = 0, cur_pgid = 1\<rparr>"] o demo_vfs_pipes
    by simp
qed

end
