(* ===== verification/Vfs_Inv.thy ===== *)
theory Vfs_Inv
  imports Vfs_Pipe
begin

text \<open>
  The invariant of the file server: every table keeps its size, every stored length and position is within
  its buffer, and every descriptor refers to an existing entry, so that no handler indexes out of range.
\<close>

named_theorems vfs_keeps

definition tmp_ok :: "tmp_entry \<Rightarrow> bool" where
  "tmp_ok e \<longleftrightarrow> length (t_path e) = MAX_TMP_PATH \<and> t_path_len e < MAX_TMP_PATH
     \<and> length (t_data e) = MAX_TMP_SIZE \<and> t_len e \<le> MAX_TMP_SIZE"

definition ref_ok :: "ram_ref \<Rightarrow> bool" where
  "ref_ok r = (case r of RamIdx i \<Rightarrow> i < length RAMFS | DirIdx i \<Rightarrow> i < length RAMFS_DIRS | _ \<Rightarrow> True)"

definition kind_ok :: "vnode_kind \<Rightarrow> bool" where
  "kind_ok k = (case k of
       RamFile r _ \<Rightarrow> ref_ok r
     | Pipe ring _ \<Rightarrow> ring < MAX_PIPES
     | TmpFile idx _ _ \<Rightarrow> idx < MAX_TMP_FILES
     | EventFd slot \<Rightarrow> slot < MAX_EVENTFDS
     | TimerFd slot \<Rightarrow> slot < MAX_TIMERFDS
     | DevStdio t \<Rightarrow> t < 3
     | _ \<Rightarrow> True)"

definition table_ok :: "fd_table \<Rightarrow> bool" where
  "table_ok t \<longleftrightarrow> length (fds t) = MAX_FDS \<and> (\<forall>e \<in> set (fds t). kind_ok (vkind e))"

definition vfs_inv :: "vfs \<Rightarrow> bool" where
  "vfs_inv v \<longleftrightarrow> length (tmp_files v) = MAX_TMP_FILES \<and> (\<forall>e \<in> set (tmp_files v). tmp_ok e)
     \<and> length (pipe_rings v) = MAX_PIPES \<and> (\<forall>r \<in> set (pipe_rings v). pipe_ok r)
     \<and> length (eventfds v) = MAX_EVENTFDS \<and> length (timers v) = MAX_TIMERFDS
     \<and> length (fd_tables v) = MAX_PROCS \<and> (\<forall>t \<in> set (fd_tables v). table_ok t)"

lemma length_str [simp]: "length (str s) = length s"
  by (simp add: str_def)

lemma kind_ok_simps [simp]:
  "kind_ok VNone" "kind_ok DevNull" "kind_ok DevZero" "kind_ok DevUrandom" "kind_ok (DevFb n)"
  "kind_ok (RamFile r n) = ref_ok r" "kind_ok (Pipe ring w) = (ring < MAX_PIPES)" "kind_ok (TmpFile idx n w) = (idx < MAX_TMP_FILES)"
  "kind_ok (EventFd slot) = (slot < MAX_EVENTFDS)" "kind_ok (TimerFd slot) = (slot < MAX_TIMERFDS)" "kind_ok (DevStdio t) = (t < 3)"
  by (simp_all add: kind_ok_def)

lemma kind_ok_empty [simp]: "kind_ok (vkind fd_empty)"
  by (simp add: fd_empty_def)

lemma table_ok_empty [simp]:
  "table_ok (fd_table_empty\<lparr>tbl_in_use := u, tbl_pid := p\<rparr>)" "table_ok fd_table_empty"
  by (simp_all add: table_ok_def fd_table_empty_def)

lemma tmp_ok_empty [simp]: "tmp_ok (tmp_empty\<lparr>t_in_use := u, t_is_dir := d\<rparr>)" "tmp_ok tmp_empty"
  by (simp_all add: tmp_ok_def tmp_empty_def MAX_TMP_PATH_def)

lemma length_copy_at: "off + length src \<le> length dst \<Longrightarrow> length (copy_at off src dst) = length dst"
  by (simp add: copy_at_def)

lemma tmp_ok_set_path [simp]: "tmp_ok e \<Longrightarrow> tmp_ok (set_path path e)"
  by (simp add: tmp_ok_def set_path_def Let_def length_copy_at MAX_TMP_PATH_def)

lemma tmp_ok_new [simp]: "tmp_ok (new_tmp path d)"
  by (simp add: new_tmp_def)

subsection \<open>Updates\<close>

lemma inv_tmp: "vfs_inv v \<Longrightarrow> i < MAX_TMP_FILES \<Longrightarrow> tmp_ok (tmp_files v ! i)"
  by (simp add: vfs_inv_def)

lemma inv_ring: "vfs_inv v \<Longrightarrow> i < MAX_PIPES \<Longrightarrow> pipe_ok (pipe_rings v ! i)"
  by (simp add: vfs_inv_def)

lemma inv_table: "vfs_inv v \<Longrightarrow> i < MAX_PROCS \<Longrightarrow> table_ok (fd_tables v ! i)"
  by (simp add: vfs_inv_def)

lemma inv_put_tmp [vfs_keeps]: "vfs_inv v \<Longrightarrow> tmp_ok e \<Longrightarrow> vfs_inv (put_tmp i e v)"
  by (auto simp: vfs_inv_def put_tmp_def dest: set_update_subset_insert[THEN subsetD])

lemma inv_put_ring [vfs_keeps]: "vfs_inv v \<Longrightarrow> pipe_ok r \<Longrightarrow> vfs_inv (put_ring i r v)"
  by (auto simp: vfs_inv_def dest: set_update_subset_insert[THEN subsetD])

lemma inv_put_ram [vfs_keeps]: "vfs_inv (put_ram m v) \<longleftrightarrow> vfs_inv v"
  by (simp add: vfs_inv_def)

lemma inv_put_table: "vfs_inv v \<Longrightarrow> table_ok t \<Longrightarrow> vfs_inv (v\<lparr>fd_tables := (fd_tables v)[i := t]\<rparr>)"
  by (auto simp: vfs_inv_def dest: set_update_subset_insert[THEN subsetD])

lemma inv_others [simp]:
  "vfs_inv (v\<lparr>eventfds := (eventfds w)[i := c]\<rparr>) \<longleftrightarrow> vfs_inv (v\<lparr>eventfds := eventfds w\<rparr>)"
  "vfs_inv (v\<lparr>timers := (timers w)[i := t]\<rparr>) \<longleftrightarrow> vfs_inv (v\<lparr>timers := timers w\<rparr>)"
  "vfs_inv (v\<lparr>lfsr_state := s\<rparr>) \<longleftrightarrow> vfs_inv v"
  by (simp_all add: vfs_inv_def)

lemma inv_self [simp]: "v\<lparr>eventfds := eventfds v\<rparr> = v" "v\<lparr>timers := timers v\<rparr> = v"
  by simp_all

lemma table_ok_update: "table_ok t \<Longrightarrow> kind_ok (vkind e) \<Longrightarrow> table_ok (t\<lparr>fds := (fds t)[fd := e]\<rparr>)"
  by (auto simp: table_ok_def dest: set_update_subset_insert[THEN subsetD])

lemma inv_put_fd [vfs_keeps]: "vfs_inv v \<Longrightarrow> i < MAX_PROCS \<Longrightarrow> kind_ok (vkind e) \<Longrightarrow> vfs_inv (put_fd i fd e v)"
  unfolding put_fd_def by (rule inv_put_table) (auto intro: table_ok_update inv_table)

lemma inv_put_kind [vfs_keeps]: "vfs_inv v \<Longrightarrow> i < MAX_PROCS \<Longrightarrow> kind_ok k \<Longrightarrow> vfs_inv (put_kind i fd k v)"
  by (simp add: put_kind_def inv_put_fd)

lemma put_fd_fields [simp]:
  "tmp_files (put_fd i fd e v) = tmp_files v" "pipe_rings (put_fd i fd e v) = pipe_rings v"
  "eventfds (put_fd i fd e v) = eventfds v" "timers (put_fd i fd e v) = timers v" "vmm (put_fd i fd e v) = vmm v"
  by (simp_all add: put_fd_def)

lemma put_kind_fields [simp]:
  "tmp_files (put_kind i fd k v) = tmp_files v" "pipe_rings (put_kind i fd k v) = pipe_rings v"
  "eventfds (put_kind i fd k v) = eventfds v" "timers (put_kind i fd k v) = timers v" "vmm (put_kind i fd k v) = vmm v"
  by (simp_all add: put_kind_def)

lemma put_tmp_fields [simp]:
  "fd_tables (put_tmp i e v) = fd_tables v" "tmp_files (put_tmp i e v) = (tmp_files v)[i := e]" "vmm (put_tmp i e v) = vmm v"
  by (simp_all add: put_tmp_def)

subsection \<open>Lookups\<close>

lemma find_tbl_lt: "vfs_inv v \<Longrightarrow> find_tbl p v = Some i \<Longrightarrow> i < MAX_PROCS"
  by (auto simp: find_tbl_def tbl_idx_def vfs_inv_def dest: position_SomeD)

lemma open_fdD:
  assumes "vfs_inv v" "open_fd p fd v = Some (i, e)"
  shows "i < MAX_PROCS" "fd < MAX_FDS" "e = fds (fd_tables v ! i) ! fd" "fd_in_use e" "kind_ok (vkind e)"
proof -
  show i: "i < MAX_PROCS" "fd < MAX_FDS" "e = fds (fd_tables v ! i) ! fd" "fd_in_use e"
    using assms find_tbl_lt[OF assms(1)] by (auto simp: open_fd_def split: option.splits if_splits)
  show "kind_ok (vkind e)" using inv_table[OF assms(1) i(1)] i by (simp add: table_ok_def)
qed

lemma inv_get_or_create:
  assumes "vfs_inv v" "get_or_create p v = (r, v')"
  shows "vfs_inv v'" "r = Some i \<Longrightarrow> i < MAX_PROCS"
proof -
  have n: "length (fd_tables v) = MAX_PROCS" using assms(1) by (simp add: vfs_inv_def)
  show "vfs_inv v'"
    using assms by (auto simp: get_or_create_def intro!: inv_put_table split: option.splits)
  show "i < MAX_PROCS" if "r = Some i"
    using assms(2) that n by (auto simp: get_or_create_def tbl_idx_def split: option.splits dest: position_SomeD)
qed

lemma inv_install_fd:
  assumes "vfs_inv v" "kind_ok (vkind e)" "install_fd p e v = (r, v')"
  shows "vfs_inv v'"
proof -
  obtain o1 v1 where g: "get_or_create p v = (o1, v1)" by fastforce
  note s = inv_get_or_create[OF assms(1) g]
  show ?thesis
    using assms s by (auto simp: install_fd_def g intro: inv_put_fd split: option.splits)
qed

lemma inv_set_tmp_pos [vfs_keeps]: "vfs_inv v \<Longrightarrow> vfs_inv (set_tmp_pos p fd pos v)"
proof (cases "find_tbl p v")
  case (Some i)
  assume inv: "vfs_inv v"
  note i = find_tbl_lt[OF inv Some]
  have "kind_ok (vkind (fds (fd_tables v ! i) ! fd))" if "fd < MAX_FDS"
    using inv_table[OF inv i] that by (simp add: table_ok_def)
  then show ?thesis using inv i Some by (auto simp: set_tmp_pos_def intro: inv_put_kind split: vnode_kind.splits)
qed (simp add: set_tmp_pos_def)

lemma inv_find_free: "vfs_inv v \<Longrightarrow> find_free_tmp v = Some i \<Longrightarrow> i < MAX_TMP_FILES"
  by (auto simp: find_free_tmp_def vfs_inv_def dest: position_SomeD)

subsection \<open>Handlers\<close>

lemma inv_open_tmp:
  assumes "vfs_inv v" "open_tmp path flags v = (r, v')"
  shows "vfs_inv v'" "r = Inr k \<Longrightarrow> kind_ok k"
proof -
  have pos: "i < MAX_TMP_FILES" if "position P (tmp_files v) = Some i" for P i
    using position_SomeD[OF that] assms(1) by (auto simp: vfs_inv_def)
  have trunc: "tmp_ok ((tmp_files v ! i)\<lparr>t_len := 0\<rparr>)" if "i < MAX_TMP_FILES" for i
    using inv_tmp[OF assms(1) that] by (simp add: tmp_ok_def)
  show "vfs_inv v'"
    using assms pos trunc
    by (auto simp: open_tmp_def Let_def intro: inv_put_tmp split: option.splits if_splits)
  show "kind_ok k" if "r = Inr k"
    using assms that pos inv_find_free[OF assms(1)]
    by (auto simp: open_tmp_def Let_def split: option.splits if_splits)
qed

lemma length_write_u32: "length w \<le> TMP_BUF_SIZE \<Longrightarrow> length (write_u32 w n) \<le> TMP_BUF_SIZE"
proof -
  have "length (foldl (\<lambda>out d. if length out < TMP_BUF_SIZE then out @ [d] else out) w ds) \<le> TMP_BUF_SIZE"
    if "length w \<le> TMP_BUF_SIZE" for ds :: "u8 list"
    using that by (induction ds arbitrary: w) auto
  then show "length w \<le> TMP_BUF_SIZE \<Longrightarrow> ?thesis" by (simp add: write_u32_def)
qed

lemma inv_store_generated:
  assumes "vfs_inv v" "store_generated prefix content v = (r, v')"
  shows "vfs_inv v'" "r = Some k \<Longrightarrow> kind_ok k"
proof -
  have e: "tmp_ok ((new_tmp path False)\<lparr>t_data := copy_at 0 (take (min n TMP_BUF_SIZE) content) (t_data (new_tmp path False)),
      t_len := min n TMP_BUF_SIZE\<rparr>)" for path and n
    using tmp_ok_new[of path False]
    by (simp add: tmp_ok_def length_copy_at MAX_TMP_SIZE_def TMP_BUF_SIZE_def)
  show "vfs_inv v'"
    using assms e by (auto simp: store_generated_def Let_def intro: inv_put_tmp split: option.splits)
  show "kind_ok k" if "r = Some k"
    using assms that inv_find_free[OF assms(1)] by (auto simp: store_generated_def Let_def split: option.splits)
qed

lemma inv_gen:
  assumes "vfs_inv v"
  shows "gen_proc_self env p path v = (r, v') \<Longrightarrow> vfs_inv v' \<and> (\<forall>k. r = Some k \<longrightarrow> kind_ok k)"
    "gen_proc_system env path v = (r, v') \<Longrightarrow> vfs_inv v' \<and> (\<forall>k. r = Some k \<longrightarrow> kind_ok k)"
  using assms inv_store_generated[OF assms]
  by (auto simp: gen_proc_self_def gen_proc_system_def split: option.splits)

lemma open_static_ok: "open_static path v = Some k \<Longrightarrow> kind_ok k"
  by (auto simp: open_static_def ref_ok_def find_in_initrd_def dest: position_SomeD split: option.splits if_splits)

lemma inv_open_kind:
  assumes "vfs_inv v" "open_kind env p path flags v = (r, v')"
  shows "vfs_inv v'" "r = Inr k \<Longrightarrow> kind_ok k"
proof -
  note g = inv_gen(1)[OF assms(1), of env p path] inv_gen(2)[OF assms(1), of env path] inv_open_tmp[OF assms(1), of path flags]
  show "vfs_inv v'"
    using assms g by (auto simp: open_kind_def split: if_splits prod.splits option.splits)
  show "kind_ok k" if "r = Inr k"
    using assms that g open_static_ok[of path v] by (auto simp: open_kind_def split: if_splits prod.splits option.splits)
qed

lemma inv_handle_open [vfs_keeps]: "vfs_inv v \<Longrightarrow> vfs_inv (snd (handle_open env p ptr flags v))"
proof (cases "read_cstr_raw (vram v) ptr")
  case (Some raw)
  assume inv: "vfs_inv v"
  obtain r v1 where o: "open_kind env p (normalize raw) flags v = (r, v1)" by fastforce
  note k = inv_open_kind[OF inv o]
  show ?thesis
  proof (cases r)
    case (Inr vn)
    obtain q v2 where i: "install_fd p \<lparr>vkind = vn, fd_flags = flags, fd_in_use = True\<rparr> v1 = (q, v2)" by fastforce
    have "vfs_inv v2" using inv_install_fd[OF k(1) _ i] k(2)[OF Inr] by simp
    then show ?thesis using Some o Inr i by (simp add: handle_open_def split: sum.split)
  qed (use Some o k in \<open>simp add: handle_open_def\<close>)
qed (simp add: handle_open_def)

lemma inv_read_node [vfs_keeps]:
  assumes "vfs_inv v" "i < MAX_PROCS" "kind_ok k"
  shows "vfs_inv (snd (read_node env p i fd k ptr count v))"
proof (cases k)
  case (Pipe ring w)
  obtain bs r where l: "pipe_read_loop (min count 4096) (pipe_rings v ! ring) = (bs, r)" by fastforce
  have "pipe_ok r" using pipe_read_loop_spec[OF inv_ring[OF assms(1)] l] assms(3) Pipe by simp
  then show ?thesis using Pipe assms l by (simp add: read_node_def read_pipe_def Let_def inv_put_ring inv_put_ram)
next
  case DevUrandom
  then show ?thesis using assms by (simp add: read_node_def Let_def inv_put_ram split: prod.split)
qed (use assms in \<open>simp_all add: read_node_def read_fb_def read_ram_def read_tmp_def read_event_def read_timer_def Let_def
      inv_put_ram inv_put_kind inv_set_tmp_pos\<close>)

lemma inv_write_node [vfs_keeps]:
  assumes "vfs_inv v" "i < MAX_PROCS" "kind_ok (vkind e)"
  shows "vfs_inv (snd (write_node p i fd e ptr count v))"
proof (cases "vkind e")
  case (Pipe ring w)
  obtain n r where l: "pipe_write_loop (read_slice (vram v) ptr count) (pipe_rings v ! ring) = (n, r)" by fastforce
  have "pipe_ok r" using pipe_write_loop_spec[OF inv_ring[OF assms(1)] l] assms(3) Pipe by simp
  then show ?thesis using Pipe assms l by (simp add: write_node_def write_pipe_def Let_def inv_put_ring)
next
  case (TmpFile idx pos w)
  have "tmp_ok (tmp_files v ! idx)" using inv_tmp[OF assms(1)] assms(3) TmpFile by simp
  then show ?thesis using TmpFile assms
    by (auto simp: write_node_def write_tmp_def Let_def tmp_ok_def length_copy_at intro!: inv_set_tmp_pos inv_put_tmp)
qed (use assms in \<open>simp_all add: write_node_def write_fb_def write_event_def Let_def inv_put_ram inv_put_kind\<close>)

lemma inv_handle_read:
  assumes "handle_read env p fd ptr count v = Some rv"
  shows "vfs_inv v \<longrightarrow> vfs_inv (snd rv)"
proof (rule handle_read.raw_induct[OF _ assms, where P = "\<lambda>env p fd ptr count v rv. vfs_inv v \<longrightarrow> vfs_inv (snd rv)"])
  fix rec env p fd ptr count v and rv :: "message \<times> vfs"
  assume ih: "\<And>env p fd ptr count v y. rec env p fd ptr count v = Some y \<Longrightarrow> vfs_inv v \<longrightarrow> vfs_inv (snd y)"
    and eq: "(if count = 0 then Some (val_reply 0, v) else case open_fd p fd v of None \<Rightarrow> Some (err_reply (- 9), v)
      | Some (i, e) \<Rightarrow> (case vkind e of DevStdio target_fd \<Rightarrow> rec env p target_fd ptr count v
          | _ \<Rightarrow> Some (read_node env p i fd (vkind e) ptr count v))) = Some rv"
  show "vfs_inv v \<longrightarrow> vfs_inv (snd rv)"
  proof (cases "count = 0 \<or> open_fd p fd v = None")
    case False
    then obtain i e where o: "open_fd p fd v = Some (i, e)" by auto
    have "vfs_inv v \<Longrightarrow> vfs_inv (snd (read_node env p i fd (vkind e) ptr count v))"
      using open_fdD[OF _ o] by (simp add: inv_read_node)
    then show ?thesis using eq ih False o by (auto split: vnode_kind.splits)
  qed (use eq in \<open>auto split: if_splits\<close>)
qed

lemma inv_handle_write:
  assumes "handle_write p fd ptr count v = Some rv"
  shows "vfs_inv v \<longrightarrow> vfs_inv (snd rv)"
proof (rule handle_write.raw_induct[OF _ assms, where P = "\<lambda>p fd ptr count v rv. vfs_inv v \<longrightarrow> vfs_inv (snd rv)"])
  fix rec p fd ptr count v and rv :: "message \<times> vfs"
  assume ih: "\<And>p fd ptr count v y. rec p fd ptr count v = Some y \<Longrightarrow> vfs_inv v \<longrightarrow> vfs_inv (snd y)"
    and eq: "(if count = 0 then Some (val_reply 0, v) else case open_fd p fd v of None \<Rightarrow> Some (err_reply (- 9), v)
      | Some (i, e) \<Rightarrow> (case vkind e of DevStdio target_fd \<Rightarrow> rec p target_fd ptr count v
          | _ \<Rightarrow> Some (write_node p i fd e ptr count v))) = Some rv"
  show "vfs_inv v \<longrightarrow> vfs_inv (snd rv)"
  proof (cases "count = 0 \<or> open_fd p fd v = None")
    case False
    then obtain i e where o: "open_fd p fd v = Some (i, e)" by auto
    have "vfs_inv v \<Longrightarrow> vfs_inv (snd (write_node p i fd e ptr count v))"
      using open_fdD[OF _ o] by (simp add: inv_write_node)
    then show ?thesis using eq ih False o by (auto split: vnode_kind.splits)
  qed (use eq in \<open>auto split: if_splits\<close>)
qed

lemma inv_handle_close [vfs_keeps]: "vfs_inv v \<Longrightarrow> vfs_inv (snd (handle_close p fd v))"
proof (cases "open_fd p fd v")
  case (Some ie)
  obtain i e where ie: "ie = (i, e)" by fastforce
  assume inv: "vfs_inv v"
  note o = open_fdD[OF inv Some[unfolded ie]]
  have ends: "pipe_ok (r\<lparr>write_open := b\<rparr>)" "pipe_ok (r\<lparr>read_open := b\<rparr>)" if "pipe_ok r" for r b
    using that by (simp_all add: pipe_ok_def)
  have "vfs_inv ((put_fd i fd fd_empty v)\<lparr>eventfds := eventfds v\<rparr>)" "vfs_inv ((put_fd i fd fd_empty v)\<lparr>timers := timers v\<rparr>)"
    using inv_put_fd[OF inv o(1), of fd_empty fd] by (simp_all add: vfs_inv_def put_fd_def)
  then show ?thesis
    using inv Some ie o inv_put_fd[OF inv o(1), of fd_empty fd]
    by (auto simp: handle_close_def Let_def ends inv_ring intro!: inv_put_ring split: vnode_kind.splits)
qed (simp add: handle_close_def)

lemma inv_handle_lseek [vfs_keeps]: "vfs_inv v \<Longrightarrow> vfs_inv (snd (handle_lseek p fd off whence v))"
proof (cases "open_fd p fd v")
  case (Some ie)
  obtain i e where ie: "ie = (i, e)" by fastforce
  assume inv: "vfs_inv v"
  note o = open_fdD[OF inv Some[unfolded ie]]
  show ?thesis
    using inv Some ie o
    by (auto simp: handle_lseek_def intro!: inv_put_kind split: vnode_kind.splits option.splits)
qed (simp add: handle_lseek_def)

end
