(* ===== verification/Vfs_Tmp.thy ===== *)
theory Vfs_Tmp
  imports Vfs_Inv
begin

text \<open>
  A writable file refines a sequence of bytes with a position: any sequence of reads, writes, seeks and
  truncations on a descriptor returns what the sequence of bytes returns, as long as no write starts behind the
  end of the file.
\<close>

subsection \<open>Updating a descriptor in place\<close>

lemma find_tbl_put_fd [simp]: "find_tbl p (put_fd i fd e v) = find_tbl p v"
  by (simp add: find_tbl_def tbl_idx_def put_fd_def position_update_same)

lemma find_tbl_put_kind [simp]: "find_tbl p (put_kind i fd k v) = find_tbl p v"
  by (simp add: put_kind_def)

lemma find_tbl_fields [simp]:
  "find_tbl p (put_ram m v) = find_tbl p v" "find_tbl p (put_tmp j t v) = find_tbl p v"
  by (simp_all add: find_tbl_def tbl_idx_def)

lemma open_fd_fields [simp]:
  "open_fd p fd (put_ram m v) = open_fd p fd v" "open_fd p fd (put_tmp j t v) = open_fd p fd v"
  by (rule open_fd_cong, simp)+

lemma open_fd_put_kind:
  assumes "vfs_inv v" "open_fd p fd v = Some (i, e)"
  shows "open_fd p fd (put_kind i fd k v) = Some (i, e\<lparr>vkind := k\<rparr>)"
proof -
  note o = open_fdD[OF assms]
  have "find_tbl p v = Some i" using assms(2) by (auto simp: open_fd_def split: option.splits if_splits)
  moreover have "i < length (fd_tables v)" "fd < length (fds (fd_tables v ! i))"
    using assms(1) o inv_table[OF assms(1) o(1)] by (auto simp: vfs_inv_def table_ok_def)
  ultimately show ?thesis
    using o by (simp add: open_fd_def) (simp add: put_kind_def put_fd_def)
qed

lemma set_tmp_pos_open:
  assumes "vfs_inv v" "open_fd p fd v = Some (i, e)" "vkind e = TmpFile idx pos w"
  shows "set_tmp_pos p fd q v = put_kind i fd (TmpFile idx q w) v"
proof -
  note o = open_fdD[OF assms(1,2)]
  have "find_tbl p v = Some i" using assms(2) by (auto simp: open_fd_def split: option.splits if_splits)
  then show ?thesis using o assms(3) by (simp add: set_tmp_pos_def)
qed

lemma put_kind_tables: "put_kind i fd k (put_ram m v) = put_ram m (put_kind i fd k v)"
  "put_kind i fd k (put_tmp j t v) = put_tmp j t (put_kind i fd k v)"
  by (simp_all add: put_kind_def put_fd_def put_ram_def put_tmp_def)

subsection \<open>A file as a sequence of bytes\<close>

datatype file_op = FWrite usize nat | FRead usize nat | FSeek int u32 | FTruncate nat

fun file_step :: "vfs_env \<Rightarrow> u32 \<Rightarrow> nat \<Rightarrow> file_op \<Rightarrow> vfs \<Rightarrow> (message \<times> vfs) option" where
  "file_step env p fd (FWrite ptr count) v = handle_write p fd ptr count v"
| "file_step env p fd (FRead ptr count) v = handle_read env p fd ptr count v"
| "file_step env p fd (FSeek off whence) v = Some (handle_lseek p fd off whence v)"
| "file_step env p fd (FTruncate n) v = Some (handle_ftruncate p fd n v)"

text \<open>The state is the memory of the caller, the bytes of the file and the position; \<open>None\<close> is a write behind the end.\<close>

fun file_spec :: "file_op \<Rightarrow> memory \<times> u8 list \<times> nat \<Rightarrow> (message \<times> memory \<times> u8 list \<times> nat) option" where
  "file_spec (FWrite ptr count) (m, bs, pos) =
     (if count = 0 then Some (val_reply 0, m, bs, pos)
      else if pos \<ge> MAX_TMP_SIZE then Some (err_reply (- 28), m, bs, pos)
      else if pos > length bs then None
      else let n = min count (MAX_TMP_SIZE - pos)
        in Some (val_reply (of_nat n), m, take pos bs @ read_slice m ptr n @ drop (pos + n) bs, pos + n))"
| "file_spec (FRead ptr count) (m, bs, pos) =
     (let n = min count (length bs - pos)
      in Some (val_reply (of_nat n), write_slice m ptr (take n (drop pos bs)), bs, pos + n))"
| "file_spec (FSeek off whence) (m, bs, pos) = (case seek_pos pos (length bs) off whence of
       None \<Rightarrow> Some (err_reply (- 22), m, bs, pos)
     | Some q \<Rightarrow> Some (val_reply (of_nat q), m, bs, q))"
| "file_spec (FTruncate n) (m, bs, pos) =
     (if n > MAX_TMP_SIZE then Some (err_reply (- 28), m, bs, pos)
      else Some (ok_reply, m, take n bs @ replicate (n - length bs) 0, pos))"

fun run_opt :: "('o \<Rightarrow> 's \<Rightarrow> ('r \<times> 's) option) \<Rightarrow> 'o list \<Rightarrow> 's \<Rightarrow> ('r list \<times> 's) option" where
  "run_opt step [] s = Some ([], s)"
| "run_opt step (op # ops) s = do { (r, s1) \<leftarrow> step op s; (rs, s2) \<leftarrow> run_opt step ops s1; Some (r # rs, s2) }"

definition file_bytes :: "nat \<Rightarrow> vfs \<Rightarrow> u8 list" where
  "file_bytes idx v = take (t_len (tmp_files v ! idx)) (t_data (tmp_files v ! idx))"

definition file_sim :: "u32 \<Rightarrow> nat \<Rightarrow> nat \<Rightarrow> vfs \<Rightarrow> memory \<times> u8 list \<times> nat \<Rightarrow> bool" where
  "file_sim p fd idx v s = (case open_fd p fd v of
       None \<Rightarrow> False
     | Some (i, e) \<Rightarrow> vkind e = TmpFile idx (snd (snd s)) True \<and> fd_flags e AND O_APPEND = 0
         \<and> vfs_inv v \<and> s = (vram v, file_bytes idx v, snd (snd s)))"

lemma file_simE:
  assumes "file_sim p fd idx v (m, bs, pos)"
  obtains i e where "open_fd p fd v = Some (i, e)" "vkind e = TmpFile idx pos True" "fd_flags e AND O_APPEND = 0"
    "vfs_inv v" "m = vram v" "bs = file_bytes idx v" "idx < MAX_TMP_FILES" "length bs = t_len (tmp_files v ! idx)"
    "tmp_ok (tmp_files v ! idx)" "i < MAX_PROCS"
proof -
  obtain i e where o: "open_fd p fd v = Some (i, e)" "vkind e = TmpFile idx pos True" "fd_flags e AND O_APPEND = 0"
    "vfs_inv v" "m = vram v" "bs = file_bytes idx v"
    using assms by (auto simp: file_sim_def split: option.splits)
  have i: "idx < MAX_TMP_FILES" "i < MAX_PROCS" using open_fdD[OF o(4,1)] o(2) by simp_all
  have "length bs = t_len (tmp_files v ! idx)" using inv_tmp[OF o(4) i(1)] o(6) by (simp add: file_bytes_def tmp_ok_def)
  then show ?thesis using that o i inv_tmp[OF o(4) i(1)] by blast
qed

lemma file_simI:
  assumes "vfs_inv v" "open_fd p fd v = Some (i, e)" "fd_flags e AND O_APPEND = 0" "i < MAX_PROCS" "idx < MAX_TMP_FILES"
    "tmp_ok t" "take (t_len t) (t_data t) = bs"
  shows "file_sim p fd idx (put_kind i fd (TmpFile idx q True) (put_ram m (put_tmp idx t v))) (m, bs, q)"
proof -
  have u: "vfs_inv (put_ram m (put_tmp idx t v))" using assms by (simp add: inv_put_ram inv_put_tmp)
  have "open_fd p fd (put_ram m (put_tmp idx t v)) = Some (i, e)" using assms(2) by simp
  note o = open_fd_put_kind[OF u this, of "TmpFile idx q True"]
  have "idx < length (tmp_files v)" using assms(1,5) by (simp add: vfs_inv_def)
  then show ?thesis
    using o u assms by (simp add: file_sim_def file_bytes_def inv_put_kind)
qed

lemma same_tmp: "put_tmp idx (tmp_files v ! idx) v = v"
  by (simp add: put_tmp_def)

lemma same_ram: "put_ram (vram v) v = v"
  by (simp add: put_ram_def)

lemma write_slice_Nil [simp]: "write_slice m p [] = m"
  by (simp add: write_slice_def)

lemma take_copy_at:
  assumes "pos \<le> len" "len \<le> length d" "length src = n"
  shows "take (if pos + n > len then pos + n else len) (copy_at pos src d)
    = take pos (take len d) @ src @ drop (pos + n) (take len d)"
proof (cases "pos + n > len")
  case True
  then show ?thesis using assms by (simp add: copy_at_def min_def) linarith
next
  case False
  then show ?thesis using assms by (cases "len = pos") (simp_all add: copy_at_def drop_take)
qed

lemma sim_read:
  assumes "file_sim p fd idx v (m, bs, pos)" "file_spec (FRead ptr count) (m, bs, pos) = Some (r, s')"
  shows "\<exists>v'. handle_read env p fd ptr count v = Some (r, v') \<and> file_sim p fd idx v' s'"
proof -
  obtain i e where o: "open_fd p fd v = Some (i, e)" "vkind e = TmpFile idx pos True" "fd_flags e AND O_APPEND = 0"
    "vfs_inv v" "m = vram v" "bs = file_bytes idx v" "idx < MAX_TMP_FILES" "length bs = t_len (tmp_files v ! idx)"
    "tmp_ok (tmp_files v ! idx)" "i < MAX_PROCS"
    by (rule file_simE[OF assms(1)]) (rule that)
  let ?t = "tmp_files v ! idx"
  let ?n = "min count (t_len ?t - pos)"
  have r: "r = val_reply (of_nat ?n)" "s' = (write_slice m ptr (take ?n (drop pos bs)), bs, pos + ?n)"
    using assms(2) o(8) by (simp_all add: Let_def)
  show ?thesis
  proof (cases "?n = 0")
    case True
    have "handle_read env p fd ptr count v = Some (val_reply 0, v)"
    proof (cases "count = 0")
      case False
      then show ?thesis
        using handle_read_node[OF False o(1), of env ptr] o(2) True by (simp add: is_stdio_def read_node_def read_tmp_def)
    qed simp
    then show ?thesis using r True assms(1) by simp
  next
    case False
    have n: "?n \<le> 4096" using o(9) by (auto simp: tmp_ok_def MAX_TMP_SIZE_def min_def)
    have sl: "slice (t_data ?t) pos (pos + ?n) = take ?n (drop pos bs)"
      by (simp add: o(6) slice_def file_bytes_def drop_take)
    let ?m = "write_slice m ptr (take ?n (drop pos bs))"
    have c: "count \<noteq> 0" using False by auto
    have "handle_read env p fd ptr count v = Some (val_reply (of_nat ?n), set_tmp_pos p fd (pos + ?n) (put_ram ?m v))"
      using handle_read_node[OF c o(1), of env ptr] o(2,5) False n sl
      by (simp add: is_stdio_def read_node_def read_tmp_def Let_def)
    moreover have "set_tmp_pos p fd (pos + ?n) (put_ram ?m v) = put_kind i fd (TmpFile idx (pos + ?n) True) (put_ram ?m v)"
      by (rule set_tmp_pos_open[where e = e]) (use o in \<open>simp_all add: inv_put_ram\<close>)
    ultimately show ?thesis
      using file_simI[OF o(4,1,3,10,7,9), of bs "pos + ?n" ?m] r o(6) by (simp add: same_tmp file_bytes_def)
  qed
qed

lemma sim_write:
  assumes "file_sim p fd idx v (m, bs, pos)" "file_spec (FWrite ptr count) (m, bs, pos) = Some (r, s')"
  shows "\<exists>v'. handle_write p fd ptr count v = Some (r, v') \<and> file_sim p fd idx v' s'"
proof -
  obtain i e where o: "open_fd p fd v = Some (i, e)" "vkind e = TmpFile idx pos True" "fd_flags e AND O_APPEND = 0"
    "vfs_inv v" "m = vram v" "bs = file_bytes idx v" "idx < MAX_TMP_FILES" "length bs = t_len (tmp_files v ! idx)"
    "tmp_ok (tmp_files v ! idx)" "i < MAX_PROCS"
    by (rule file_simE[OF assms(1)]) (rule that)
  let ?t = "tmp_files v ! idx"
  let ?n = "min count (MAX_TMP_SIZE - pos)"
  consider "count = 0" | "count \<noteq> 0" "pos \<ge> MAX_TMP_SIZE" | "count \<noteq> 0" "pos < MAX_TMP_SIZE" by linarith
  then show ?thesis
  proof cases
    case 1
    then show ?thesis using assms by auto
  next
    case 2
    then show ?thesis
      using assms handle_write_node[OF 2(1) o(1), of ptr] o(2,3)
      by (auto simp: is_stdio_def write_node_def write_tmp_def)
  next
    case 3
    have le: "pos \<le> length bs" using assms(2) 3 by (auto split: if_splits)
    have r: "r = val_reply (of_nat ?n)" "s' = (m, take pos bs @ read_slice m ptr ?n @ drop (pos + ?n) bs, pos + ?n)"
      using assms(2) 3 le by (auto simp: Let_def)
    let ?t' = "?t\<lparr>t_data := copy_at pos (read_slice m ptr ?n) (t_data ?t),
      t_len := (if pos + ?n > t_len ?t then pos + ?n else t_len ?t)\<rparr>"
    have t': "tmp_ok ?t'" using o(9) 3 by (auto simp: tmp_ok_def length_copy_at)
    have pl: "pos \<le> t_len ?t" "t_len ?t \<le> length (t_data ?t)" using le o(8,9) by (simp_all add: tmp_ok_def)
    have "t_len ?t' = (if pos + ?n > t_len ?t then pos + ?n else t_len ?t)"
      "t_data ?t' = copy_at pos (read_slice m ptr ?n) (t_data ?t)" by simp_all
    then have "take (t_len ?t') (t_data ?t') = take pos bs @ read_slice m ptr ?n @ drop (pos + ?n) bs"
      unfolding o(6) file_bytes_def by (simp only: take_copy_at[OF pl length_read_slice])
    note s = file_simI[OF o(4,1,3,10,7) t' this, of "pos + ?n" m]
    have "handle_write p fd ptr count v = Some (val_reply (of_nat ?n), set_tmp_pos p fd (pos + ?n) (put_tmp idx ?t' v))"
      using handle_write_node[OF 3(1) o(1), of ptr] o(2,3,5) 3
      by (simp add: is_stdio_def write_node_def write_tmp_def Let_def)
    moreover have "set_tmp_pos p fd (pos + ?n) (put_tmp idx ?t' v) = put_kind i fd (TmpFile idx (pos + ?n) True) (put_tmp idx ?t' v)"
      by (rule set_tmp_pos_open[where e = e]) (use o t' in \<open>simp_all add: inv_put_tmp\<close>)
    moreover have "put_ram m (put_tmp idx ?t' v) = put_tmp idx ?t' v"
      using same_ram[of "put_tmp idx ?t' v"] o(5) by simp
    ultimately show ?thesis using s r by simp
  qed
qed

lemma sim_seek:
  assumes "file_sim p fd idx v (m, bs, pos)" "file_spec (FSeek off whence) (m, bs, pos) = Some (r, s')"
  shows "fst (handle_lseek p fd off whence v) = r \<and> file_sim p fd idx (snd (handle_lseek p fd off whence v)) s'"
proof -
  obtain i e where o: "open_fd p fd v = Some (i, e)" "vkind e = TmpFile idx pos True" "fd_flags e AND O_APPEND = 0"
    "vfs_inv v" "m = vram v" "bs = file_bytes idx v" "idx < MAX_TMP_FILES" "length bs = t_len (tmp_files v ! idx)"
    "tmp_ok (tmp_files v ! idx)" "i < MAX_PROCS"
    by (rule file_simE[OF assms(1)]) (rule that)
  have "file_sim p fd idx (put_kind i fd (TmpFile idx q True) v) (m, bs, q)" for q
    using file_simI[OF o(4,1,3,10,7,9), of bs q m] o(5,6) by (simp add: same_tmp same_ram file_bytes_def)
  then show ?thesis
    using assms o by (auto simp: handle_lseek_def split: option.splits)
qed

lemma sim_truncate:
  assumes "file_sim p fd idx v (m, bs, pos)" "file_spec (FTruncate n) (m, bs, pos) = Some (r, s')"
  shows "fst (handle_ftruncate p fd n v) = r \<and> file_sim p fd idx (snd (handle_ftruncate p fd n v)) s'"
proof -
  obtain i e where o: "open_fd p fd v = Some (i, e)" "vkind e = TmpFile idx pos True" "fd_flags e AND O_APPEND = 0"
    "vfs_inv v" "m = vram v" "bs = file_bytes idx v" "idx < MAX_TMP_FILES" "length bs = t_len (tmp_files v ! idx)"
    "tmp_ok (tmp_files v ! idx)" "i < MAX_PROCS"
    by (rule file_simE[OF assms(1)]) (rule that)
  show ?thesis
  proof (cases "n > MAX_TMP_SIZE")
    case True
    then show ?thesis using assms o by (simp add: handle_ftruncate_def)
  next
    case False
    let ?t = "tmp_files v ! idx"
    let ?t' = "?t\<lparr>t_data := (if n > t_len ?t then copy_at (t_len ?t) (replicate (n - t_len ?t) 0) (t_data ?t) else t_data ?t),
      t_len := n\<rparr>"
    have t': "tmp_ok ?t'" using o(9) False by (auto simp: tmp_ok_def length_copy_at)
    have b: "take (t_len ?t') (t_data ?t') = take n bs @ replicate (n - length bs) 0"
      using o(9) unfolding o(6) by (auto simp: tmp_ok_def file_bytes_def copy_at_def min_def)
    let ?v = "put_tmp idx ?t' v"
    have "put_kind i fd (TmpFile idx pos True) (put_ram m ?v) = ?v"
    proof -
      note f = open_fdD[OF o(4,1)]
      have "put_kind i fd (vkind e) v = v" using f by (simp add: put_kind_def put_fd_def)
      then show ?thesis using o(2,5) same_ram[of ?v] by (simp add: put_kind_tables)
    qed
    then have "file_sim p fd idx ?v (m, take n bs @ replicate (n - length bs) 0, pos)"
      using file_simI[OF o(4,1,3,10,7) t' b, of pos m] by simp
    then show ?thesis using assms o False by (simp add: handle_ftruncate_def Let_def)
  qed
qed

lemma file_step_refines:
  assumes "file_sim p fd idx v s" "file_spec op s = Some (r, s')"
  shows "\<exists>v'. file_step env p fd op v = Some (r, v') \<and> file_sim p fd idx v' s'"
proof -
  obtain m bs pos where s: "s = (m, bs, pos)" by (metis prod_cases3)
  note a = assms[unfolded s]
  show ?thesis
  proof (cases op)
    case (FWrite ptr count)
    then show ?thesis using sim_write[OF a(1)] a(2) by simp
  next
    case (FRead ptr count)
    then show ?thesis using sim_read[OF a(1)] a(2) by simp
  next
    case (FSeek off whence)
    then show ?thesis using sim_seek[OF a(1), of off whence r s'] a(2) by (metis file_step.simps(3) prod.collapse)
  next
    case (FTruncate n)
    then show ?thesis using sim_truncate[OF a(1), of n r s'] a(2) by (metis file_step.simps(4) prod.collapse)
  qed
qed


text \<open>A process with one writable file of five bytes in descriptor 3.\<close>

definition demo_file :: vfs where
  "demo_file = (let v = put_tmp 0 ((new_tmp (str ''/tmp/a'') False)\<lparr>t_len := 5\<rparr>)
                      (vfs_statics \<lparr>frames = buddy_new, ram = (\<lambda>x. ucast x), hhdm_off = 0, shootdowns = 0\<rparr>)
     in v\<lparr>fd_tables := (fd_tables v)[0 := fd_table_empty\<lparr>tbl_in_use := True, tbl_pid := 7,
           fds := (replicate MAX_FDS fd_empty)[3 := \<lparr>vkind = TmpFile 0 0 True, fd_flags = O_RDWR, fd_in_use = True\<rparr>]\<rparr>]\<rparr>)"

lemma demo_file_sim: "file_sim 7 3 0 demo_file (\<lambda>x. ucast x, replicate 5 0, 0)"
proof -
  let ?v = "vfs_statics \<lparr>frames = buddy_new, ram = (\<lambda>x. ucast x), hhdm_off = 0, shootdowns = 0\<rparr>"
  have "vfs_inv ?v" by (simp add: vfs_inv_def vfs_statics_def pipe_new_ok)
  from inv_put_tmp[OF this, of "(new_tmp (str ''/tmp/a'') False)\<lparr>t_len := 5\<rparr>" 0]
  have "vfs_inv (put_tmp 0 ((new_tmp (str ''/tmp/a'') False)\<lparr>t_len := 5\<rparr>) ?v)"
    using tmp_ok_new[of "str ''/tmp/a''" False] by (simp add: tmp_ok_def MAX_TMP_SIZE_def)
  then have inv: "vfs_inv demo_file"
    unfolding demo_file_def Let_def
    by (rule inv_put_table) (auto simp: table_ok_def MAX_TMP_FILES_def dest!: set_update_subset_insert[THEN subsetD])
  have "fds (fd_tables demo_file ! 0) ! 3 = \<lparr>vkind = TmpFile 0 0 True, fd_flags = O_RDWR, fd_in_use = True\<rparr>"
    "tbl_idx 7 demo_file = Some 0"
    by (simp_all add: demo_file_def vfs_statics_def MAX_PROCS_def MAX_FDS_def tbl_idx_def eval_nat_numeral Let_def)
  then have "open_fd 7 3 demo_file = Some (0, \<lparr>vkind = TmpFile 0 0 True, fd_flags = O_RDWR, fd_in_use = True\<rparr>)"
    by (simp add: open_fd_def find_tbl_def MAX_FDS_def)
  moreover have "file_bytes 0 demo_file = replicate 5 0"
    by (simp add: file_bytes_def demo_file_def vfs_statics_def MAX_TMP_FILES_def new_tmp_def set_path_def tmp_empty_def
        MAX_TMP_SIZE_def Let_def)
  ultimately show ?thesis
    using inv by (simp add: file_sim_def O_RDWR_def O_APPEND_def) (simp add: demo_file_def vfs_statics_def Let_def)
qed


end
