(* ===== verification/Vfs_Props.thy ===== *)
theory Vfs_Props
  imports Vfs_Inv
begin

text \<open>
  The invariant of the file server holds after every request; which requests return; what a writable file
  holds after a write; and what closing one end of a pipe does.
\<close>

subsection \<open>The remaining handlers\<close>

lemma inv_handle_pipe [vfs_keeps]: "vfs_inv v \<Longrightarrow> vfs_inv (snd (handle_pipe p rp wp v))"
proof (cases "position ring_free (pipe_rings v)")
  case (Some ring)
  assume inv: "vfs_inv v"
  have ring: "ring < MAX_PIPES" using position_SomeD[OF Some] inv by (simp add: vfs_inv_def)
  let ?v1 = "put_ring ring ((pipe_rings v ! ring)\<lparr>read_open := True, write_open := True\<rparr>) v"
  have v1: "vfs_inv ?v1" using inv_ring[OF inv ring] by (intro inv_put_ring inv) (simp add: pipe_ok_def)
  obtain r v2 where g: "get_or_create p ?v1 = (r, v2)" by fastforce
  note s = inv_get_or_create[OF v1 g]
  show ?thesis
    using Some g s ring
    by (auto simp: handle_pipe_def Let_def pipe_entry_def inv_put_ram intro!: inv_put_fd split: option.splits)
qed (simp add: handle_pipe_def)

lemma inv_handle_dup2 [vfs_keeps]: "vfs_inv v \<Longrightarrow> vfs_inv (snd (handle_dup2 p oldfd newfd v))"
proof (cases "find_tbl p v")
  case (Some i)
  assume inv: "vfs_inv v"
  note i = find_tbl_lt[OF inv Some]
  show ?thesis
    using inv i Some inv_table[OF inv i] by (auto simp: handle_dup2_def table_ok_def intro!: inv_put_fd)
qed (simp add: handle_dup2_def)

lemma tbl_idx_lt: "vfs_inv v \<Longrightarrow> tbl_idx p v = Some i \<Longrightarrow> i < MAX_PROCS"
  using find_tbl_lt[of v p i] by (simp add: find_tbl_def)

lemma inv_handle_tables [vfs_keeps]:
  assumes "vfs_inv v"
  shows "vfs_inv (snd (handle_fork_dup p c v))" "vfs_inv (snd (handle_exec_cloexec p v))" "vfs_inv (snd (handle_close_all p v))"
proof -
  have t: "table_ok (fd_tables v ! i)" if "tbl_idx p v = Some i" for i using inv_table[OF assms tbl_idx_lt[OF assms that]] .
  have "table_ok (fd_table_empty\<lparr>tbl_in_use := True, tbl_pid := c, fds := fds (fd_tables v ! i)\<rparr>)" if "tbl_idx p v = Some i" for i
    using t[OF that] by (simp add: table_ok_def)
  then show "vfs_inv (snd (handle_fork_dup p c v))"
    using assms by (auto simp: handle_fork_dup_def intro!: inv_put_table split: option.splits)
  have "table_ok ((fd_tables v ! i)\<lparr>fds :=
      map (\<lambda>e. if fd_in_use e \<and> fd_flags e AND O_CLOEXEC \<noteq> 0 then fd_empty else e) (fds (fd_tables v ! i))\<rparr>)"
    if "tbl_idx p v = Some i" for i
    using t[OF that] by (auto simp: table_ok_def)
  then show "vfs_inv (snd (handle_exec_cloexec p v))"
    using assms by (auto simp: handle_exec_cloexec_def Let_def intro!: inv_put_table split: option.splits)
  show "vfs_inv (snd (handle_close_all p v))"
    using assms by (auto simp: handle_close_all_def intro!: inv_put_table split: option.splits)
qed

lemma inv_handle_fcntl [vfs_keeps]: "vfs_inv v \<Longrightarrow> vfs_inv (snd (handle_fcntl p fd cmd a v))"
proof (cases "open_fd p fd v")
  case (Some ie)
  obtain i e where ie: "ie = (i, e)" by fastforce
  assume inv: "vfs_inv v"
  note o = open_fdD[OF inv Some[unfolded ie]]
  show ?thesis using inv Some ie o by (auto simp: handle_fcntl_def put_flags_def intro!: inv_put_fd)
qed (simp add: handle_fcntl_def)

lemma inv_handle_alloc_fd [vfs_keeps]: "vfs_inv v \<Longrightarrow> vfs_inv (snd (handle_alloc_fd p oldfd v))"
proof -
  assume inv: "vfs_inv v"
  obtain r v1 where g: "get_or_create p v = (r, v1)" by fastforce
  note s = inv_get_or_create[OF inv g]
  have "kind_ok (vkind (fds (fd_tables v1 ! i) ! oldfd))" if "r = Some i" "oldfd < MAX_FDS" for i
    using inv_table[OF s(1) s(2)[OF that(1)]] that by (simp add: table_ok_def)
  then show ?thesis
    using inv s g by (auto simp: handle_alloc_fd_def Let_def intro!: inv_put_fd split: option.splits)
qed

lemma inv_handle_eventfd [vfs_keeps]: "vfs_inv v \<Longrightarrow> vfs_inv (snd (handle_eventfd p x v))"
proof (cases "position (\<lambda>c. c = u64_MAX) (eventfds v)")
  case (Some slot)
  assume inv: "vfs_inv v"
  have slot: "slot < MAX_EVENTFDS" using position_SomeD[OF Some] inv by (simp add: vfs_inv_def)
  let ?v1 = "v\<lparr>eventfds := (eventfds v)[slot := (if x = u64_MAX then u64_MAX - 1 else x)]\<rparr>"
  obtain r v2 where i: "install_fd p \<lparr>vkind = EventFd slot, fd_flags = 0, fd_in_use = True\<rparr> ?v1 = (r, v2)" by fastforce
  have "vfs_inv v2" using inv_install_fd[OF _ _ i] inv slot by simp
  then show ?thesis using Some i by (simp add: handle_eventfd_def Let_def split: sum.split)
qed (simp add: handle_eventfd_def)

lemma inv_handle_timerfd_create [vfs_keeps]: "vfs_inv v \<Longrightarrow> vfs_inv (snd (handle_timerfd_create p v))"
proof (cases "position timerfd_is_free (timers v)")
  case (Some slot)
  assume inv: "vfs_inv v"
  have slot: "slot < MAX_TIMERFDS" using position_SomeD[OF Some] inv by (simp add: vfs_inv_def)
  let ?v1 = "v\<lparr>timers := (timers v)[slot := timerfd_free\<lparr>deadline_ticks := 1\<rparr>]\<rparr>"
  obtain r v2 where i: "install_fd p \<lparr>vkind = TimerFd slot, fd_flags = 0, fd_in_use = True\<rparr> ?v1 = (r, v2)" by fastforce
  have "vfs_inv v2" using inv_install_fd[OF _ _ i] inv slot by simp
  then show ?thesis using Some i by (simp add: handle_timerfd_create_def Let_def split: sum.split)
qed (simp add: handle_timerfd_create_def)

lemma inv_handle_timerfd [vfs_keeps]:
  "vfs_inv v \<Longrightarrow> vfs_inv (snd (handle_timerfd_settime env p fd x y v))"
  "vfs_inv v \<Longrightarrow> vfs_inv (snd (handle_timerfd_gettime env p fd ptr v))"
  by (auto simp: handle_timerfd_settime_def handle_timerfd_gettime_def Let_def inv_put_ram split: option.splits vnode_kind.splits)

lemma inv_handle_ioctl [vfs_keeps]: "vfs_inv v \<Longrightarrow> vfs_inv (snd (handle_ioctl p fd cmd a v))"
proof -
  have "vfs_inv v \<Longrightarrow> vfs_inv (snd (handle_fionread p fd cmd a v))"
    by (auto simp: handle_fionread_def inv_put_ram split: option.splits)
  then show "vfs_inv v \<Longrightarrow> ?thesis" by (auto simp: handle_ioctl_def inv_put_ram split: option.splits)
qed

lemma inv_handle_ftruncate [vfs_keeps]: "vfs_inv v \<Longrightarrow> vfs_inv (snd (handle_ftruncate p fd n v))"
proof (cases "open_fd p fd v")
  case (Some ie)
  obtain i e where ie: "ie = (i, e)" by fastforce
  assume inv: "vfs_inv v"
  note o = open_fdD[OF inv Some[unfolded ie]]
  have "tmp_ok (tmp_files v ! idx)" if "idx < MAX_TMP_FILES" for idx
    using inv_tmp[OF inv that] .
  then show ?thesis
    using inv Some ie o
    by (auto simp: handle_ftruncate_def Let_def tmp_ok_def length_copy_at intro!: inv_put_tmp split: vnode_kind.splits)
qed (simp add: handle_ftruncate_def)

lemma inv_handle_paths [vfs_keeps]:
  assumes "vfs_inv v"
  shows "vfs_inv (snd (handle_rename old new v))" "vfs_inv (snd (handle_unlink ptr v))" "vfs_inv (snd (handle_mkdir ptr v))"
proof -
  have t: "tmp_ok (tmp_files v ! i)" if "position P (tmp_files v) = Some i" for P i
    using position_SomeD[OF that] assms by (auto simp: vfs_inv_def)
  show "vfs_inv (snd (handle_rename old new v))"
    using assms t by (auto simp: handle_rename_def intro!: inv_put_tmp split: option.splits)
  show "vfs_inv (snd (handle_unlink ptr v))"
    using assms by (auto simp: handle_unlink_def intro!: inv_put_tmp split: option.splits)
  show "vfs_inv (snd (handle_mkdir ptr v))"
    using assms by (auto simp: handle_mkdir_def intro!: inv_put_tmp split: option.splits)
qed

lemma inv_handle_fd_path [vfs_keeps]: "vfs_inv v \<Longrightarrow> vfs_inv (snd (handle_fd_path addr p fd ptr len v))"
  by (auto simp: handle_fd_path_def reply_path_def Let_def inv_put_ram split: option.splits fd_info.splits)

lemma inv_handle_getdents64:
  assumes "vfs_inv v" "handle_getdents64 p fd ptr count v = Some rv"
  shows "vfs_inv (snd rv)"
proof (cases "open_fd p fd v")
  case (Some ie)
  obtain i e where ie: "ie = (i, e)" by fastforce
  note o = open_fdD[OF assms(1) Some[unfolded ie]]
  show ?thesis
    using assms Some ie o
    by (auto simp: handle_getdents64_def Let_def bind_eq_Some_conv inv_put_ram intro!: inv_put_kind
        split: if_splits vnode_kind.splits sum.splits option.splits)
qed (use assms in \<open>auto simp: handle_getdents64_def split: if_splits\<close>)

subsection \<open>Every request keeps the invariant\<close>

lemma inv_statics: "vfs_inv (vfs_statics m)"
  by (simp add: vfs_inv_def vfs_statics_def pipe_new_ok)

lemma inv_server_init:
  assumes "vfs_inv v" "vfs_server_init owner pt v = (r, pt', v')"
  shows "vfs_inv v'"
proof -
  have t: "table_ok (t\<lparr>tbl_in_use := True, tbl_pid := 1, fds := (fds t)[0 := e, 1 := e, 2 := e]\<rparr>)"
    if "table_ok t" "kind_ok (vkind e)" for t e
    using that by (auto simp: table_ok_def dest!: set_update_subset_insert[THEN subsetD])
  have u: "table_ok (fd_tables v ! i)" if "position P (fd_tables v) = Some i" for P i
    using position_SomeD[OF that] assms(1) by (auto simp: vfs_inv_def)
  have p: "vfs_inv (v\<lparr>vfs_port := q\<rparr>)" for q using assms(1) by (simp add: vfs_inv_def)
  from inv_put_table[OF this]
  have "vfs_inv (v\<lparr>vfs_port := q, fd_tables := (fd_tables v)[i := t]\<rparr>)" if "table_ok t" for q i t
    using that by simp
  then show ?thesis
    using assms p t[OF u] by (auto simp: vfs_server_init_def Let_def split: option.splits prod.splits)
qed

inductive vfs_reach :: "vfs \<Rightarrow> bool" where
  Statics: "vfs_reach (vfs_statics m)"
| Server_Init: "vfs_reach v \<Longrightarrow> vfs_server_init owner pt v = (r, pt', v') \<Longrightarrow> vfs_reach v'"
| Set_Initrd: "vfs_reach v \<Longrightarrow> vfs_reach (set_initrd b n v)"
| Set_Framebuffer: "vfs_reach v \<Longrightarrow> vfs_reach (set_framebuffer b w h q v)"
| Others: "vfs_reach v \<Longrightarrow> vfs_reach (v\<lparr>vmm := m\<rparr>)"
| Request: "vfs_reach v \<Longrightarrow> handle env addr msg p v = Some (r, v') \<Longrightarrow> vfs_reach v'"

lemma inv_handle:
  assumes "vfs_inv v" "handle env addr msg p v = Some (r, v')"
  shows "vfs_inv v'"
proof -
  have "pred_option (\<lambda>rv. vfs_inv (snd rv)) (handle_read env p fd ptr n v)"
    "pred_option (\<lambda>rv. vfs_inv (snd rv)) (handle_write p fd ptr n v)"
    "pred_option (\<lambda>rv. vfs_inv (snd rv)) (handle_getdents64 p fd ptr n v)" for fd ptr n
    using assms(1) by (auto simp: option.pred_set dest: inv_handle_read inv_handle_write inv_handle_getdents64)
  then have "pred_option (\<lambda>rv. vfs_inv (snd rv)) (handle env addr msg p v)"
    using assms(1) by (simp add: handle_def Let_def vfs_keeps)
  then show ?thesis using assms(2) by simp
qed



subsection \<open>Which requests return\<close>

text \<open>The descriptor that a \<open>/dev/std*\<close> descriptor stands for, and whether following it ends within \<open>k\<close> steps.\<close>

definition stdio_next :: "u32 \<Rightarrow> vfs \<Rightarrow> nat \<Rightarrow> nat option" where
  "stdio_next p v fd = (case open_fd p fd v of
       None \<Rightarrow> None
     | Some (i, e) \<Rightarrow> (case vkind e of DevStdio t \<Rightarrow> Some t | _ \<Rightarrow> None))"

fun stdio_ends :: "nat \<Rightarrow> u32 \<Rightarrow> vfs \<Rightarrow> nat \<Rightarrow> bool" where
  "stdio_ends 0 p v fd = (stdio_next p v fd = None)"
| "stdio_ends (Suc k) p v fd = (case stdio_next p v fd of None \<Rightarrow> True | Some t \<Rightarrow> stdio_ends k p v t)"

lemma stdio_ends_step: "stdio_next p v fd = Some t \<Longrightarrow> stdio_ends k p v t \<Longrightarrow> stdio_ends (Suc k) p v fd"
  by simp

lemma read_follows:
  assumes "count \<noteq> 0"
  shows "handle_read env p fd ptr count v = (case stdio_next p v fd of
      Some t \<Rightarrow> handle_read env p t ptr count v
    | None \<Rightarrow> (case open_fd p fd v of None \<Rightarrow> Some (err_reply (- 9), v)
        | Some (i, e) \<Rightarrow> Some (read_node env p i fd (vkind e) ptr count v)))"
  by (subst handle_read.simps) (use assms in \<open>auto simp: stdio_next_def split: option.splits vnode_kind.splits\<close>)

lemma write_follows:
  assumes "count \<noteq> 0"
  shows "handle_write p fd ptr count v = (case stdio_next p v fd of
      Some t \<Rightarrow> handle_write p t ptr count v
    | None \<Rightarrow> (case open_fd p fd v of None \<Rightarrow> Some (err_reply (- 9), v)
        | Some (i, e) \<Rightarrow> Some (write_node p i fd e ptr count v)))"
  by (subst handle_write.simps) (use assms in \<open>auto simp: stdio_next_def split: option.splits vnode_kind.splits\<close>)

lemma ends_returns:
  assumes "count \<noteq> 0" "stdio_ends k p v fd"
  shows "handle_read env p fd ptr count v \<noteq> None" "handle_write p fd ptr count v \<noteq> None"
  using assms(2)
proof (induction k arbitrary: fd)
  case 0
  { case 1 then show ?case by (subst read_follows[OF assms(1)]) (auto split: option.splits) }
  { case 2 then show ?case by (subst write_follows[OF assms(1)]) (auto split: option.splits) }
next
  case (Suc k)
  { case 1 then show ?case using Suc(1) by (subst read_follows[OF assms(1)]) (auto split: option.splits) }
  { case 2 then show ?case using Suc(2) by (subst write_follows[OF assms(1)]) (auto split: option.splits) }
qed

lemma returns_ends_read:
  assumes "handle_read env p fd ptr count v = Some rv"
  shows "count \<noteq> 0 \<longrightarrow> (\<exists>k. stdio_ends k p v fd)"
proof (rule handle_read.raw_induct[OF _ assms, where P = "\<lambda>env p fd ptr count v rv. count \<noteq> 0 \<longrightarrow> (\<exists>k. stdio_ends k p v fd)"])
  fix rec env p fd ptr count v and rv :: "message \<times> vfs"
  assume ih: "\<And>env p fd ptr count v y. rec env p fd ptr count v = Some y \<Longrightarrow> count \<noteq> 0 \<longrightarrow> (\<exists>k. stdio_ends k p v fd)"
    and eq: "(if count = 0 then Some (val_reply 0, v) else case open_fd p fd v of None \<Rightarrow> Some (err_reply (- 9), v)
      | Some (i, e) \<Rightarrow> (case vkind e of DevStdio target_fd \<Rightarrow> rec env p target_fd ptr count v
          | _ \<Rightarrow> Some (read_node env p i fd (vkind e) ptr count v))) = Some rv"
  show "count \<noteq> 0 \<longrightarrow> (\<exists>k. stdio_ends k p v fd)"
  proof (cases "stdio_next p v fd")
    case None
    then have "stdio_ends 0 p v fd" by simp
    then show ?thesis by blast
  next
    case (Some t)
    have "count \<noteq> 0 \<Longrightarrow> \<exists>k. stdio_ends k p v t"
      using Some eq ih[of env p t ptr count v rv] by (auto simp: stdio_next_def split: option.splits vnode_kind.splits)
    then show ?thesis using stdio_ends_step[OF Some] by blast
  qed
qed

lemma returns_ends_write:
  assumes "handle_write p fd ptr count v = Some rv"
  shows "count \<noteq> 0 \<longrightarrow> (\<exists>k. stdio_ends k p v fd)"
proof (rule handle_write.raw_induct[OF _ assms, where P = "\<lambda>p fd ptr count v rv. count \<noteq> 0 \<longrightarrow> (\<exists>k. stdio_ends k p v fd)"])
  fix rec p fd ptr count v and rv :: "message \<times> vfs"
  assume ih: "\<And>p fd ptr count v y. rec p fd ptr count v = Some y \<Longrightarrow> count \<noteq> 0 \<longrightarrow> (\<exists>k. stdio_ends k p v fd)"
    and eq: "(if count = 0 then Some (val_reply 0, v) else case open_fd p fd v of None \<Rightarrow> Some (err_reply (- 9), v)
      | Some (i, e) \<Rightarrow> (case vkind e of DevStdio target_fd \<Rightarrow> rec p target_fd ptr count v
          | _ \<Rightarrow> Some (write_node p i fd e ptr count v))) = Some rv"
  show "count \<noteq> 0 \<longrightarrow> (\<exists>k. stdio_ends k p v fd)"
  proof (cases "stdio_next p v fd")
    case None
    then have "stdio_ends 0 p v fd" by simp
    then show ?thesis by blast
  next
    case (Some t)
    have "count \<noteq> 0 \<Longrightarrow> \<exists>k. stdio_ends k p v t"
      using Some eq ih[of p t ptr count v rv] by (auto simp: stdio_next_def split: option.splits vnode_kind.splits)
    then show ?thesis using stdio_ends_step[OF Some] by blast
  qed
qed

text \<open>Targets are 0, 1 or 2: three steps decide.\<close>

lemma closed_never_ends:
  assumes "\<And>x. x \<in> S \<Longrightarrow> \<exists>y \<in> S. stdio_next p v x = Some y" "x \<in> S"
  shows "\<not> stdio_ends k p v x"
  using assms(2)
proof (induction k arbitrary: x)
  case 0
  then show ?case using assms(1)[OF 0] by auto
next
  case (Suc k)
  then show ?case using assms(1)[OF Suc.prems] by auto
qed

lemma stdio_next_lt:
  assumes "vfs_inv v" "stdio_next p v fd = Some t"
  shows "t < 3"
proof -
  obtain i e where "open_fd p fd v = Some (i, e)" "vkind e = DevStdio t"
    using assms(2) by (auto simp: stdio_next_def split: option.splits vnode_kind.splits)
  then show ?thesis using open_fdD(5)[OF assms(1)] by fastforce
qed

lemma stdio_ends_3:
  assumes "vfs_inv v" "stdio_ends k p v fd"
  shows "stdio_ends 3 p v fd"
proof (rule ccontr)
  assume "\<not> stdio_ends 3 p v fd"
  then obtain a b c d where s: "stdio_next p v fd = Some a" "stdio_next p v a = Some b" "stdio_next p v b = Some c"
    "stdio_next p v c = Some d"
    by (auto simp: numeral_3_eq_3 split: option.splits)
  note lt = s[THEN stdio_next_lt[OF assms(1)]]
  have "\<exists>y \<in> {fd, a, b, c}. stdio_next p v x = Some y" if "x \<in> {fd, a, b, c}" for x
  proof -
    have "d \<in> {a, b, c}"
    proof (rule ccontr)
      assume n: "d \<notin> {a, b, c}"
      have "a \<noteq> b" "a \<noteq> c" "b \<noteq> c" using s n by auto
      then show False using lt n by auto
    qed
    then show ?thesis using that s by auto
  qed
  then show False using closed_never_ends[of "{fd, a, b, c}" p v fd k] assms(2) by auto
qed

definition names_ok :: "u8 list \<Rightarrow> bool" where
  "names_ok d \<longleftrightarrow> (\<forall>off. off + 110 \<le> length d \<longrightarrow> slice d off (off + 6) = CPIO_MAGIC \<longrightarrow> cpio_namesize d off \<noteq> 0)"

lemma list_initrd_returns: "names_ok d \<Longrightarrow> list_initrd ptr count dir d off l \<noteq> None"
proof (induction "length d - off" arbitrary: off l rule: less_induct)
  case less
  have names: "cpio_namesize d off \<noteq> 0" if "off + 110 \<le> length d" "slice d off (off + 6) = CPIO_MAGIC"
    using less(2) that by (simp add: names_ok_def)
  have "list_initrd ptr count dir d off' l' \<noteq> None" if "\<not> off' \<le> off" "\<not> length d < off + 110" for off' l'
    using less that by simp
  then show ?case
    using names by (subst list_initrd.simps) (auto simp: Let_def not_less split: sum.split)
qed

lemma getdents_returns:
  assumes "\<And>d. initrd_data v = Some d \<Longrightarrow> names_ok d"
  shows "handle_getdents64 p fd ptr count v \<noteq> None"
proof -
  have "list_dir ptr count dir (initrd_data v) l \<noteq> None" for dir l
    using assms list_initrd_returns by (auto simp: list_dir_def split: sum.split option.split)
  then have "(list_dir ptr count dir (initrd_data v) l \<bind> (\<lambda>res. Some (h res))) \<noteq> None" for dir l and h :: "_ \<Rightarrow> message \<times> vfs"
    by (simp add: bind_eq_None_conv)
  then show ?thesis
    by (simp add: handle_getdents64_def Let_def del: not_None_eq split: option.split vnode_kind.split sum.split)
qed


text \<open>A process whose standard input is the device \<open>/dev/stdin\<close> itself.\<close>

definition loop_vfs :: vfs where
  "loop_vfs = (let v = vfs_statics \<lparr>frames = buddy_new, ram = (\<lambda>x. 0), hhdm_off = 0, shootdowns = 0\<rparr>
     in v\<lparr>fd_tables := (fd_tables v)[0 := fd_table_empty\<lparr>tbl_in_use := True, tbl_pid := 7,
          fds := (replicate MAX_FDS fd_empty)[0 := \<lparr>vkind = DevStdio 0, fd_flags = 0, fd_in_use = True\<rparr>]\<rparr>]\<rparr>)"




end
