(* ===== verification/Tty.thy ===== *)
theory Tty
  imports Vfs_State Signal
begin

text \<open>
  The terminal server (\<open>src/servers/tty/src/lib.rs\<close>): terminals of a process, pseudo-terminal pairs and POSIX
  timers. Requests and replies are encoded as for the file server.
\<close>

definition TTY_OPEN :: u64 where "TTY_OPEN = 0x40"
definition TTY_READ :: u64 where "TTY_READ = 0x41"
definition TTY_WRITE :: u64 where "TTY_WRITE = 0x42"
definition TTY_IOCTL :: u64 where "TTY_IOCTL = 0x43"
definition TTY_CLOSE :: u64 where "TTY_CLOSE = 0x44"
definition TTY_ISATTY :: u64 where "TTY_ISATTY = 0x45"
definition TIMER_CREATE :: u64 where "TIMER_CREATE = 0x50"
definition TIMER_SETTIME :: u64 where "TIMER_SETTIME = 0x51"
definition TIMER_GETTIME :: u64 where "TIMER_GETTIME = 0x52"
definition TIMER_DELETE :: u64 where "TIMER_DELETE = 0x53"

definition TTY_FD_BASE :: nat where "TTY_FD_BASE = 0x200"
definition TTY_MAX_PROCS :: nat where "TTY_MAX_PROCS = 64"
definition MAX_TTYS :: nat where "MAX_TTYS = 4"
definition MAX_TIMERS :: nat where "MAX_TIMERS = 8"
definition TTY_BUF :: nat where "TTY_BUF = 4096"
definition MAX_PTS :: nat where "MAX_PTS = 8"

subsection \<open>Data\<close>

record termios =
  c_iflag :: u32
  c_oflag :: u32
  c_cflag :: u32
  c_lflag :: u32
  c_line :: u8
  c_cc :: "u8 list"

definition default_console :: termios where
  "default_console = \<lparr>c_iflag = 0x0500, c_oflag = 0x0005, c_cflag = 0x04BF, c_lflag = 0x8A3B, c_line = 0,
     c_cc = (replicate 19 0)[2 := 0x7F, 3 := 0x15, 4 := 4, 7 := 0, 8 := 0, 9 := 0x1A, 11 := 0x11, 12 := 0x12, 13 := 0x17, 14 := 0x16]\<rparr>"

record tty_buf =
  tb_data :: "u8 list"
  tb_rpos :: nat
  tb_wpos :: nat
  tb_count :: nat

definition tty_buf_new :: tty_buf where
  "tty_buf_new = \<lparr>tb_data = replicate TTY_BUF 0, tb_rpos = 0, tb_wpos = 0, tb_count = 0\<rparr>"

definition tty_buf_write :: "u8 \<Rightarrow> tty_buf \<Rightarrow> bool \<times> tty_buf" where
  "tty_buf_write b t =
     (if tb_count t \<ge> TTY_BUF then (False, t)
      else (True, t\<lparr>tb_data := (tb_data t)[tb_wpos t := b], tb_wpos := (tb_wpos t + 1) mod TTY_BUF, tb_count := tb_count t + 1\<rparr>))"

definition tty_buf_read :: "tty_buf \<Rightarrow> u8 option \<times> tty_buf" where
  "tty_buf_read t =
     (if tb_count t = 0 then (None, t)
      else (Some (tb_data t ! tb_rpos t), t\<lparr>tb_rpos := (tb_rpos t + 1) mod TTY_BUF, tb_count := tb_count t - 1\<rparr>))"

datatype tty_kind = TtyNone | Console | PtsMaster nat | PtsSlave nat

record tty_entry =
  te_kind :: tty_kind
  te_in_use :: bool
  te_termios :: termios

definition tty_entry_empty :: tty_entry where
  "tty_entry_empty = \<lparr>te_kind = TtyNone, te_in_use = False, te_termios = default_console\<rparr>"

record tty_table =
  tt_pid :: u32
  ttys :: "tty_entry list"
  tt_in_use :: bool

definition tty_table_empty :: tty_table where
  "tty_table_empty = \<lparr>tt_pid = 0, ttys = replicate MAX_TTYS tty_entry_empty, tt_in_use = False\<rparr>"

definition tty_alloc :: "tty_table \<Rightarrow> nat option" where
  "tty_alloc t = position (\<lambda>e. \<not> te_in_use e) (ttys t)"

record pts_pair =
  pp_in_use :: bool
  m_to_s :: tty_buf
  s_to_m :: tty_buf

definition pts_pair_new :: pts_pair where
  "pts_pair_new = \<lparr>pp_in_use = False, m_to_s = tty_buf_new, s_to_m = tty_buf_new\<rparr>"

record posix_timer =
  pt_in_use :: bool
  pt_signo :: u32
  pt_interval :: u64
  pt_deadline :: u64
  pt_owner :: u32

definition posix_timer_new :: posix_timer where
  "posix_timer_new = \<lparr>pt_in_use = False, pt_signo = 0, pt_interval = 0, pt_deadline = 0, pt_owner = 0\<rparr>"

record timer_table =
  tm_pid :: u32
  tm_timers :: "posix_timer list"
  tm_in_use :: bool

definition timer_table_empty :: timer_table where
  "timer_table_empty = \<lparr>tm_pid = 0, tm_timers = replicate MAX_TIMERS posix_timer_new, tm_in_use = False\<rparr>"

definition timer_alloc :: "timer_table \<Rightarrow> nat option" where
  "timer_alloc t = position (\<lambda>e. \<not> pt_in_use e) (tm_timers t)"

record tty_state =
  tty_tables :: "tty_table list"
  pts_pairs :: "pts_pair list"
  timer_tables :: "timer_table list"

definition tty_statics :: tty_state where
  "tty_statics = \<lparr>tty_tables = replicate TTY_MAX_PROCS tty_table_empty, pts_pairs = replicate MAX_PTS pts_pair_new,
     timer_tables = replicate TTY_MAX_PROCS timer_table_empty\<rparr>"

subsection \<open>Tables\<close>

definition find_tty :: "u32 \<Rightarrow> tty_state \<Rightarrow> nat option" where
  "find_tty p s = position (\<lambda>t. tt_in_use t \<and> tt_pid t = p) (tty_tables s)"

definition get_or_create_tty :: "u32 \<Rightarrow> tty_state \<Rightarrow> nat option \<times> tty_state" where
  "get_or_create_tty p s = (case find_tty p s of
       Some i \<Rightarrow> (Some i, s)
     | None \<Rightarrow> (case position (\<lambda>t. \<not> tt_in_use t) (tty_tables s) of
         None \<Rightarrow> (None, s)
       | Some i \<Rightarrow> (Some i, s\<lparr>tty_tables := (tty_tables s)[i := tty_table_empty\<lparr>tt_in_use := True, tt_pid := p\<rparr>]\<rparr>)))"

definition fd_to_slot :: "nat \<Rightarrow> nat option" where
  "fd_to_slot fd = (if fd \<ge> TTY_FD_BASE \<and> fd < TTY_FD_BASE + MAX_TTYS then Some (fd - TTY_FD_BASE) else None)"

text \<open>The open terminal a descriptor stands for: its table, its slot and its entry.\<close>

definition open_tty :: "u32 \<Rightarrow> nat \<Rightarrow> tty_state \<Rightarrow> (nat \<times> nat \<times> tty_entry) option" where
  "open_tty p fd s = (case fd_to_slot fd of
       None \<Rightarrow> None
     | Some slot \<Rightarrow> (case find_tty p s of
         None \<Rightarrow> None
       | Some i \<Rightarrow>
           (let e = ttys (tty_tables s ! i) ! slot
            in if slot \<ge> MAX_TTYS \<or> \<not> te_in_use e then None else Some (i, slot, e))))"

definition put_tty :: "nat \<Rightarrow> nat \<Rightarrow> tty_entry \<Rightarrow> tty_state \<Rightarrow> tty_state" where
  "put_tty i slot e s =
     s\<lparr>tty_tables := (tty_tables s)[i := (tty_tables s ! i)\<lparr>ttys := (ttys (tty_tables s ! i))[slot := e]\<rparr>]\<rparr>"

definition timer_idx :: "u32 \<Rightarrow> tty_state \<Rightarrow> nat option" where
  "timer_idx p s = position (\<lambda>t. tm_in_use t \<and> tm_pid t = p) (timer_tables s)"

definition put_timer :: "nat \<Rightarrow> nat \<Rightarrow> posix_timer \<Rightarrow> tty_state \<Rightarrow> tty_state" where
  "put_timer i k t s = s\<lparr>timer_tables := (timer_tables s)[i :=
     (timer_tables s ! i)\<lparr>tm_timers := (tm_timers (timer_tables s ! i))[k := t]\<rparr>]\<rparr>"

subsection \<open>Terminals\<close>

text \<open>Only the raw kind 2 opens a slave, so the pair it carries in its upper bits is always 0.\<close>

definition tty_open :: "u32 \<Rightarrow> nat \<Rightarrow> tty_state \<Rightarrow> message \<times> tty_state" where
  "tty_open p kind_raw s =
     (let res = (if kind_raw = 0 then (Inr Console, s)
                 else if kind_raw = 1 then
                   (case position (\<lambda>q. \<not> pp_in_use q) (pts_pairs s) of
                      None \<Rightarrow> (Inl (- 24), s)
                    | Some i \<Rightarrow> (Inr (PtsMaster i), s\<lparr>pts_pairs := (pts_pairs s)[i := (pts_pairs s ! i)\<lparr>pp_in_use := True\<rparr>]\<rparr>))
                 else if kind_raw = 2 then (Inr (PtsSlave (kind_raw div 256)), s)
                 else (Inl (- 22), s))
      in case res of
           (Inl e, s1) \<Rightarrow> (err_reply e, s1)
         | (Inr k, s1) \<Rightarrow> (case get_or_create_tty p s1 of
             (None, s2) \<Rightarrow> (err_reply (- 12), s2)
           | (Some i, s2) \<Rightarrow> (case tty_alloc (tty_tables s2 ! i) of
               None \<Rightarrow> (err_reply (- 24), s2)
             | Some slot \<Rightarrow>
                 (val_reply (of_nat (slot + TTY_FD_BASE)),
                  put_tty i slot \<lparr>te_kind = k, te_in_use = True, te_termios = default_console\<rparr> s2))))"

fun tty_read_loop :: "nat \<Rightarrow> tty_buf \<Rightarrow> u8 list \<times> tty_buf" where
  "tty_read_loop 0 t = ([], t)"
| "tty_read_loop (Suc k) t = (case tty_buf_read t of
       (None, t1) \<Rightarrow> ([], t1)
     | (Some b, t1) \<Rightarrow> (let (bs, t2) = tty_read_loop k t1 in (b # bs, t2)))"

fun tty_write_loop :: "u8 list \<Rightarrow> tty_buf \<Rightarrow> nat \<times> tty_buf" where
  "tty_write_loop [] t = (0, t)"
| "tty_write_loop (b # bs) t = (case tty_buf_write b t of
       (False, t1) \<Rightarrow> (0, t1)
     | (True, t1) \<Rightarrow> (let (n, t2) = tty_write_loop bs t1 in (Suc n, t2)))"

definition put_pair :: "nat \<Rightarrow> pts_pair \<Rightarrow> tty_state \<Rightarrow> tty_state" where
  "put_pair i q s = s\<lparr>pts_pairs := (pts_pairs s)[i := q]\<rparr>"

definition tty_read :: "u32 \<Rightarrow> nat \<Rightarrow> usize \<Rightarrow> nat \<Rightarrow> tty_state \<times> memory \<Rightarrow> message \<times> tty_state \<times> memory" where
  "tty_read p fd ptr count = (\<lambda>(s, m). case open_tty p fd s of
       None \<Rightarrow> (err_reply (- 9), s, m)
     | Some (i, slot, e) \<Rightarrow> (case te_kind e of
         Console \<Rightarrow> (val_reply 0, s, m)
       | PtsSlave pair \<Rightarrow>
           (let (bs, t) = tty_read_loop (min count TTY_BUF) (m_to_s (pts_pairs s ! pair))
            in (val_reply (of_nat (length bs)), put_pair pair ((pts_pairs s ! pair)\<lparr>m_to_s := t\<rparr>) s, write_slice m ptr bs))
       | PtsMaster pair \<Rightarrow>
           (let (bs, t) = tty_read_loop (min count TTY_BUF) (s_to_m (pts_pairs s ! pair))
            in (val_reply (of_nat (length bs)), put_pair pair ((pts_pairs s ! pair)\<lparr>s_to_m := t\<rparr>) s, write_slice m ptr bs))
       | TtyNone \<Rightarrow> (err_reply (- 9), s, m)))"

definition tty_write :: "u32 \<Rightarrow> nat \<Rightarrow> usize \<Rightarrow> nat \<Rightarrow> tty_state \<times> memory \<Rightarrow> message \<times> tty_state \<times> memory" where
  "tty_write p fd ptr count = (\<lambda>(s, m). case open_tty p fd s of
       None \<Rightarrow> (err_reply (- 9), s, m)
     | Some (i, slot, e) \<Rightarrow> (case te_kind e of
         Console \<Rightarrow> (val_reply (of_nat count), s, m)
       | PtsMaster pair \<Rightarrow>
           (let (n, t) = tty_write_loop (read_slice m ptr count) (m_to_s (pts_pairs s ! pair))
            in (val_reply (of_nat n), put_pair pair ((pts_pairs s ! pair)\<lparr>m_to_s := t\<rparr>) s, m))
       | PtsSlave pair \<Rightarrow>
           (let (n, t) = tty_write_loop (read_slice m ptr count) (s_to_m (pts_pairs s ! pair))
            in (val_reply (of_nat n), put_pair pair ((pts_pairs s ! pair)\<lparr>s_to_m := t\<rparr>) s, m))
       | TtyNone \<Rightarrow> (err_reply (- 9), s, m)))"

definition load32 :: "memory \<Rightarrow> usize \<Rightarrow> u32" where
  "load32 m p = ucast (load_le 4 m p)"

definition store16 :: "memory \<Rightarrow> usize \<Rightarrow> u16 \<Rightarrow> memory" where
  "store16 m p v = (\<lambda>x. if x - p < 2 then byte_of (ucast v) (unat (x - p)) else m x)"

definition store_termios :: "memory \<Rightarrow> usize \<Rightarrow> termios \<Rightarrow> memory" where
  "store_termios m a t =
     (let m1 = store32 m a (c_iflag t);
          m2 = store32 m1 (a + 4) (c_oflag t);
          m3 = store32 m2 (a + 8) (c_cflag t);
          m4 = store32 m3 (a + 12) (c_lflag t);
          m5 = m4(a + 16 := c_line t)
      in write_slice m5 (a + 17) (c_cc t))"

definition load_termios :: "memory \<Rightarrow> usize \<Rightarrow> termios" where
  "load_termios m a = \<lparr>c_iflag = load32 m a, c_oflag = load32 m (a + 4), c_cflag = load32 m (a + 8), c_lflag = load32 m (a + 12),
     c_line = m (a + 16), c_cc = read_slice m (a + 17) 19\<rparr>"

definition TCGETS :: usize where "TCGETS = 0x5401"
definition TCSETS :: usize where "TCSETS = 0x5402"
definition TCSETSW :: usize where "TCSETSW = 0x5403"
definition TCSETSF :: usize where "TCSETSF = 0x5404"
definition TIOCGWINSZ :: usize where "TIOCGWINSZ = 0x5413"

definition tty_ioctl :: "u32 \<Rightarrow> nat \<Rightarrow> usize \<Rightarrow> usize \<Rightarrow> tty_state \<times> memory \<Rightarrow> message \<times> tty_state \<times> memory" where
  "tty_ioctl p fd cmd a = (\<lambda>(s, m). case open_tty p fd s of
       None \<Rightarrow> (err_reply (- 25), s, m)
     | Some (i, slot, e) \<Rightarrow>
         (if cmd = TCGETS then
            (if a = 0 then (err_reply (- 14), s, m) else (ok_reply, s, store_termios m a (te_termios e)))
          else if cmd = TCSETS \<or> cmd = TCSETSW \<or> cmd = TCSETSF then
            (if a = 0 then (err_reply (- 14), s, m)
             else (ok_reply, put_tty i slot (e\<lparr>te_termios := load_termios m a\<rparr>) s, m))
          else if cmd = TIOCGWINSZ then
            (if a = 0 then (err_reply (- 14), s, m)
             else (ok_reply, s, store16 (store16 (store16 (store16 m a 24) (a + 2) 80) (a + 4) 0) (a + 6) 0))
          else (err_reply (- 25), s, m)))"

definition tty_close :: "u32 \<Rightarrow> nat \<Rightarrow> tty_state \<Rightarrow> message \<times> tty_state" where
  "tty_close p fd s = (case fd_to_slot fd of
       None \<Rightarrow> (err_reply (- 9), s)
     | Some _ \<Rightarrow> (case open_tty p fd s of
         None \<Rightarrow> (ok_reply, s)
       | Some (i, slot, e) \<Rightarrow> (case te_kind e of
           PtsMaster pair \<Rightarrow> (ok_reply, put_pair pair ((pts_pairs s ! pair)\<lparr>pp_in_use := False\<rparr>) s)
         | _ \<Rightarrow> (ok_reply, put_tty i slot tty_entry_empty s))))"

definition tty_isatty :: "u32 \<Rightarrow> nat \<Rightarrow> tty_state \<Rightarrow> message" where
  "tty_isatty p fd s = (case open_tty p fd s of
       None \<Rightarrow> val_reply 0
     | Some (i, slot, e) \<Rightarrow> (if te_kind e \<noteq> TtyNone then val_reply 1 else val_reply 0))"

subsection \<open>POSIX timers\<close>

definition TICK_HZ :: u64 where "TICK_HZ = 100"
definition NSEC_PER_TICK :: u64 where "NSEC_PER_TICK = 1000000000 div TICK_HZ"

definition tty_timer_create :: "u32 \<Rightarrow> u32 \<Rightarrow> usize \<Rightarrow> tty_state \<times> memory \<Rightarrow> message \<times> tty_state \<times> memory" where
  "tty_timer_create p signo ptr = (\<lambda>(s, m).
     case (case timer_idx p s of Some i \<Rightarrow> Some i | None \<Rightarrow> position (\<lambda>t. \<not> tm_in_use t) (timer_tables s)) of
       None \<Rightarrow> (err_reply (- 12), s, m)
     | Some i \<Rightarrow>
         (let s1 = s\<lparr>timer_tables := (timer_tables s)[i := (timer_tables s ! i)\<lparr>tm_in_use := True, tm_pid := p\<rparr>]\<rparr>
          in case timer_alloc (timer_tables s1 ! i) of
               None \<Rightarrow> (err_reply (- 11), s1, m)
             | Some k \<Rightarrow>
                 (ok_reply,
                  put_timer i k \<lparr>pt_in_use = True, pt_signo = signo, pt_interval = 0, pt_deadline = 0, pt_owner = p\<rparr> s1,
                  if ptr \<noteq> 0 then store32 m ptr (of_nat k) else m)))"

definition ticks_of :: "u64 \<Rightarrow> u64 \<Rightarrow> u64" where
  "ticks_of sec nsec = sec * TICK_HZ + nsec div (1000000000 div TICK_HZ)"

definition tty_timer_settime :: "u64 \<Rightarrow> u32 \<Rightarrow> nat \<Rightarrow> usize \<Rightarrow> tty_state \<times> memory \<Rightarrow> message \<times> tty_state \<times> memory" where
  "tty_timer_settime t p timerid ispec = (\<lambda>(s, m).
     if ispec = 0 then (err_reply (- 14), s, m)
     else
       let interval_ticks = ticks_of (load64 m ispec) (load64 m (ispec + 8));
           value_ticks = ticks_of (load64 m (ispec + 16)) (load64 m (ispec + 24))
       in case timer_idx p s of
            None \<Rightarrow> (ok_reply, s, m)
          | Some i \<Rightarrow>
              (let q = tm_timers (timer_tables s ! i) ! timerid
               in if timerid < MAX_TIMERS \<and> pt_in_use q
                  then (ok_reply, put_timer i timerid (q\<lparr>pt_interval := interval_ticks,
                          pt_deadline := (if value_ticks > 0 then t + value_ticks else 0)\<rparr>) s, m)
                  else (ok_reply, s, m)))"

definition tty_timer_gettime :: "u64 \<Rightarrow> u32 \<Rightarrow> nat \<Rightarrow> usize \<Rightarrow> tty_state \<times> memory \<Rightarrow> message \<times> tty_state \<times> memory" where
  "tty_timer_gettime t p timerid ospec = (\<lambda>(s, m).
     if ospec = 0 then (err_reply (- 14), s, m)
     else case timer_idx p s of
       None \<Rightarrow> (err_reply (- 22), s, m)
     | Some i \<Rightarrow>
         (let q = tm_timers (timer_tables s ! i) ! timerid
          in if timerid < MAX_TIMERS \<and> pt_in_use q then
               let remaining = (if pt_deadline q > t then pt_deadline q - t else 0);
                   m1 = store64 m ospec (pt_interval q div TICK_HZ);
                   m2 = store64 m1 (ospec + 8) ((pt_interval q mod TICK_HZ) * NSEC_PER_TICK);
                   m3 = store64 m2 (ospec + 16) (remaining div TICK_HZ);
                   m4 = store64 m3 (ospec + 24) ((remaining mod TICK_HZ) * NSEC_PER_TICK)
               in (ok_reply, s, m4)
             else (err_reply (- 22), s, m)))"

definition tty_timer_delete :: "u32 \<Rightarrow> nat \<Rightarrow> tty_state \<Rightarrow> message \<times> tty_state" where
  "tty_timer_delete p timerid s = (case timer_idx p s of
       None \<Rightarrow> (ok_reply, s)
     | Some i \<Rightarrow> (if timerid < MAX_TIMERS then (ok_reply, put_timer i timerid posix_timer_new s) else (ok_reply, s)))"

text \<open>The timers of a process that have expired deliver their signals.\<close>

fun check_timer_list :: "u64 \<Rightarrow> posix_timer list \<Rightarrow> sched \<Rightarrow> posix_timer list \<times> sched" where
  "check_timer_list t [] sc = ([], sc)"
| "check_timer_list t (q # qs) sc =
     (if \<not> pt_in_use q \<or> pt_deadline q = 0 \<or> t < pt_deadline q then
        (let (qs', sc') = check_timer_list t qs sc in (q # qs', sc'))
      else
        let sc1 = snd (deliver_signal (pt_owner q) (pt_signo q) sc);
            q' = (if pt_interval q > 0 then q\<lparr>pt_deadline := pt_deadline q + pt_interval q\<rparr> else q\<lparr>pt_deadline := 0\<rparr>);
            (qs', sc') = check_timer_list t qs sc1
        in (q' # qs', sc'))"

definition check_timers :: "u32 \<Rightarrow> tty_state \<Rightarrow> sched \<Rightarrow> tty_state \<times> sched" where
  "check_timers p s sc = (case timer_idx p s of
       None \<Rightarrow> (s, sc)
     | Some i \<Rightarrow>
         (let (qs, sc') = check_timer_list (timer_ticks sc) (tm_timers (timer_tables s ! i)) sc
          in (s\<lparr>timer_tables := (timer_tables s)[i := (timer_tables s ! i)\<lparr>tm_timers := qs\<rparr>]\<rparr>, sc')))"

definition tty_close_all :: "u32 \<Rightarrow> tty_state \<Rightarrow> tty_state" where
  "tty_close_all p s =
     (let s1 = (case find_tty p s of None \<Rightarrow> s | Some i \<Rightarrow> s\<lparr>tty_tables := (tty_tables s)[i := tty_table_empty]\<rparr>)
      in case timer_idx p s1 of None \<Rightarrow> s1 | Some i \<Rightarrow> s1\<lparr>timer_tables := (timer_tables s1)[i := timer_table_empty]\<rparr>)"

subsection \<open>Dispatch\<close>

definition tty_handle :: "u64 \<Rightarrow> message \<Rightarrow> u32 \<Rightarrow> tty_state \<times> memory \<Rightarrow> message \<times> tty_state \<times> memory" where
  "tty_handle t msg p = (\<lambda>(s, m).
     let a = vfs_arg msg; n = (\<lambda>k. unat (vfs_arg msg k)); tag = msg_tag msg
     in if tag = TTY_OPEN then (let (r, s') = tty_open p (n 0) s in (r, s', m))
        else if tag = TTY_READ then tty_read p (n 0) (a 1) (n 2) (s, m)
        else if tag = TTY_WRITE then tty_write p (n 0) (a 1) (n 2) (s, m)
        else if tag = TTY_IOCTL then tty_ioctl p (n 0) (a 1) (a 2) (s, m)
        else if tag = TTY_CLOSE then (let (r, s') = tty_close p (n 0) s in (r, s', m))
        else if tag = TTY_ISATTY then (tty_isatty p (n 0) s, s, m)
        else if tag = TIMER_CREATE then tty_timer_create p (ucast (a 0)) (a 1) (s, m)
        else if tag = TIMER_SETTIME then tty_timer_settime t p (n 0) (a 1) (s, m)
        else if tag = TIMER_GETTIME then tty_timer_gettime t p (n 0) (a 1) (s, m)
        else if tag = TIMER_DELETE then (let (r, s') = tty_timer_delete p (n 0) s in (r, s', m))
        else (err_reply (- 38), s, m))"

lemmas tty_tags = TTY_OPEN_def TTY_READ_def TTY_WRITE_def TTY_IOCTL_def TTY_CLOSE_def TTY_ISATTY_def TIMER_CREATE_def
  TIMER_SETTIME_def TIMER_GETTIME_def TIMER_DELETE_def

end
