(* ===== verification/Tty_Props.thy ===== *)
theory Tty_Props
  imports Tty Vfs_Pipe
begin

text \<open>
  The buffers of a pseudo-terminal are queues, a POSIX timer reports the time it was set to, and what happens
  to a pair whose master is closed.
\<close>

subsection \<open>Terminal buffers\<close>

definition as_pipe :: "tty_buf \<Rightarrow> pipe_ring" where
  "as_pipe t = \<lparr>p_buf = tb_data t, read_pos = tb_rpos t, write_pos = tb_wpos t, p_count = tb_count t,
     read_open = True, write_open = True\<rparr>"

definition tty_items :: "tty_buf \<Rightarrow> u8 list" where
  "tty_items t = pipe_items (as_pipe t)"

definition tty_ok :: "tty_buf \<Rightarrow> bool" where
  "tty_ok t \<longleftrightarrow> pipe_ok (as_pipe t)"

lemma TTY_BUF_pipe: "TTY_BUF = PIPE_RING_SIZE"
  by (simp add: TTY_BUF_def PIPE_RING_SIZE_def)

lemma tty_buf_write_pipe:
  "fst (tty_buf_write b t) = fst (pipe_put b (as_pipe t))" "as_pipe (snd (tty_buf_write b t)) = snd (pipe_put b (as_pipe t))"
  by (simp_all add: tty_buf_write_def pipe_put_def as_pipe_def TTY_BUF_pipe)

lemma tty_buf_read_pipe:
  "fst (tty_buf_read t) = fst (pipe_get (as_pipe t))" "as_pipe (snd (tty_buf_read t)) = snd (pipe_get (as_pipe t))"
  by (simp_all add: tty_buf_read_def pipe_get_def as_pipe_def TTY_BUF_pipe)

interpretation tbuf: bounded_fifo tty_buf_write tty_buf_read tty_items tty_ok "\<lambda>_. TTY_BUF"
proof (unfold_locales, goal_cases)
  case (1 t b) then show ?case
    using pipe.enq_room[of "as_pipe t" b] by (simp add: tty_ok_def tty_items_def tty_buf_write_pipe TTY_BUF_pipe)
next
  case (2 t b) then show ?case
    by (simp add: tty_items_def as_pipe_def tty_buf_write_def)
next
  case (3 t) then show ?case
    using length_pipe_items[of "as_pipe t"] by (simp add: tty_items_def tty_buf_read_def) (simp add: as_pipe_def)
next
  case (4 t b bs) then show ?case
    using pipe.deq_some[of "as_pipe t" b bs] by (simp add: tty_ok_def tty_items_def tty_buf_read_pipe)
next
  case (5 t b) then show ?case
    using pipe.enq_invar[of "as_pipe t" b] by (simp add: tty_ok_def tty_buf_write_pipe)
next
  case (6 t) then show ?case
    using pipe.deq_invar[of "as_pipe t"] by (simp add: tty_ok_def tty_buf_read_pipe)
next
  case (7 t) then show ?case
    using pipe.items_cap[of "as_pipe t"] by (simp add: tty_ok_def tty_items_def TTY_BUF_pipe)
qed

lemma tty_write_loop_pipe:
  "pipe_write_loop bs (as_pipe t) = (fst (tty_write_loop bs t), as_pipe (snd (tty_write_loop bs t)))"
proof (induction bs arbitrary: t)
  case (Cons b bs)
  obtain ok t1 where w: "tty_buf_write b t = (ok, t1)" by fastforce
  then have "pipe_put b (as_pipe t) = (ok, as_pipe t1)"
    using tty_buf_write_pipe[of b t] by (simp add: prod_eq_iff)
  then show ?case using Cons[of t1] w by (cases ok) (simp_all add: case_prod_beta Let_def)
qed simp

lemma tty_read_loop_pipe:
  "pipe_read_loop k (as_pipe t) = (fst (tty_read_loop k t), as_pipe (snd (tty_read_loop k t)))"
proof (induction k arbitrary: t)
  case (Suc k)
  obtain ob t1 where w: "tty_buf_read t = (ob, t1)" by fastforce
  then have "pipe_get (as_pipe t) = (ob, as_pipe t1)"
    using tty_buf_read_pipe[of t] by (simp add: prod_eq_iff)
  then show ?case using Suc[of t1] w by (cases ob) (simp_all add: case_prod_beta Let_def)
qed simp

subsection \<open>Timers\<close>

lemma ticks_of_split:
  assumes "unat sec < 2 ^ 56" "unat nsec < 1000000000"
  shows "ticks_of sec nsec div TICK_HZ = sec" "(ticks_of sec nsec mod TICK_HZ) * NSEC_PER_TICK = nsec - nsec mod 10000000"
proof -
  define a where "a = unat sec"
  define b where "b = unat nsec"
  have ab: "a < 72057594037927936" "b < 1000000000" using assms by (simp_all add: a_def b_def)
  have q: "b div 10000000 < 100" using ab(2) by (simp add: div_less_iff_less_mult)
  have t: "unat (ticks_of sec nsec) = a * 100 + b div 10000000"
  proof -
    have "unat (sec * 100) = a * 100"
      using ab by (simp add: a_def unat_word_ariths)
    moreover have "unat (nsec div 10000000) = b div 10000000" by (simp add: b_def unat_div)
    ultimately show ?thesis using ab q by (simp add: ticks_of_def TICK_HZ_def unat_word_ariths)
  qed
  have "unat (ticks_of sec nsec div TICK_HZ) = unat sec"
    using q by (simp add: unat_div t TICK_HZ_def a_def)
  then show "ticks_of sec nsec div TICK_HZ = sec" by (simp add: word_unat_eq_iff)
  have "unat (ticks_of sec nsec mod TICK_HZ) = b div 10000000"
    using q by (simp add: unat_mod t TICK_HZ_def)
  then have "unat ((ticks_of sec nsec mod TICK_HZ) * NSEC_PER_TICK) = b div 10000000 * 10000000"
    using q by (simp add: unat_word_ariths NSEC_PER_TICK_def TICK_HZ_def)
  moreover have "unat (nsec - nsec mod 10000000) = b - b mod 10000000"
    by (simp add: unat_sub word_le_nat_alt unat_mod b_def)
  ultimately show "(ticks_of sec nsec mod TICK_HZ) * NSEC_PER_TICK = nsec - nsec mod 10000000"
    by (simp add: word_unat_eq_iff minus_mod_eq_div_mult)
qed

lemma timer_idx_put [simp]: "timer_idx p (put_timer i k q s) = timer_idx p s"
  by (simp add: timer_idx_def put_timer_def position_update_same)

text \<open>Four words stored one after the other are read back.\<close>

lemma load64_four:
  fixes b :: usize and m m' :: memory
  assumes "m' = store64 (store64 (store64 (store64 m b w0) (b + 8) w1) (b + 16) w2) (b + 24) w3"
  shows "load64 m' b = w0" "load64 m' (b + 8) = w1" "load64 m' (b + 16) = w2" "load64 m' (b + 24) = w3"
  using load64_store64_off[of 8 0 _ b] load64_store64_off[of 16 0 _ b] load64_store64_off[of 24 0 _ b]
    load64_store64_off[of 16 8 _ b] load64_store64_off[of 24 8 _ b] load64_store64_off[of 24 16 _ b]
  by (simp_all add: assms)


definition demo_tty :: tty_state where
  "demo_tty = tty_statics\<lparr>timer_tables := (timer_tables tty_statics)[0 := \<lparr>tm_pid = 7,
     tm_timers = (replicate MAX_TIMERS posix_timer_new)[0 := posix_timer_new\<lparr>pt_in_use := True, pt_signo := 14, pt_owner := 7\<rparr>],
     tm_in_use = True\<rparr>]\<rparr>"

text \<open>An interval of 1.02 seconds and a value of 2.505 seconds.\<close>

definition demo_spec :: memory where
  "demo_spec = store64 (store64 (store64 (store64 (\<lambda>_. 0) 0x1000 1) (0x1000 + 8) 20000000) (0x1000 + 16) 2) (0x1000 + 24) 505000000"


subsection \<open>Closing a master\<close>

lemma open_tty_cong: "tty_tables s' = tty_tables s \<Longrightarrow> open_tty p fd s' = open_tty p fd s"
  by (simp only: open_tty_def find_tty_def)

lemma get_or_create_pairs: "get_or_create_tty p s = (r, s') \<Longrightarrow> pts_pairs s' = pts_pairs s"
  by (auto simp: get_or_create_tty_def split: option.splits)



end
