(* ===== verification/Boot_Parsers.thy ===== *)
theory Boot_Parsers
  imports Boot_Info Memory
begin

text \<open>
  The three parsers of boot information (\<open>src/boot/src/multiboot2.rs\<close>, \<open>device_tree.rs\<close>, \<open>limine.rs\<close>). A parser
  reads raw memory at the address the boot loader passed. Offsets into the blob are natural numbers: the blob
  lies in physical memory, far below the end of the address space, so no address wraps. The debug output of
  the device-tree parser is left out.
\<close>

definition byte_at :: "memory \<Rightarrow> usize \<Rightarrow> nat \<Rightarrow> u8" where
  "byte_at m b off = m (b + of_nat off)"

definition bytes_at :: "memory \<Rightarrow> usize \<Rightarrow> nat \<Rightarrow> nat \<Rightarrow> u8 list" where
  "bytes_at m b off n = map (\<lambda>i. byte_at m b (off + i)) [0..<n]"

definition empty_info :: boot_info where
  "empty_info = \<lparr>memory_map = [], framebuffer_base = 0, framebuffer_width = 0, framebuffer_height = 0, framebuffer_pitch = 0,
     rsdp_addr = 0, uart_base = 0, initrd_base = 0, initrd_size = 0, hhdm_offset = 0\<rparr>"

subsection \<open>Multiboot2\<close>

definition le_at :: "nat \<Rightarrow> memory \<Rightarrow> usize \<Rightarrow> nat \<Rightarrow> u64" where
  "le_at n m b off = load_le n m (b + of_nat off)"

abbreviation le32 :: "memory \<Rightarrow> usize \<Rightarrow> nat \<Rightarrow> u64" where "le32 \<equiv> le_at 4"
abbreviation le64 :: "memory \<Rightarrow> usize \<Rightarrow> nat \<Rightarrow> u64" where "le64 \<equiv> le_at 8"

definition TAG_END :: u64 where "TAG_END = 0"
definition TAG_MEMORY_MAP :: u64 where "TAG_MEMORY_MAP = 6"
definition TAG_FRAMEBUFFER :: u64 where "TAG_FRAMEBUFFER = 8"
definition TAG_ACPI_V1 :: u64 where "TAG_ACPI_V1 = 14"
definition TAG_ACPI_V2 :: u64 where "TAG_ACPI_V2 = 15"

definition MB2_MAX_REGIONS :: nat where "MB2_MAX_REGIONS = 128"

definition mb2_kind :: "u64 \<Rightarrow> memory_type" where
  "mb2_kind t = (if t = 1 then Available else if t = 3 then AcpiReclaimable else if t = 4 then AcpiNvs
     else if t = 5 then BadMemory else Reserved)"

definition mb2_entry :: "memory \<Rightarrow> usize \<Rightarrow> nat \<Rightarrow> memory_region" where
  "mb2_entry m b eoff = \<lparr>base = le64 m b eoff, length_of = le64 m b (eoff + 8), kind = mb2_kind (le32 m b (eoff + 16))\<rparr>"

function mb2_entries :: "memory \<Rightarrow> usize \<Rightarrow> nat \<Rightarrow> nat \<Rightarrow> nat \<Rightarrow> memory_region list \<Rightarrow> memory_region list" where
  "mb2_entries m b entry_size end_off eoff mm =
     (if entry_size = 0 \<or> eoff + entry_size > end_off then mm
      else mb2_entries m b entry_size end_off (eoff + entry_size)
             (if length mm < MB2_MAX_REGIONS then mm @ [mb2_entry m b eoff] else mm))"
  by pat_completeness auto

termination
  by (relation "measure (\<lambda>(m, b, sz, e, off, mm). e - off)") auto

declare mb2_entries.simps [simp del]

text \<open>One tag; \<open>None\<close> ends the loop.\<close>

definition mb2_tag :: "memory \<Rightarrow> usize \<Rightarrow> nat \<Rightarrow> memory_region list \<times> boot_info \<Rightarrow> (memory_region list \<times> boot_info) option" where
  "mb2_tag m b off = (\<lambda>(mm, info).
     let typ = le32 m b off; sz = unat (le32 m b (off + 4))
     in if typ = TAG_END then None
        else if typ = TAG_MEMORY_MAP then
          (let entry_size = unat (le32 m b (off + 8))
           in if entry_size = 0 then None
              else let mm' = mb2_entries m b entry_size (off + sz) (off + 16) mm
                in Some (mm', info\<lparr>memory_map := mm'\<rparr>))
        else if typ = TAG_FRAMEBUFFER then
          Some (mm, info\<lparr>framebuffer_base := le64 m b (off + 8), framebuffer_width := ucast (le32 m b (off + 20)),
                         framebuffer_height := ucast (le32 m b (off + 24)), framebuffer_pitch := ucast (le32 m b (off + 16))\<rparr>)
        else if typ = TAG_ACPI_V2 \<or> typ = TAG_ACPI_V1 \<and> rsdp_addr info = 0 then
          Some (mm, info\<lparr>rsdp_addr := b + of_nat (off + 8)\<rparr>)
        else Some (mm, info))"

definition align8 :: "nat \<Rightarrow> nat" where
  "align8 n = (n + 7) div 8 * 8"

function mb2_loop :: "memory \<Rightarrow> usize \<Rightarrow> nat \<Rightarrow> nat \<Rightarrow> memory_region list \<times> boot_info \<Rightarrow> boot_info" where
  "mb2_loop m b total_size off st =
     (if off \<ge> total_size then snd st
      else let sz = unat (le32 m b (off + 4))
        in if sz < 8 then snd st
           else case mb2_tag m b off st of
             None \<Rightarrow> snd st
           | Some st' \<Rightarrow> mb2_loop m b total_size (off + align8 sz) st')"
  by pat_completeness auto

termination
  by (relation "measure (\<lambda>(m, b, total_size, off, st). total_size - off)") (auto simp: align8_def)

declare mb2_loop.simps [simp del]

definition multiboot2_parse :: "memory \<Rightarrow> usize \<Rightarrow> boot_info" where
  "multiboot2_parse m b = mb2_loop m b (unat (le32 m b 0)) 8 ([], empty_info)"

subsection \<open>Device tree\<close>

definition FDT_MAGIC :: u64 where "FDT_MAGIC = 0xD00DFEED"
definition FDT_BEGIN_NODE :: u64 where "FDT_BEGIN_NODE = 1"
definition FDT_END_NODE :: u64 where "FDT_END_NODE = 2"
definition FDT_PROP :: u64 where "FDT_PROP = 3"
definition FDT_NOP :: u64 where "FDT_NOP = 4"
definition FDT_END :: u64 where "FDT_END = 9"

fun be_bytes :: "u8 list \<Rightarrow> u64" where
  "be_bytes [] = 0"
| "be_bytes (x # xs) = push_bit (8 * length xs) (ucast x) OR be_bytes xs"

definition be32 :: "memory \<Rightarrow> usize \<Rightarrow> nat \<Rightarrow> u64" where
  "be32 m b off = be_bytes (bytes_at m b off 4)"

definition be64 :: "memory \<Rightarrow> usize \<Rightarrow> nat \<Rightarrow> u64" where
  "be64 m b off = be_bytes (bytes_at m b off 8)"

definition is_valid_dtb :: "memory \<Rightarrow> usize \<Rightarrow> bool" where
  "is_valid_dtb m b \<longleftrightarrow> \<not> (b = 0 \<or> b AND 7 \<noteq> 0) \<and> be32 m b 0 = FDT_MAGIC"

text \<open>\<open>core::str::from_utf8\<close>.\<close>

definition cont :: "u8 \<Rightarrow> bool" where
  "cont c \<longleftrightarrow> 0x80 \<le> c \<and> c \<le> 0xBF"

fun utf8_valid :: "u8 list \<Rightarrow> bool" where
  "utf8_valid [] = True"
| "utf8_valid (b0 # r) =
     (if b0 < 0x80 then utf8_valid r
      else if 0xC2 \<le> b0 \<and> b0 \<le> 0xDF then
        (case r of b1 # r1 \<Rightarrow> cont b1 \<and> utf8_valid r1 | _ \<Rightarrow> False)
      else if 0xE0 \<le> b0 \<and> b0 \<le> 0xEF then
        (case r of b1 # b2 # r2 \<Rightarrow>
           (if b0 = 0xE0 then 0xA0 \<le> b1 \<and> b1 \<le> 0xBF else if b0 = 0xED then 0x80 \<le> b1 \<and> b1 \<le> 0x9F else cont b1)
           \<and> cont b2 \<and> utf8_valid r2 | _ \<Rightarrow> False)
      else if 0xF0 \<le> b0 \<and> b0 \<le> 0xF4 then
        (case r of b1 # b2 # b3 # r3 \<Rightarrow>
           (if b0 = 0xF0 then 0x90 \<le> b1 \<and> b1 \<le> 0xBF else if b0 = 0xF4 then 0x80 \<le> b1 \<and> b1 \<le> 0x8F else cont b1)
           \<and> cont b2 \<and> cont b3 \<and> utf8_valid r3 | _ \<Rightarrow> False)
      else False)"

definition utf8_or_empty :: "u8 list \<Rightarrow> u8 list" where
  "utf8_or_empty bs = (if utf8_valid bs then bs else [])"

definition ascii :: "string \<Rightarrow> u8 list" where
  "ascii s = map of_char s"

definition has_prefix :: "string \<Rightarrow> u8 list \<Rightarrow> bool" where
  "has_prefix p xs \<longleftrightarrow> take (length p) xs = ascii p"

text \<open>A null-terminated name that ends at the latest at \<open>end_off\<close>.\<close>

fun scan_name :: "memory \<Rightarrow> usize \<Rightarrow> nat \<Rightarrow> nat \<Rightarrow> u8 list" where
  "scan_name m b off 0 = []"
| "scan_name m b off (Suc n) = (if byte_at m b off = 0 then [] else byte_at m b off # scan_name m b (Suc off) n)"

record dt_state =
  dt_depth :: int
  in_memory :: bool
  in_framebuf :: bool
  in_pl011 :: bool
  in_chosen :: bool
  address_cells :: u8
  size_cells :: u8
  dt_fb_base :: u64
  dt_fb_width :: u32
  dt_fb_height :: u32
  dt_fb_pitch :: u32
  dt_mm :: "memory_region list"
  dt_info :: boot_info

definition dt_init :: dt_state where
  "dt_init = \<lparr>dt_depth = 0, in_memory = False, in_framebuf = False, in_pl011 = False, in_chosen = False,
     address_cells = 2, size_cells = 2, dt_fb_base = 0, dt_fb_width = 0, dt_fb_height = 0, dt_fb_pitch = 0,
     dt_mm = [], dt_info = empty_info\<rparr>"

definition MM_SLOTS :: nat where "MM_SLOTS = 64"

definition enter_node :: "u8 list \<Rightarrow> dt_state \<Rightarrow> dt_state" where
  "enter_node name st = st\<lparr>
     in_memory := (name = ascii ''memory'' \<or> has_prefix ''memory@'' name),
     in_framebuf := (name = ascii ''framebuffer'' \<or> has_prefix ''framebuffer@'' name \<or> has_prefix ''simple-framebuffer@'' name),
     in_pl011 := (has_prefix ''pl011@'' name \<or> has_prefix ''uart@'' name),
     in_chosen := (name = ascii ''chosen''),
     dt_depth := dt_depth st + 1\<rparr>"

definition leave_node :: "dt_state \<Rightarrow> dt_state" where
  "leave_node st =
     (let st1 = st\<lparr>dt_depth := dt_depth st - 1\<rparr>
      in if dt_depth st1 = 1
         then st1\<lparr>in_memory := False, in_framebuf := False, in_pl011 := False, in_chosen := False\<rparr> else st1)"

text \<open>The entries of a memory node's \<open>reg\<close>; \<open>None\<close> is the index out of range of the 65th region.\<close>

function reg_loop :: "memory \<Rightarrow> usize \<Rightarrow> nat \<Rightarrow> nat \<Rightarrow> u8 \<Rightarrow> u8 \<Rightarrow> nat \<Rightarrow> nat \<Rightarrow> memory_region list \<Rightarrow> memory_region list option" where
  "reg_loop m b dp data_len ac sc entry_bytes off mm =
     (if entry_bytes = 0 \<or> off + entry_bytes > data_len then Some mm
      else
        let bs = (if ac = 2 then be64 m b (dp + off) else be32 m b (dp + off));
            size_off = off + unat ac * 4;
            sz = (if sc = 2 then be64 m b (dp + size_off) else be32 m b (dp + size_off))
        in if length mm \<ge> MM_SLOTS then None
           else reg_loop m b dp data_len ac sc entry_bytes (off + entry_bytes)
                  (mm @ [\<lparr>base = bs, length_of = sz, kind = Available\<rparr>]))"
  by pat_completeness auto

termination
  by (relation "measure (\<lambda>(m, b, dp, n, ac, sc, eb, off, mm). n - off)") auto

declare reg_loop.simps [simp del]

datatype 'a outcome = Next 'a | Stop 'a | Crash

definition cell_addr :: "memory \<Rightarrow> usize \<Rightarrow> nat \<Rightarrow> dt_state \<Rightarrow> u64" where
  "cell_addr m b dp st = (if address_cells st \<ge> 2 then be64 m b dp else be32 m b dp)"

definition dt_prop :: "memory \<Rightarrow> usize \<Rightarrow> u8 list \<Rightarrow> nat \<Rightarrow> nat \<Rightarrow> dt_state \<Rightarrow> dt_state outcome" where
  "dt_prop m b name dp data_len st =
     (if name = ascii ''#address-cells'' \<and> data_len \<ge> 4 \<and> dt_depth st = 1 then Next (st\<lparr>address_cells := ucast (be32 m b dp)\<rparr>)
      else if name = ascii ''#size-cells'' \<and> data_len \<ge> 4 \<and> dt_depth st = 1 then Next (st\<lparr>size_cells := ucast (be32 m b dp)\<rparr>)
      else if name = ascii ''reg'' \<and> in_framebuf st \<and> data_len \<ge> 8 then Next (st\<lparr>dt_fb_base := cell_addr m b dp st\<rparr>)
      else if name = ascii ''width'' \<and> in_framebuf st \<and> data_len \<ge> 4 then Next (st\<lparr>dt_fb_width := ucast (be32 m b dp)\<rparr>)
      else if name = ascii ''height'' \<and> in_framebuf st \<and> data_len \<ge> 4 then Next (st\<lparr>dt_fb_height := ucast (be32 m b dp)\<rparr>)
      else if name = ascii ''stride'' \<and> in_framebuf st \<and> data_len \<ge> 4 then Next (st\<lparr>dt_fb_pitch := ucast (be32 m b dp)\<rparr>)
      else if name = ascii ''reg'' \<and> in_pl011 st \<and> data_len \<ge> 4 then
        (if uart_base (dt_info st) = 0 then Next (st\<lparr>dt_info := (dt_info st)\<lparr>uart_base := cell_addr m b dp st\<rparr>\<rparr>) else Next st)
      else if name = ascii ''reg'' \<and> in_memory st \<and> length (dt_mm st) < 32 then
        (let entry_bytes = unat (address_cells st + size_cells st) * 4
         in if entry_bytes = 0 then Stop st
            else case reg_loop m b dp data_len (address_cells st) (size_cells st) entry_bytes 0 (dt_mm st) of
              None \<Rightarrow> Crash
            | Some mm \<Rightarrow> Next (st\<lparr>dt_mm := mm\<rparr>))
      else if name = ascii ''linux,initrd-start'' \<and> in_chosen st \<and> data_len \<ge> 8 then
        Next (st\<lparr>dt_info := (dt_info st)\<lparr>initrd_base := be64 m b dp\<rparr>\<rparr>)
      else if name = ascii ''linux,initrd-end'' \<and> in_chosen st \<and> data_len \<ge> 8 then
        (let initrd_end = be64 m b dp
         in if initrd_end > initrd_base (dt_info st)
            then Next (st\<lparr>dt_info := (dt_info st)\<lparr>initrd_size := initrd_end - initrd_base (dt_info st)\<rparr>\<rparr>) else Next st)
      else Next st)"

definition al4 :: "nat \<Rightarrow> nat" where
  "al4 n = (n + 3) div 4 * 4"

function dt_loop :: "memory \<Rightarrow> usize \<Rightarrow> nat \<Rightarrow> nat \<Rightarrow> nat \<Rightarrow> dt_state \<Rightarrow> dt_state option" where
  "dt_loop m b strings end_off pos st =
     (if pos + 4 > end_off then Some st
      else
        let token = be32 m b pos; p = pos + 4
        in if token = FDT_BEGIN_NODE then
             (let raw = scan_name m b p (end_off - p)
              in dt_loop m b strings end_off (p + al4 (length raw + 1)) (enter_node (utf8_or_empty raw) st))
           else if token = FDT_END_NODE then dt_loop m b strings end_off p (leave_node st)
           else if token = FDT_PROP then
             (if p + 8 > end_off then Some st
              else
                let data_len = unat (be32 m b p); name_off = unat (be32 m b (p + 4)); dp = p + 8
                in if dp + data_len > end_off then Some st
                   else
                     let p' = p + 8 + al4 data_len; na = strings + name_off
                     in if na \<ge> end_off then dt_loop m b strings end_off p' st
                        else case dt_prop m b (utf8_or_empty (scan_name m b na (end_off - na))) dp data_len st of
                          Crash \<Rightarrow> None
                        | Stop st' \<Rightarrow> Some st'
                        | Next st' \<Rightarrow> dt_loop m b strings end_off p' st')
           else if token = FDT_NOP then dt_loop m b strings end_off p st
           else Some st)"
  by pat_completeness auto

termination
  by (relation "measure (\<lambda>(m, b, strings, e, pos, st). e - pos)") auto

declare dt_loop.simps [simp del]

function rsv_loop :: "memory \<Rightarrow> usize \<Rightarrow> nat \<Rightarrow> nat \<Rightarrow> memory_region list \<Rightarrow> memory_region list" where
  "rsv_loop m b end_off pos mm =
     (if pos + 16 > end_off then mm
      else
        let rb = be64 m b pos; rs = be64 m b (pos + 8)
        in if rb = 0 \<and> rs = 0 then mm
           else rsv_loop m b end_off (pos + 16)
                  (if length mm < MM_SLOTS then mm @ [\<lparr>base = rb, length_of = rs, kind = Reserved\<rparr>] else mm))"
  by pat_completeness auto

termination
  by (relation "measure (\<lambda>(m, b, e, pos, mm). e - pos)") auto

declare rsv_loop.simps [simp del]

definition dt_finish :: "dt_state \<Rightarrow> memory_region list \<Rightarrow> boot_info" where
  "dt_finish st mm =
     (let info = (dt_info st)\<lparr>memory_map := mm\<rparr>
      in if dt_fb_base st \<noteq> 0
         then info\<lparr>framebuffer_base := dt_fb_base st, framebuffer_width := dt_fb_width st,
                   framebuffer_height := dt_fb_height st, framebuffer_pitch := dt_fb_pitch st\<rparr>
         else info)"

definition device_tree_parse :: "memory \<Rightarrow> usize \<Rightarrow> boot_info option" where
  "device_tree_parse m b =
     (if be32 m b 0 \<noteq> FDT_MAGIC then Some empty_info
      else
        let total_size = unat (be32 m b 4); struct_off = unat (be32 m b 8); strings_off = unat (be32 m b 12);
            memrsv_off = unat (be32 m b 16)
        in if struct_off \<ge> total_size \<or> strings_off \<ge> total_size then Some empty_info
           else case dt_loop m b strings_off total_size struct_off dt_init of
             None \<Rightarrow> None
           | Some st \<Rightarrow>
               Some (dt_finish st (if memrsv_off < total_size then rsv_loop m b total_size memrsv_off (dt_mm st) else dt_mm st)))"

subsection \<open>Limine\<close>

definition USABLE :: u64 where "USABLE = 0"
definition ACPI_RECLAIMABLE :: u64 where "ACPI_RECLAIMABLE = 2"
definition ACPI_NVS :: u64 where "ACPI_NVS = 3"
definition BAD_MEMORY :: u64 where "BAD_MEMORY = 4"

definition limine_kind :: "u64 \<Rightarrow> memory_type" where
  "limine_kind t = (if t = USABLE then Available else if t = ACPI_RECLAIMABLE then AcpiReclaimable
     else if t = ACPI_NVS then AcpiNvs else if t = BAD_MEMORY then BadMemory else Reserved)"

text \<open>The response pointers that the boot loader stored in the request structures; 0 is a null pointer.\<close>

record limine_responses =
  hhdm_resp :: usize
  memmap_resp :: usize
  fb_resp :: usize
  rsdp_resp :: usize
  module_resp :: usize

definition limine_response :: "usize \<Rightarrow> usize option" where
  "limine_response p = (if p = 0 then None else Some p)"

definition limine_entry :: "memory \<Rightarrow> usize \<Rightarrow> nat \<Rightarrow> memory_region" where
  "limine_entry m entries i =
     (let e = load64 m (entries + 8 * of_nat i)
      in \<lparr>base = load64 m e, length_of = load64 m (e + 8), kind = limine_kind (load64 m (e + 16))\<rparr>)"

fun limine_entries :: "memory \<Rightarrow> usize \<Rightarrow> nat \<Rightarrow> nat \<Rightarrow> memory_region list \<Rightarrow> memory_region list" where
  "limine_entries m entries i 0 mm = mm"
| "limine_entries m entries i (Suc n) mm =
     (if length mm \<ge> 128 then mm else limine_entries m entries (Suc i) n (mm @ [limine_entry m entries i]))"

definition limine_parse :: "memory \<Rightarrow> limine_responses \<Rightarrow> boot_info" where
  "limine_parse m rs =
     (let i0 = empty_info;
          i1 = (case limine_response (hhdm_resp rs) of None \<Rightarrow> i0 | Some r \<Rightarrow> i0\<lparr>hhdm_offset := load64 m (r + 8)\<rparr>);
          i2 = (case limine_response (memmap_resp rs) of None \<Rightarrow> i1
                | Some r \<Rightarrow> i1\<lparr>memory_map := limine_entries m (load64 m (r + 16)) 0 (min (unat (load64 m (r + 8))) 512) []\<rparr>);
          i3 = (case limine_response (fb_resp rs) of None \<Rightarrow> i2
                | Some r \<Rightarrow>
                    (if load64 m (r + 8) > 0 then
                       let fb = load64 m (load64 m (r + 16))
                       in i2\<lparr>framebuffer_base := load64 m fb, framebuffer_width := ucast (load64 m (fb + 8)),
                             framebuffer_height := ucast (load64 m (fb + 16)), framebuffer_pitch := ucast (load64 m (fb + 24))\<rparr>
                     else i2));
          i4 = (case limine_response (rsdp_resp rs) of None \<Rightarrow> i3 | Some r \<Rightarrow> i3\<lparr>rsdp_addr := load64 m (r + 8)\<rparr>)
      in case limine_response (module_resp rs) of None \<Rightarrow> i4
         | Some r \<Rightarrow>
             (if load64 m (r + 8) > 0 then
                let md = load64 m (load64 m (r + 16)); a = load64 m (md + 8)
                in i4\<lparr>initrd_base := (if hhdm_offset i4 \<le> a then a - hhdm_offset i4 else 0), initrd_size := load64 m (md + 16)\<rparr>
              else i4))"

end
