(* ===== verification/Boot_Props.thy ===== *)
theory Boot_Props
  imports Boot_Parsers
begin

text \<open>
  The Multiboot2 and device-tree parsers invert an encoder of boot information: what a boot loader that follows
  the format wrote into memory is what the kernel is started with.
\<close>

subsection \<open>Bytes in memory\<close>

definition holds :: "memory \<Rightarrow> usize \<Rightarrow> nat \<Rightarrow> u8 list \<Rightarrow> bool" where
  "holds m b off bs \<longleftrightarrow> bytes_at m b off (length bs) = bs"

lemma holds_iff: "holds m b off bs \<longleftrightarrow> (\<forall>i < length bs. byte_at m b (off + i) = bs ! i)"
  unfolding holds_def bytes_at_def by (subst list_eq_iff_nth_eq) simp

lemma holds_append [simp]: "holds m b off (xs @ ys) \<longleftrightarrow> holds m b off xs \<and> holds m b (off + length xs) ys"
proof -
  have "(\<forall>i < length xs + length ys. byte_at m b (off + i) = (xs @ ys) ! i) \<longleftrightarrow>
    (\<forall>i < length xs. byte_at m b (off + i) = xs ! i) \<and> (\<forall>i < length ys. byte_at m b (off + (length xs + i)) = ys ! i)"
    (is "?l = ?r")
  proof
    assume l: ?l
    show ?r
    proof (intro conjI allI impI)
      fix i assume "i < length xs" then show "byte_at m b (off + i) = xs ! i" using l[rule_format, of i] by (simp add: nth_append)
    next
      fix i assume "i < length ys" then show "byte_at m b (off + (length xs + i)) = ys ! i"
        using l[rule_format, of "length xs + i"] by simp
    qed
  next
    assume r: ?r
    show ?l
    proof (intro allI impI)
      fix i assume i: "i < length xs + length ys"
      show "byte_at m b (off + i) = (xs @ ys) ! i"
      proof (cases "i < length xs")
        case False
        then have "off + (length xs + (i - length xs)) = off + i" by simp
        then show ?thesis using r[THEN conjunct2, rule_format, of "i - length xs"] i False by (simp add: nth_append)
      qed (use r in \<open>simp add: nth_append\<close>)
    qed
  qed
  then show ?thesis by (simp add: holds_iff add.assoc)
qed

lemma holds_Nil [simp]: "holds m b off []"
  by (simp add: holds_iff)

lemma holds_Cons [simp]: "holds m b off (x # xs) \<longleftrightarrow> byte_at m b off = x \<and> holds m b (Suc off) xs"
  using holds_append[of m b off "[x]" xs] by (simp add: holds_iff)

definition le_bytes :: "nat \<Rightarrow> u64 \<Rightarrow> u8 list" where
  "le_bytes n w = map (byte_of w) [0..<n]"

lemma length_le_bytes [simp]: "length (le_bytes n w) = n"
  by (simp add: le_bytes_def)

lemma le_at_holds:
  assumes "holds m b off (le_bytes n w)" "unat w < 2 ^ (8 * n)" "n \<le> 8"
  shows "le_at n m b off = w"
proof (rule bit_word_eqI)
  fix i assume i: "i < LENGTH(64)"
  have byte: "m (b + of_nat off + of_nat (i div 8)) = byte_of w (i div 8)" if "i < 8 * n"
  proof -
    have "i div 8 < n" using that by (simp add: div_less_iff_less_mult)
    then show ?thesis using assms(1) by (simp add: holds_iff le_bytes_def byte_at_def add.assoc)
  qed
  have high: "\<not> bit w i" if "\<not> i < 8 * n"
  proof -
    have "take_bit (8 * n) (unat w) = unat w" using assms(2) by (rule take_bit_nat_eq_self)
    then have "bit (unat w) i \<longleftrightarrow> bit (take_bit (8 * n) (unat w)) i" by simp
    then have "\<not> bit (unat w) i" using that unfolding bit_take_bit_iff by blast
    then show ?thesis using i by (simp add: bit_unsigned_iff)
  qed
  show "bit (le_at n m b off) i = bit w i"
  proof (cases "i < 8 * n")
    case True
    then show ?thesis
      using i by (simp add: le_at_def bit_load_le byte byte_of_def bit_unsigned_iff bit_drop_bit_eq)
  next
    case False
    then show ?thesis using high by (simp add: le_at_def bit_load_le)
  qed
qed

subsection \<open>An encoder for Multiboot2 information\<close>

datatype mb2_item = ItMap "(u64 \<times> u64 \<times> u64) list" | ItFrame u64 u64 u64 u64 | ItRsdp1 "u8 list" | ItRsdp2 "u8 list" | ItOther u64 "u8 list"

fun item_type :: "mb2_item \<Rightarrow> u64" where
  "item_type (ItMap es) = 6" | "item_type (ItFrame a p w h) = 8" | "item_type (ItRsdp1 d) = 14" | "item_type (ItRsdp2 d) = 15"
| "item_type (ItOther t d) = t"

definition enc_entry :: "u64 \<times> u64 \<times> u64 \<Rightarrow> u8 list" where
  "enc_entry = (\<lambda>(a, l, t). le_bytes 8 a @ le_bytes 8 l @ le_bytes 4 t @ le_bytes 4 0)"

fun item_body :: "mb2_item \<Rightarrow> u8 list" where
  "item_body (ItMap es) = le_bytes 4 24 @ le_bytes 4 0 @ concat (map enc_entry es)"
| "item_body (ItFrame a p w h) = le_bytes 8 a @ le_bytes 4 p @ le_bytes 4 w @ le_bytes 4 h @ [32, 1, 0, 0]"
| "item_body (ItRsdp1 d) = d"
| "item_body (ItRsdp2 d) = d"
| "item_body (ItOther t d) = d"

definition item_size :: "mb2_item \<Rightarrow> nat" where
  "item_size it = 8 + length (item_body it)"

definition enc_item :: "mb2_item \<Rightarrow> u8 list" where
  "enc_item it = le_bytes 4 (item_type it) @ le_bytes 4 (of_nat (item_size it)) @ item_body it
     @ replicate (align8 (item_size it) - item_size it) 0"

definition enc_mb2 :: "mb2_item list \<Rightarrow> u8 list" where
  "enc_mb2 its = (let body = concat (map enc_item its) @ le_bytes 4 0 @ le_bytes 4 8
     in le_bytes 4 (of_nat (8 + length body)) @ le_bytes 4 0 @ body)"

definition item_ok :: "mb2_item \<Rightarrow> bool" where
  "item_ok it \<longleftrightarrow> (case it of
       ItMap es \<Rightarrow> \<forall>(a, l, t) \<in> set es. unat t < 2 ^ 32
     | ItFrame a p w h \<Rightarrow> unat p < 2 ^ 32 \<and> unat w < 2 ^ 32 \<and> unat h < 2 ^ 32
     | ItOther t d \<Rightarrow> unat t < 2 ^ 32 \<and> t \<notin> {0, 6, 8, 14, 15}
     | _ \<Rightarrow> True)"

definition region_of :: "u64 \<times> u64 \<times> u64 \<Rightarrow> memory_region" where
  "region_of = (\<lambda>(a, l, t). \<lparr>base = a, length_of = l, kind = mb2_kind t\<rparr>)"

text \<open>What the items mean: regions accumulate up to 128, an ACPI 2.0 pointer wins over an older one.\<close>

fun item_spec :: "usize \<Rightarrow> nat \<Rightarrow> mb2_item \<Rightarrow> memory_region list \<times> boot_info \<Rightarrow> memory_region list \<times> boot_info" where
  "item_spec b off (ItMap es) (mm, info) =
     (let mm' = mm @ take (128 - length mm) (map region_of es) in (mm', info\<lparr>memory_map := mm'\<rparr>))"
| "item_spec b off (ItFrame a p w h) (mm, info) =
     (mm, info\<lparr>framebuffer_base := a, framebuffer_width := ucast w, framebuffer_height := ucast h, framebuffer_pitch := ucast p\<rparr>)"
| "item_spec b off (ItRsdp1 d) (mm, info) =
     (mm, if rsdp_addr info = 0 then info\<lparr>rsdp_addr := b + of_nat (off + 8)\<rparr> else info)"
| "item_spec b off (ItRsdp2 d) (mm, info) = (mm, info\<lparr>rsdp_addr := b + of_nat (off + 8)\<rparr>)"
| "item_spec b off (ItOther t d) (mm, info) = (mm, info)"

fun mb2_spec :: "usize \<Rightarrow> nat \<Rightarrow> mb2_item list \<Rightarrow> memory_region list \<times> boot_info \<Rightarrow> boot_info" where
  "mb2_spec b off [] st = snd st"
| "mb2_spec b off (it # its) st = mb2_spec b (off + align8 (item_size it)) its (item_spec b off it st)"

lemma align8_ge: "n \<le> align8 n"
  unfolding align8_def by linarith

lemma length_enc_item [simp]: "length (enc_item it) = align8 (item_size it)"
  using align8_ge[of "item_size it"] by (simp add: enc_item_def item_size_def)

lemma length_enc_entry [simp]: "length (enc_entry e) = 24"
  by (simp add: enc_entry_def split: prod.split)

lemma mb2_entry_holds:
  assumes "holds m b off (enc_entry e)" "case e of (a, l, t) \<Rightarrow> unat t < 2 ^ 32"
  shows "mb2_entry m b off = region_of e"
proof -
  obtain a l t where e: "e = (a, l, t)" by (cases e) auto
  have h: "holds m b off (le_bytes 8 a)" "holds m b (off + 8) (le_bytes 8 l)" "holds m b (off + 16) (le_bytes 4 t)"
    using assms(1) by (simp_all add: e enc_entry_def add.assoc)
  have "le64 m b off = a" "le64 m b (off + 8) = l"
    using le_at_holds[OF h(1)] le_at_holds[OF h(2)] unsigned_less[of a] unsigned_less[of l] by simp_all
  moreover have "le32 m b (off + 16) = t" using le_at_holds[OF h(3)] assms(2) e by simp
  ultimately show ?thesis by (simp add: mb2_entry_def region_of_def e)
qed

lemma diff_Suc_eq_nat: "128 - n = Suc k \<Longrightarrow> k = 127 - n"
  by simp

lemma mb2_entries_holds:
  assumes "holds m b off (concat (map enc_entry es))" "\<forall>(a, l, t) \<in> set es. unat t < 2 ^ 32"
  shows "mb2_entries m b 24 (off + 24 * length es) off mm = mm @ take (128 - length mm) (map region_of es)"
  using assms
proof (induction es arbitrary: off mm)
  case Nil
  show ?case by (subst mb2_entries.simps) simp
next
  case (Cons e es)
  have h: "holds m b off (enc_entry e)" "holds m b (off + 24) (concat (map enc_entry es))" using Cons.prems(1) by simp_all
  have e: "mb2_entry m b off = region_of e" by (rule mb2_entry_holds[OF h(1)]) (use Cons.prems(2) in auto)
  have "mb2_entries m b 24 (off + 24 * length (e # es)) off mm
      = mb2_entries m b 24 (off + 24 + 24 * length es) (off + 24) (if length mm < 128 then mm @ [region_of e] else mm)"
    by (subst mb2_entries.simps) (simp add: e MB2_MAX_REGIONS_def add.assoc)
  also have "\<dots> = mm @ take (128 - length mm) (map region_of (e # es))"
    using Cons.IH[OF h(2), of "if length mm < 128 then mm @ [region_of e] else mm"] Cons.prems(2)
    by (cases "128 - length mm") (auto simp: le_diff_conv2 dest: diff_Suc_eq_nat)
  finally show ?case .
qed

lemma item_type_ok: "item_ok it \<Longrightarrow> unat (item_type it) < 2 ^ 32 \<and> item_type it \<noteq> 0"
  by (cases it) (auto simp: item_ok_def)

lemma unat_of_nat_small: "n < 2 ^ 64 \<Longrightarrow> unat (of_nat n :: 64 word) = n"
  by (simp add: unsigned_of_nat take_bit_nat_eq_self)

lemma enc_item_header:
  assumes "holds m b off (enc_item it)" "item_ok it" "item_size it < 2 ^ 32"
  shows "le32 m b off = item_type it" "unat (le32 m b (off + 4)) = item_size it" "holds m b (off + 8) (item_body it)"
proof -
  have h: "holds m b off (le_bytes 4 (item_type it))" "holds m b (off + 4) (le_bytes 4 (of_nat (item_size it)))"
    and hb: "holds m b (off + 8) (item_body it)"
    using assms(1) by (simp_all add: enc_item_def add.assoc)
  show "le32 m b off = item_type it" using le_at_holds[OF h(1)] item_type_ok[OF assms(2)] by simp
  have "unat (of_nat (item_size it) :: 64 word) = item_size it" using assms(3) by (simp add: unat_of_nat_small)
  then show "unat (le32 m b (off + 4)) = item_size it" using le_at_holds[OF h(2)] assms(3) by simp
  show "holds m b (off + 8) (item_body it)" by (rule hb)
qed

lemmas mb2_tags = TAG_END_def TAG_MEMORY_MAP_def TAG_FRAMEBUFFER_def TAG_ACPI_V1_def TAG_ACPI_V2_def

lemma mb2_tag_map:
  assumes "holds m b off (enc_item (ItMap es))" "item_ok (ItMap es)" "item_size (ItMap es) < 2 ^ 32"
  shows "mb2_tag m b off (mm, info) = Some (item_spec b off (ItMap es) (mm, info))"
proof -
  note hd = enc_item_header[OF assms]
  have h: "holds m b (off + 8) (le_bytes 4 24)" "holds m b (off + 16) (concat (map enc_entry es))"
    using hd(3) by (simp_all add: add.assoc)
  have e: "le32 m b (off + 8) = 24" using le_at_holds[OF h(1)] by simp
  have len: "length (concat (map enc_entry es)) = 24 * length es" by (induction es) auto
  have sz: "off + item_size (ItMap es) = off + 16 + 24 * length es" by (simp add: item_size_def len)
  have "mb2_entries m b 24 (off + item_size (ItMap es)) (off + 16) mm = mm @ take (128 - length mm) (map region_of es)"
    unfolding sz by (rule mb2_entries_holds[OF h(2)]) (use assms(2) in \<open>simp add: item_ok_def\<close>)
  then show ?thesis using hd(1,2) e by (simp add: mb2_tag_def mb2_tags Let_def)
qed

lemma mb2_tag_frame:
  assumes "holds m b off (enc_item (ItFrame a p w h))" "item_ok (ItFrame a p w h)" "item_size (ItFrame a p w h) < 2 ^ 32"
  shows "mb2_tag m b off (mm, info) = Some (item_spec b off (ItFrame a p w h) (mm, info))"
proof -
  note hd = enc_item_header[OF assms]
  have h: "holds m b (off + 8) (le_bytes 8 a)" "holds m b (off + 16) (le_bytes 4 p)" "holds m b (off + 20) (le_bytes 4 w)"
      "holds m b (off + 24) (le_bytes 4 h)"
    using hd(3) by (simp_all add: add.assoc)
  have "le64 m b (off + 8) = a" using le_at_holds[OF h(1)] unsigned_less[of a] by simp
  moreover have "le32 m b (off + 16) = p" "le32 m b (off + 20) = w" "le32 m b (off + 24) = h"
    using le_at_holds[OF h(2)] le_at_holds[OF h(3)] le_at_holds[OF h(4)] assms(2) by (simp_all add: item_ok_def)
  ultimately show ?thesis using hd(1,2) by (simp add: mb2_tag_def mb2_tags Let_def)
qed

lemma mb2_tag_item:
  assumes "holds m b off (enc_item it)" "item_ok it" "item_size it < 2 ^ 32"
  shows "mb2_tag m b off st = Some (item_spec b off it st)"
proof -
  obtain mm info where st: "st = (mm, info)" by (cases st)
  note hd = enc_item_header[OF assms]
  show ?thesis
  proof (cases it)
    case (ItMap es)
    then show ?thesis using mb2_tag_map assms st by blast
  next
    case (ItFrame a p w h)
    then show ?thesis using mb2_tag_frame assms st by blast
  qed (use hd(1) assms(2) st in \<open>auto simp: mb2_tag_def mb2_tags Let_def item_ok_def\<close>)
qed

lemma mb2_loop_items:
  assumes "holds m b off (concat (map enc_item its) @ le_bytes 4 0 @ le_bytes 4 8)"
    "\<forall>it \<in> set its. item_ok it \<and> item_size it < 2 ^ 32" "off + length (concat (map enc_item its)) < total_sz"
  shows "mb2_loop m b total_sz off st = mb2_spec b off its st"
  using assms
proof (induction its arbitrary: off st)
  case Nil
  then have "holds m b off (le_bytes 4 0)" by simp
  then have "le32 m b off = 0" by (rule le_at_holds) simp_all
  then have "mb2_tag m b off st = None" by (simp add: mb2_tag_def TAG_END_def Let_def split: prod.split)
  then show ?case by (subst mb2_loop.simps) (simp add: Let_def)
next
  case (Cons it its)
  have h: "holds m b off (enc_item it)"
    "holds m b (off + align8 (item_size it)) (concat (map enc_item its) @ le_bytes 4 0 @ le_bytes 4 8)"
    using Cons.prems(1) by (simp_all add: add.assoc)
  have ok: "item_ok it" "item_size it < 2 ^ 32" using Cons.prems(2) by simp_all
  have sz: "unat (le32 m b (off + 4)) = item_size it" by (rule enc_item_header(2)[OF h(1) ok])
  have "mb2_loop m b total_sz off st = mb2_loop m b total_sz (off + align8 (item_size it)) (item_spec b off it st)"
    by (subst mb2_loop.simps) (use Cons.prems(3) in \<open>simp add: sz mb2_tag_item[OF h(1) ok] Let_def item_size_def\<close>)
  also have "\<dots> = mb2_spec b (off + align8 (item_size it)) its (item_spec b off it st)"
    by (rule Cons.IH[OF h(2)]) (use Cons.prems in simp_all)
  finally show ?case by simp
qed

text \<open>
  C28. Multiboot2 information round trip: wherever memory holds the encoding of a list of tags (memory maps of 24-byte entries,
  a framebuffer, ACPI pointers, tags the kernel does not know), with every tag padded to eight bytes and an end tag behind
  them, the parser returns exactly what the tags say: the regions of all the maps in order up to the table's 128, the last
  framebuffer, and the address of the ACPI 2.0 table, or of the first older one when there is none before it.\<close>

theorem multiboot2_parse_encoding:
  assumes "holds m b 0 (enc_mb2 its)" "\<forall>it \<in> set its. item_ok it" "length (enc_mb2 its) < 2 ^ 32"
  shows "multiboot2_parse m b = mb2_spec b 8 its ([], empty_info)"
proof -
  let ?body = "concat (map enc_item its) @ le_bytes 4 0 @ le_bytes 4 8"
  have len: "length (enc_mb2 its) = 8 + length ?body" by (simp add: enc_mb2_def Let_def)
  have h: "holds m b 0 (le_bytes 4 (of_nat (8 + length ?body)))" "holds m b 8 ?body"
    using assms(1) unfolding enc_mb2_def Let_def by (simp_all add: add.assoc)
  have u: "unat (of_nat (8 + length ?body) :: 64 word) = 8 + length ?body"
    by (rule unat_of_nat_small) (use assms(3) in \<open>simp add: len\<close>)
  have t: "le32 m b 0 = of_nat (8 + length ?body)"
    by (rule le_at_holds[OF h(1)]) (use assms(3) in \<open>simp_all only: u len, simp\<close>)
  have "item_size it < 2 ^ 32" if "it \<in> set its" for it
  proof -
    have "length (enc_item it) \<le> length (concat (map enc_item its))" using that by (induction its) auto
    then show ?thesis using assms(3) align8_ge[of "item_size it"] unfolding len by simp
  qed
  then show ?thesis unfolding multiboot2_parse_def t u by (intro mb2_loop_items[OF h(2)]) (use assms(2) in simp_all)
qed

definition mem_of :: "usize \<Rightarrow> u8 list \<Rightarrow> memory" where
  "mem_of b xs = (\<lambda>a. let i = unat (a - b) in if i < length xs then xs ! i else 0)"

lemma holds_mem_of: "length xs < 2 ^ 64 \<Longrightarrow> holds (mem_of b xs) b 0 xs"
  by (simp add: holds_iff byte_at_def mem_of_def unat_of_nat_small)

definition demo_items :: "mb2_item list" where
  "demo_items = [ItOther 2 [71, 82, 85, 66, 0], ItRsdp1 [82], ItMap [(0, 0x9FC00, 1), (0xF0000, 0x10000, 2), (0x100000, 0x7EE0000, 1)],
     ItFrame 0xFD000000 4096 1024 768, ItRsdp2 [83]]"

theorem multiboot2_parse_encoding_witness:
  "multiboot2_parse (mem_of 0x9500 (enc_mb2 demo_items)) 0x9500 =
     empty_info\<lparr>memory_map := [\<lparr>base = 0, length_of = 0x9FC00, kind = Available\<rparr>,
         \<lparr>base = 0xF0000, length_of = 0x10000, kind = Reserved\<rparr>, \<lparr>base = 0x100000, length_of = 0x7EE0000, kind = Available\<rparr>],
       framebuffer_base := 0xFD000000, framebuffer_width := 1024, framebuffer_height := 768, framebuffer_pitch := 4096,
       rsdp_addr := 0x95A8\<rparr>"
proof -
  have len: "length (enc_mb2 demo_items) = 184"
    by (simp add: enc_mb2_def demo_items_def Let_def item_size_def align8_def)
  have ok: "\<forall>it \<in> set demo_items. item_ok it" by (simp add: demo_items_def item_ok_def)
  have spec: "mb2_spec 0x9500 8 demo_items ([], empty_info) =
     empty_info\<lparr>memory_map := [\<lparr>base = 0, length_of = 0x9FC00, kind = Available\<rparr>,
         \<lparr>base = 0xF0000, length_of = 0x10000, kind = Reserved\<rparr>, \<lparr>base = 0x100000, length_of = 0x7EE0000, kind = Available\<rparr>],
       framebuffer_base := 0xFD000000, framebuffer_width := 1024, framebuffer_height := 768, framebuffer_pitch := 4096,
       rsdp_addr := 0x95A8\<rparr>"
    by (simp add: demo_items_def item_size_def align8_def Let_def region_of_def mb2_kind_def empty_info_def)
  show ?thesis
    using multiboot2_parse_encoding[OF holds_mem_of ok, of "0x9500"] unfolding len spec by simp
qed

end
