(* ===== verification/Boot_Tree.thy ===== *)
theory Boot_Tree
  imports Boot_Props
begin

text \<open>
  The flattened device tree as a tree: an encoder of trees, the meaning of a tree for the kernel, and the proof that the
  parser's state machine over tokens computes that meaning, with every property read in the context of the node that holds it.
\<close>

subsection \<open>Trees and their encoding\<close>

datatype dt_node = Node "u8 list" "(u8 list \<times> u8 list) list" "dt_node list"

definition be_list :: "nat \<Rightarrow> u64 \<Rightarrow> u8 list" where
  "be_list n w = rev (le_bytes n w)"

definition pad4 :: "u8 list \<Rightarrow> u8 list" where
  "pad4 xs = xs @ replicate (al4 (length xs) - length xs) 0"

definition enc_prop :: "(u8 list \<Rightarrow> nat) \<Rightarrow> u8 list \<times> u8 list \<Rightarrow> u8 list" where
  "enc_prop so = (\<lambda>(n, d). be_list 4 FDT_PROP @ be_list 4 (of_nat (length d)) @ be_list 4 (of_nat (so n)) @ pad4 d)"

fun enc_node :: "(u8 list \<Rightarrow> nat) \<Rightarrow> dt_node \<Rightarrow> u8 list" where
  "enc_node so (Node n ps ks) = be_list 4 FDT_BEGIN_NODE @ pad4 (n @ [0]) @ concat (map (enc_prop so) ps)
     @ concat (map (enc_node so) ks) @ be_list 4 FDT_END_NODE"

lemma al4_ge: "n \<le> al4 n"
  unfolding al4_def by linarith

lemma length_be_list [simp]: "length (be_list n w) = n"
  by (simp add: be_list_def)

lemma length_pad4 [simp]: "length (pad4 xs) = al4 (length xs)"
  using al4_ge[of "length xs"] by (simp add: pad4_def)

lemma length_enc_prop [simp]: "length (enc_prop so (n, d)) = 12 + al4 (length d)"
  by (simp add: enc_prop_def)

lemma be_list_Suc: "be_list (Suc n) w = byte_of w n # be_list n w"
  by (simp add: be_list_def le_bytes_def)

lemma be_bytes_be_list: "be_bytes (be_list n w) = take_bit (8 * n) w"
proof (induction n)
  case 0
  show ?case by (simp add: be_list_def le_bytes_def)
next
  case (Suc n)
  have "push_bit (8 * n) (ucast (byte_of w n)) OR take_bit (8 * n) w = take_bit (8 * Suc n) w"
    by (rule bit_word_eqI) (auto simp: bit_or_iff bit_push_bit_iff bit_take_bit_iff bit_unsigned_iff byte_of_def bit_drop_bit_eq)
  then show ?case using Suc by (simp add: be_list_Suc)
qed

lemma be32_holds: "holds m b off bs \<Longrightarrow> length bs = 4 \<Longrightarrow> be32 m b off = be_bytes bs"
  by (simp add: be32_def holds_def)

lemma be64_holds: "holds m b off bs \<Longrightarrow> length bs = 8 \<Longrightarrow> be64 m b off = be_bytes bs"
  by (simp add: be64_def holds_def)

lemma be32_value:
  assumes "holds m b off (be_list 4 w)" "unat w < 2 ^ 32"
  shows "be32 m b off = w"
proof -
  have "unat (take_bit 32 w) = unat w" using assms(2) by (simp add: unsigned_take_bit_eq take_bit_nat_eq_self)
  then have "take_bit 32 w = w" by (rule word_eq_iff_unsigned[THEN iffD2])
  then show ?thesis using be32_holds[OF assms(1)] by (simp add: be_bytes_be_list)
qed

lemma holds_take: "holds m b off d \<Longrightarrow> holds m b off (take n d)"
  by (metis append_take_drop_id holds_append)

lemma holds_drop: "holds m b off d \<Longrightarrow> n \<le> length d \<Longrightarrow> holds m b (off + n) (drop n d)"
  by (metis append_take_drop_id holds_append length_take min.absorb2)

lemma be32_slice: "holds m b off d \<Longrightarrow> i + 4 \<le> length d \<Longrightarrow> be32 m b (off + i) = be_bytes (take 4 (drop i d))"
  by (rule be32_holds) (auto intro!: holds_take holds_drop)

lemma be64_slice: "holds m b off d \<Longrightarrow> i + 8 \<le> length d \<Longrightarrow> be64 m b (off + i) = be_bytes (take 8 (drop i d))"
  by (rule be64_holds) (auto intro!: holds_take holds_drop)

lemma scan_name_holds:
  "holds m b off (xs @ [0]) \<Longrightarrow> 0 \<notin> set xs \<Longrightarrow> length xs < n \<Longrightarrow> scan_name m b off n = xs"
proof (induction xs arbitrary: off n)
  case Nil
  then show ?case by (cases n) simp_all
next
  case (Cons x xs)
  obtain k where n: "n = Suc k" using Cons.prems(3) by (cases n) auto
  show ?case using Cons.prems Cons.IH[of "Suc off" k] unfolding n by simp
qed

subsection \<open>What a tree means\<close>

datatype node_kind = KMemory | KFrame | KUart | KChosen | KOther

definition kind_of_name :: "u8 list \<Rightarrow> node_kind" where
  "kind_of_name n =
     (if n = ascii ''memory'' \<or> has_prefix ''memory@'' n then KMemory
      else if n = ascii ''framebuffer'' \<or> has_prefix ''framebuffer@'' n \<or> has_prefix ''simple-framebuffer@'' n then KFrame
      else if has_prefix ''pl011@'' n \<or> has_prefix ''uart@'' n then KUart
      else if n = ascii ''chosen'' then KChosen else KOther)"

record tree_info =
  ti_ac :: nat
  ti_sc :: nat
  ti_fb :: u64
  ti_w :: u32
  ti_h :: u32
  ti_p :: u32
  ti_mm :: "memory_region list"
  ti_info :: boot_info

function reg_entries :: "nat \<Rightarrow> nat \<Rightarrow> u8 list \<Rightarrow> memory_region list" where
  "reg_entries ac sc d =
     (if ac = 0 \<or> length d < 4 * ac + 4 * sc then []
      else \<lparr>base = be_bytes (take (4 * ac) d), length_of = be_bytes (take (4 * sc) (drop (4 * ac) d)), kind = Available\<rparr>
             # reg_entries ac sc (drop (4 * ac + 4 * sc) d))"
  by pat_completeness auto

termination
  by (relation "measure (\<lambda>(ac, sc, d). length d)") auto

declare reg_entries.simps [simp del]

definition root_prop :: "u8 list \<Rightarrow> u8 list \<Rightarrow> tree_info \<Rightarrow> tree_info" where
  "root_prop n d c =
     (if n = ascii ''#address-cells'' then c\<lparr>ti_ac := unat (be_bytes d)\<rparr>
      else if n = ascii ''#size-cells'' then c\<lparr>ti_sc := unat (be_bytes d)\<rparr> else c)"

definition first_addr :: "tree_info \<Rightarrow> u8 list \<Rightarrow> u64" where
  "first_addr c d = be_bytes (take (4 * ti_ac c) d)"

fun kind_prop :: "node_kind \<Rightarrow> u8 list \<Rightarrow> u8 list \<Rightarrow> tree_info \<Rightarrow> tree_info option" where
  "kind_prop KMemory n d c =
     (if n = ascii ''reg'' \<and> length (ti_mm c) < 32 then
        (let mm = ti_mm c @ reg_entries (ti_ac c) (ti_sc c) d in if length mm > 64 then None else Some (c\<lparr>ti_mm := mm\<rparr>))
      else Some c)"
| "kind_prop KFrame n d c = Some
     (if n = ascii ''reg'' then c\<lparr>ti_fb := first_addr c d\<rparr>
      else if n = ascii ''width'' then c\<lparr>ti_w := ucast (be_bytes d)\<rparr>
      else if n = ascii ''height'' then c\<lparr>ti_h := ucast (be_bytes d)\<rparr>
      else if n = ascii ''stride'' then c\<lparr>ti_p := ucast (be_bytes d)\<rparr> else c)"
| "kind_prop KUart n d c = Some
     (if n = ascii ''reg'' \<and> uart_base (ti_info c) = 0 then c\<lparr>ti_info := (ti_info c)\<lparr>uart_base := first_addr c d\<rparr>\<rparr> else c)"
| "kind_prop KChosen n d c = Some
     (if n = ascii ''linux,initrd-start'' then c\<lparr>ti_info := (ti_info c)\<lparr>initrd_base := be_bytes d\<rparr>\<rparr>
      else if n = ascii ''linux,initrd-end'' \<and> be_bytes d > initrd_base (ti_info c)
      then c\<lparr>ti_info := (ti_info c)\<lparr>initrd_size := be_bytes d - initrd_base (ti_info c)\<rparr>\<rparr> else c)"
| "kind_prop KOther n d c = Some c"

text \<open>The root node only sets the cell counts; any other node is read by its name.\<close>

definition prop_meaning :: "bool \<Rightarrow> u8 list \<Rightarrow> u8 list \<times> u8 list \<Rightarrow> tree_info \<Rightarrow> tree_info option" where
  "prop_meaning root name = (\<lambda>(n, d) c. if root then Some (root_prop n d c) else kind_prop (kind_of_name name) n d c)"

fun fold_opt :: "('a \<Rightarrow> 's \<Rightarrow> 's option) \<Rightarrow> 'a list \<Rightarrow> 's \<Rightarrow> 's option" where
  "fold_opt f [] s = Some s"
| "fold_opt f (x # xs) s = (case f x s of None \<Rightarrow> None | Some s' \<Rightarrow> fold_opt f xs s')"

lemma fold_opt_cong [fundef_cong]:
  "xs = ys \<Longrightarrow> s = t \<Longrightarrow> (\<And>x s. x \<in> set ys \<Longrightarrow> f x s = g x s) \<Longrightarrow> fold_opt f xs s = fold_opt g ys t"
proof (induction xs arbitrary: ys s t)
  case (Cons x xs)
  show ?case unfolding Cons.prems(1)[symmetric] Cons.prems(2)[symmetric]
    using Cons.prems(3) Cons.IH[OF refl refl] Cons.prems(1) by (auto split: option.splits)
qed simp

fun node_meaning :: "bool \<Rightarrow> dt_node \<Rightarrow> tree_info \<Rightarrow> tree_info option" where
  "node_meaning root (Node name ps ks) c =
     (case fold_opt (prop_meaning root name) ps c of None \<Rightarrow> None
      | Some c' \<Rightarrow> fold_opt (node_meaning False) ks c')"

text \<open>
  Trees the standard allows for the properties the kernel reads: names without null bytes in ASCII, cell counts of one or two,
  values of four or eight bytes, a root without a name.\<close>

definition ascii_name :: "u8 list \<Rightarrow> bool" where
  "ascii_name n \<longleftrightarrow> (\<forall>x \<in> set n. 0 < x \<and> x < 0x80)"

definition kind_prop_ok :: "node_kind \<Rightarrow> u8 list \<Rightarrow> u8 list \<Rightarrow> bool" where
  "kind_prop_ok k n d \<longleftrightarrow>
     (k = KFrame \<longrightarrow> (n = ascii ''reg'' \<longrightarrow> length d \<ge> 8) \<and> (n \<in> {ascii ''width'', ascii ''height'', ascii ''stride''} \<longrightarrow> length d = 4)) \<and>
     (k = KUart \<longrightarrow> n = ascii ''reg'' \<longrightarrow> length d \<ge> 8) \<and>
     (k = KChosen \<longrightarrow> n \<in> {ascii ''linux,initrd-start'', ascii ''linux,initrd-end''} \<longrightarrow> length d = 8)"

definition root_prop_ok :: "u8 list \<Rightarrow> u8 list \<Rightarrow> bool" where
  "root_prop_ok n d \<longleftrightarrow>
     (n \<in> {ascii ''#address-cells'', ascii ''#size-cells''} \<longrightarrow> length d = 4 \<and> be_bytes d \<in> {1, 2})"

fun node_ok :: "bool \<Rightarrow> dt_node \<Rightarrow> bool" where
  "node_ok root (Node name ps ks) \<longleftrightarrow> ascii_name name \<and> (root \<longrightarrow> name = []) \<and>
     (\<forall>(n, d) \<in> set ps. ascii_name n \<and> (if root then root_prop_ok n d else kind_prop_ok (kind_of_name name) n d)) \<and>
     (\<forall>k \<in> set ks. node_ok False k)"

subsection \<open>Properties\<close>

definition core :: "dt_state \<Rightarrow> tree_info" where
  "core st = \<lparr>ti_ac = unat (address_cells st), ti_sc = unat (size_cells st), ti_fb = dt_fb_base st, ti_w = dt_fb_width st,
     ti_h = dt_fb_height st, ti_p = dt_fb_pitch st, ti_mm = dt_mm st, ti_info = dt_info st\<rparr>"

definition ctx :: "dt_state \<Rightarrow> int \<times> bool \<times> bool \<times> bool \<times> bool" where
  "ctx st = (dt_depth st, in_memory st, in_framebuf st, in_pl011 st, in_chosen st)"

definition ctx_of :: "int \<Rightarrow> u8 list \<Rightarrow> int \<times> bool \<times> bool \<times> bool \<times> bool" where
  "ctx_of dep name = (let k = kind_of_name name in (dep, k = KMemory, k = KFrame, k = KUart, k = KChosen))"

definition cells_ok :: "dt_state \<Rightarrow> bool" where
  "cells_ok st \<longleftrightarrow> address_cells st \<in> {1, 2} \<and> size_cells st \<in> {1, 2}"

lemma reg_loop_entries:
  assumes "holds m b dp d" "ac \<in> {1, 2}" "sc \<in> {1, 2}" "off \<le> length d" "length mm \<le> 64"
  shows "reg_loop m b dp (length d) ac sc (unat (ac + sc) * 4) off mm =
    (let mm' = mm @ reg_entries (unat ac) (unat sc) (drop off d) in if length mm' > 64 then None else Some mm')"
  using assms
proof (induction "length d - off" arbitrary: off mm rule: less_induct)
  case less
  let ?e = "4 * unat ac + 4 * unat sc"
  have eb: "unat (ac + sc) * 4 = ?e" using less.prems(2,3) by auto
  show ?case
  proof (cases "off + ?e \<le> length d")
    case False
    then show ?thesis using less.prems unfolding eb by (subst reg_loop.simps, subst reg_entries.simps) auto
  next
    case True
    have b1: "(if ac = 2 then be64 m b (dp + off) else be32 m b (dp + off)) = be_bytes (take (4 * unat ac) (drop off d))"
      using less.prems(2) True be64_slice[OF less.prems(1), of off] be32_slice[OF less.prems(1), of off] by auto
    have b2: "(if sc = 2 then be64 m b (dp + (off + unat ac * 4)) else be32 m b (dp + (off + unat ac * 4))) =
        be_bytes (take (4 * unat sc) (drop (4 * unat ac) (drop off d)))"
      using less.prems(2,3) True be64_slice[OF less.prems(1), of "off + unat ac * 4"] be32_slice[OF less.prems(1), of "off + unat ac * 4"]
      by (auto simp: add.commute)
    let ?r = "\<lparr>base = be_bytes (take (4 * unat ac) (drop off d)),
        length_of = be_bytes (take (4 * unat sc) (drop (4 * unat ac) (drop off d))), kind = Available\<rparr>"
    have es: "reg_entries (unat ac) (unat sc) (drop off d) = ?r # reg_entries (unat ac) (unat sc) (drop (off + ?e) d)"
      using True less.prems(2) by (subst reg_entries.simps) (auto simp: add_ac)
    have pos: "0 < unat ac" using less.prems(2) by auto
    have st: "reg_loop m b dp (length d) ac sc ?e off mm =
      (if 64 \<le> length mm then None else reg_loop m b dp (length d) ac sc ?e (off + ?e) (mm @ [?r]))"
      by (subst reg_loop.simps) (use True pos in \<open>simp add: Let_def b1 b2 MM_SLOTS_def\<close>)
    show ?thesis
    proof (cases "64 \<le> length mm")
      case True
      then show ?thesis unfolding eb st es by (simp add: Let_def)
    next
      case False
      have "reg_loop m b dp (length d) ac sc (unat (ac + sc) * 4) (off + ?e) (mm @ [?r]) =
         (let mm' = (mm @ [?r]) @ reg_entries (unat ac) (unat sc) (drop (off + ?e) d) in if length mm' > 64 then None else Some mm')"
        by (rule less.hyps) (use less.prems True False pos in auto)
      then show ?thesis using False unfolding eb st es by (simp add: Let_def)
    qed
  qed
qed

lemma core_simps [simp]:
  "ti_ac (core st) = unat (address_cells st)" "ti_sc (core st) = unat (size_cells st)" "ti_mm (core st) = dt_mm st"
  "ti_info (core st) = dt_info st"
  by (simp_all add: core_def)

lemma first_addr_core:
  assumes "holds m b dp d" "length d \<ge> 8" "cells_ok st"
  shows "cell_addr m b dp st = first_addr (core st) d"
  using assms(2,3) be64_slice[OF assms(1), of 0] be32_slice[OF assms(1), of 0]
  by (auto simp: cell_addr_def first_addr_def cells_ok_def word_le_nat_alt)

lemma be_whole:
  assumes "holds m b dp d"
  shows "length d = 4 \<Longrightarrow> be32 m b dp = be_bytes d" "length d = 8 \<Longrightarrow> be64 m b dp = be_bytes d"
  using be32_holds[OF assms] be64_holds[OF assms] by simp_all

lemma prop_names:
  "ascii ''reg'' \<noteq> ascii ''#address-cells''" "ascii ''reg'' \<noteq> ascii ''#size-cells''" "ascii ''reg'' \<noteq> ascii ''width''"
  "ascii ''reg'' \<noteq> ascii ''height''" "ascii ''reg'' \<noteq> ascii ''stride''" "ascii ''#address-cells'' \<noteq> ascii ''#size-cells''"
  "ascii ''reg'' \<noteq> ascii ''linux,initrd-start''" "ascii ''reg'' \<noteq> ascii ''linux,initrd-end''"
  "ascii ''linux,initrd-start'' \<noteq> ascii ''linux,initrd-end''"
  "ascii ''width'' \<noteq> ascii ''height''" "ascii ''width'' \<noteq> ascii ''stride''" "ascii ''height'' \<noteq> ascii ''stride''"
  "ascii ''width'' \<noteq> ascii ''#address-cells''" "ascii ''height'' \<noteq> ascii ''#address-cells''" "ascii ''stride'' \<noteq> ascii ''#address-cells''"
  "ascii ''width'' \<noteq> ascii ''#size-cells''" "ascii ''height'' \<noteq> ascii ''#size-cells''" "ascii ''stride'' \<noteq> ascii ''#size-cells''"
  "ascii ''linux,initrd-start'' \<noteq> ascii ''#address-cells''" "ascii ''linux,initrd-start'' \<noteq> ascii ''#size-cells''"
  "ascii ''linux,initrd-end'' \<noteq> ascii ''#address-cells''" "ascii ''linux,initrd-end'' \<noteq> ascii ''#size-cells''"
  "ascii ''linux,initrd-start'' \<noteq> ascii ''width''" "ascii ''linux,initrd-start'' \<noteq> ascii ''height''" "ascii ''linux,initrd-start'' \<noteq> ascii ''stride''"
  "ascii ''linux,initrd-end'' \<noteq> ascii ''width''" "ascii ''linux,initrd-end'' \<noteq> ascii ''height''" "ascii ''linux,initrd-end'' \<noteq> ascii ''stride''"
  by (simp_all add: ascii_def)

text \<open>A property leads the parser to what it means, and keeps the node's context.\<close>

definition reads_as :: "dt_state outcome \<Rightarrow> dt_state \<Rightarrow> tree_info option \<Rightarrow> bool" where
  "reads_as r st c \<longleftrightarrow> (case c of None \<Rightarrow> r = Crash
     | Some c' \<Rightarrow> \<exists>st'. r = Next st' \<and> core st' = c' \<and> ctx st' = ctx st \<and> cells_ok st' \<and> length (dt_mm st') \<le> 64)"

lemma dt_prop_root:
  assumes "holds m b dp d" "root_prop_ok n d" "ctx st = ctx_of 1 []" "cells_ok st" "length (dt_mm st) \<le> 64"
  shows "reads_as (dt_prop m b n dp (length d) st) st (Some (root_prop n d (core st)))"
proof -
  have f: "dt_depth st = 1" "\<not> in_memory st" "\<not> in_framebuf st" "\<not> in_pl011 st" "\<not> in_chosen st"
    using assms(3) by (simp_all add: ctx_def ctx_of_def kind_of_name_def ascii_def has_prefix_def)
  have d4: "length d = 4 \<and> be32 m b dp = be_bytes d \<and> be_bytes d \<in> {1, 2}" if "n = ascii ''#address-cells'' \<or> n = ascii ''#size-cells''"
    using that assms(2) be_whole(1)[OF assms(1)] by (auto simp: root_prop_ok_def)
  consider (a) "n = ascii ''#address-cells''" | (s) "n = ascii ''#size-cells''" | (o) "n \<noteq> ascii ''#address-cells''" "n \<noteq> ascii ''#size-cells''"
    by blast
  then show ?thesis
  proof cases
    case a
    then show ?thesis using d4 f assms(4,5) by (auto simp: reads_as_def dt_prop_def root_prop_def core_def ctx_def cells_ok_def)
  next
    case s
    then show ?thesis using d4 f assms(4,5) prop_names(6)
      by (auto simp: reads_as_def dt_prop_def root_prop_def core_def ctx_def cells_ok_def)
  next
    case o
    then show ?thesis using f assms(4,5) by (simp add: reads_as_def dt_prop_def root_prop_def)
  qed
qed

lemma reads_as_same: "cells_ok st \<Longrightarrow> length (dt_mm st) \<le> 64 \<Longrightarrow> reads_as (Next st) st (Some (core st))"
  by (simp add: reads_as_def)

lemma dt_prop_memory:
  assumes "holds m b dp d" "ctx st = (dep, True, False, False, False)" "dep \<noteq> 1" "cells_ok st" "length (dt_mm st) \<le> 64"
  shows "reads_as (dt_prop m b n dp (length d) st) st (kind_prop KMemory n d (core st))"
proof -
  have f: "dt_depth st \<noteq> 1" "in_memory st" "\<not> in_framebuf st" "\<not> in_pl011 st" "\<not> in_chosen st"
    using assms(2,3) by (auto simp: ctx_def)
  show ?thesis
  proof (cases "n = ascii ''reg'' \<and> length (dt_mm st) < 32")
    case False
    then show ?thesis using f assms(4,5) by (auto simp: dt_prop_def intro!: reads_as_same)
  next
    case True
    have "unat (address_cells st + size_cells st) * 4 \<noteq> 0" using assms(4) by (auto simp: cells_ok_def)
    then have "dt_prop m b n dp (length d) st = (case reg_loop m b dp (length d) (address_cells st) (size_cells st)
        (unat (address_cells st + size_cells st) * 4) 0 (dt_mm st) of None \<Rightarrow> Crash | Some mm \<Rightarrow> Next (st\<lparr>dt_mm := mm\<rparr>))"
      using True f prop_names(1-5) by (simp add: dt_prop_def Let_def)
    also have "\<dots> = (let mm = dt_mm st @ reg_entries (unat (address_cells st)) (unat (size_cells st)) d
        in if length mm > 64 then Crash else Next (st\<lparr>dt_mm := mm\<rparr>))"
      by (subst reg_loop_entries[OF assms(1)]) (use assms(4,5) in \<open>auto simp: cells_ok_def Let_def\<close>)
    finally show ?thesis using True assms(4) by (simp add: reads_as_def Let_def core_def ctx_def cells_ok_def)
  qed
qed

lemma dt_prop_frame:
  assumes "holds m b dp d" "kind_prop_ok KFrame n d" "ctx st = (dep, False, True, False, False)" "dep \<noteq> 1" "cells_ok st"
    "length (dt_mm st) \<le> 64"
  shows "reads_as (dt_prop m b n dp (length d) st) st (kind_prop KFrame n d (core st))"
proof -
  have f: "dt_depth st \<noteq> 1" "\<not> in_memory st" "in_framebuf st" "\<not> in_pl011 st" "\<not> in_chosen st"
    using assms(3,4) by (auto simp: ctx_def)
  consider (r) "n = ascii ''reg''" | (w) "n = ascii ''width''" | (h) "n = ascii ''height''" | (p) "n = ascii ''stride''"
    | (o) "n \<notin> {ascii ''reg'', ascii ''width'', ascii ''height'', ascii ''stride''}" by blast
  then show ?thesis
  proof cases
    case r
    then have "length d \<ge> 8" using assms(2) by (simp add: kind_prop_ok_def)
    then show ?thesis using r f assms(5,6) prop_names(1,2) first_addr_core[OF assms(1) _ assms(5)]
      by (simp add: reads_as_def dt_prop_def) (simp add: core_def ctx_def cells_ok_def)
  next
    case w
    then have "length d = 4" using assms(2) by (simp add: kind_prop_ok_def)
    then show ?thesis using w f assms(5,6) prop_names be_whole[OF assms(1)]
      by (simp add: reads_as_def dt_prop_def prop_names[symmetric]) (simp add: core_def ctx_def cells_ok_def)
  next
    case h
    then have "length d = 4" using assms(2) by (simp add: kind_prop_ok_def)
    then show ?thesis using h f assms(5,6) prop_names be_whole[OF assms(1)]
      by (simp add: reads_as_def dt_prop_def prop_names[symmetric]) (simp add: core_def ctx_def cells_ok_def)
  next
    case p
    then have "length d = 4" using assms(2) by (simp add: kind_prop_ok_def)
    then show ?thesis using p f assms(5,6) prop_names be_whole[OF assms(1)]
      by (simp add: reads_as_def dt_prop_def prop_names[symmetric]) (simp add: core_def ctx_def cells_ok_def)
  next
    case o
    then show ?thesis using f assms(5,6) by (simp add: dt_prop_def reads_as_same)
  qed
qed

lemma dt_prop_uart:
  assumes "holds m b dp d" "kind_prop_ok KUart n d" "ctx st = (dep, False, False, True, False)" "dep \<noteq> 1" "cells_ok st"
    "length (dt_mm st) \<le> 64"
  shows "reads_as (dt_prop m b n dp (length d) st) st (kind_prop KUart n d (core st))"
proof -
  have f: "dt_depth st \<noteq> 1" "\<not> in_memory st" "\<not> in_framebuf st" "in_pl011 st" "\<not> in_chosen st"
    using assms(3,4) by (auto simp: ctx_def)
  show ?thesis
  proof (cases "n = ascii ''reg''")
    case r: True
    then have "length d \<ge> 8" using assms(2) by (simp add: kind_prop_ok_def)
    then show ?thesis using r f assms(5,6) prop_names(1-5) first_addr_core[OF assms(1) _ assms(5)]
      by (simp add: reads_as_def dt_prop_def) (simp add: core_def ctx_def cells_ok_def)
  qed (use f assms(5,6) in \<open>simp add: dt_prop_def reads_as_same\<close>)
qed

lemma dt_prop_chosen:
  assumes "holds m b dp d" "kind_prop_ok KChosen n d" "ctx st = (dep, False, False, False, True)" "dep \<noteq> 1" "cells_ok st"
    "length (dt_mm st) \<le> 64"
  shows "reads_as (dt_prop m b n dp (length d) st) st (kind_prop KChosen n d (core st))"
proof -
  have f: "dt_depth st \<noteq> 1" "\<not> in_memory st" "\<not> in_framebuf st" "\<not> in_pl011 st" "in_chosen st"
    using assms(3,4) by (auto simp: ctx_def)
  consider (s) "n = ascii ''linux,initrd-start''" | (e) "n = ascii ''linux,initrd-end''"
    | (o) "n \<notin> {ascii ''linux,initrd-start'', ascii ''linux,initrd-end''}" by blast
  then show ?thesis
  proof cases
    case s
    then have "length d = 8" using assms(2) by (simp add: kind_prop_ok_def)
    then show ?thesis using s f assms(5,6) be_whole[OF assms(1)]
      by (simp add: reads_as_def dt_prop_def) (simp add: core_def ctx_def cells_ok_def)
  next
    case e
    then have "length d = 8" using assms(2) by (simp add: kind_prop_ok_def)
    then show ?thesis using e f assms(5,6) be_whole[OF assms(1)] prop_names(9)
      by (simp add: reads_as_def dt_prop_def Let_def) (simp add: core_def ctx_def cells_ok_def)
  next
    case o
    then show ?thesis using f assms(5,6) by (simp add: dt_prop_def reads_as_same)
  qed
qed

lemma dt_prop_meaning:
  assumes "holds m b dp d" "if root then root_prop_ok n d else kind_prop_ok (kind_of_name name) n d"
    "ctx st = ctx_of dep name" "root \<longleftrightarrow> dep = 1" "root \<longrightarrow> name = []" "cells_ok st" "length (dt_mm st) \<le> 64"
  shows "reads_as (dt_prop m b n dp (length d) st) st (prop_meaning root name (n, d) (core st))"
proof (cases root)
  case True
  then show ?thesis using dt_prop_root[OF assms(1), of n st] assms(2-7) by (simp add: prop_meaning_def)
next
  case False
  then have dep: "dep \<noteq> 1" and ok: "kind_prop_ok (kind_of_name name) n d" using assms(2,4) by simp_all
  have "reads_as (dt_prop m b n dp (length d) st) st (kind_prop (kind_of_name name) n d (core st))"
  proof (cases "kind_of_name name")
    case KOther
    then have "\<not> in_memory st" "\<not> in_framebuf st" "\<not> in_pl011 st" "\<not> in_chosen st" "dt_depth st \<noteq> 1"
      using assms(3) dep by (auto simp: ctx_def ctx_of_def)
    then show ?thesis using KOther assms(6,7) by (simp add: dt_prop_def reads_as_same)
  qed (use ok dep assms in \<open>auto simp: ctx_of_def intro!: dt_prop_memory dt_prop_frame dt_prop_uart dt_prop_chosen simp del: kind_prop.simps\<close>)
  then show ?thesis using False by (simp add: prop_meaning_def)
qed

subsection \<open>Nodes\<close>

definition name_stored :: "memory \<Rightarrow> usize \<Rightarrow> nat \<Rightarrow> nat \<Rightarrow> (u8 list \<Rightarrow> nat) \<Rightarrow> u8 list \<Rightarrow> bool" where
  "name_stored m b strings end_off so n \<longleftrightarrow>
     so n < 2 ^ 32 \<and> strings + so n + length n < end_off \<and> holds m b (strings + so n) (n @ [0])"

fun names_stored :: "memory \<Rightarrow> usize \<Rightarrow> nat \<Rightarrow> nat \<Rightarrow> (u8 list \<Rightarrow> nat) \<Rightarrow> dt_node \<Rightarrow> bool" where
  "names_stored m b strings end_off so (Node name ps ks) \<longleftrightarrow>
     (\<forall>(n, d) \<in> set ps. name_stored m b strings end_off so n) \<and> (\<forall>k \<in> set ks. names_stored m b strings end_off so k)"

lemma ascii_utf8: "ascii_name n \<Longrightarrow> utf8_or_empty n = n"
proof -
  assume "ascii_name n"
  then have "utf8_valid n" unfolding ascii_name_def by (induction n) (auto simp: utf8_valid.simps)
  then show ?thesis by (simp add: utf8_or_empty_def)
qed

lemma ascii_no_null: "ascii_name n \<Longrightarrow> 0 \<notin> set n"
  by (auto simp: ascii_name_def)

lemma has_prefix_first: "has_prefix (c # cs) n \<Longrightarrow> \<exists>xs. n = of_char c # xs"
  by (cases n) (simp_all add: has_prefix_def ascii_def)

lemma ascii_first: "n = ascii (c # cs) \<Longrightarrow> \<exists>xs. n = of_char c # xs"
  by (simp add: ascii_def)

lemma first_letters:
  "n = ascii ''memory'' \<or> has_prefix ''memory@'' n \<Longrightarrow> \<exists>xs. n = 109 # xs"
  "n = ascii ''framebuffer'' \<or> has_prefix ''framebuffer@'' n \<or> has_prefix ''simple-framebuffer@'' n \<Longrightarrow> \<exists>xs. n = 102 # xs \<or> n = 115 # xs"
  "has_prefix ''pl011@'' n \<or> has_prefix ''uart@'' n \<Longrightarrow> \<exists>xs. n = 112 # xs \<or> n = 117 # xs"
  "n = ascii ''chosen'' \<Longrightarrow> \<exists>xs. n = 99 # xs"
  by (auto dest!: has_prefix_first simp: ascii_def)

lemma kind_flags:
  assumes "k = (if m then KMemory else if f then KFrame else if u then KUart else if c then KChosen else KOther)"
    "\<not> (m \<and> f)" "\<not> (m \<and> u)" "\<not> (m \<and> c)" "\<not> (f \<and> u)" "\<not> (f \<and> c)" "\<not> (u \<and> c)"
  shows "(k = KMemory) = m \<and> (k = KFrame) = f \<and> (k = KUart) = u \<and> (k = KChosen) = c"
  using assms by auto

lemma enter_node_ctx: "ctx (enter_node n st) = ctx_of (dt_depth st + 1) n"
proof -
  let ?m = "n = ascii ''memory'' \<or> has_prefix ''memory@'' n"
  let ?f = "n = ascii ''framebuffer'' \<or> has_prefix ''framebuffer@'' n \<or> has_prefix ''simple-framebuffer@'' n"
  let ?u = "has_prefix ''pl011@'' n \<or> has_prefix ''uart@'' n"
  let ?c = "n = ascii ''chosen''"
  have "\<not> (?m \<and> ?f)" "\<not> (?m \<and> ?u)" "\<not> (?m \<and> ?c)" "\<not> (?f \<and> ?u)" "\<not> (?f \<and> ?c)" "\<not> (?u \<and> ?c)"
    using first_letters[of n] by fastforce+
  note k = kind_flags[OF kind_of_name_def[of n] this]
  show ?thesis unfolding ctx_def ctx_of_def Let_def by (simp only: k) (simp add: enter_node_def)
qed

lemma enter_node_core: "core (enter_node n st) = core st" "cells_ok (enter_node n st) = cells_ok st" "dt_mm (enter_node n st) = dt_mm st"
  by (simp_all add: core_def enter_node_def cells_ok_def)

lemma leave_node_core: "core (leave_node st) = core st" "cells_ok (leave_node st) = cells_ok st" "dt_mm (leave_node st) = dt_mm st"
    "dt_depth (leave_node st) = dt_depth st - 1"
  by (simp_all add: core_def leave_node_def cells_ok_def Let_def)

lemma dt_loop_begin:
  assumes "holds m b pos (be_list 4 FDT_BEGIN_NODE @ pad4 (n @ [0]))" "ascii_name n" "pos + 4 + al4 (length n + 1) \<le> end_off"
  shows "dt_loop m b strings end_off pos st = dt_loop m b strings end_off (pos + 4 + al4 (length n + 1)) (enter_node n st)"
proof -
  have t: "be32 m b pos = FDT_BEGIN_NODE" by (rule be32_value) (use assms(1) in \<open>simp_all add: FDT_BEGIN_NODE_def\<close>)
  have len: "length n < end_off - (pos + 4)" using assms(3) al4_ge[of "length n + 1"] by linarith
  have h: "holds m b (pos + 4) (n @ [0])" using assms(1) unfolding pad4_def by simp
  have "scan_name m b (pos + 4) (end_off - (pos + 4)) = n" by (rule scan_name_holds[OF h ascii_no_null[OF assms(2)] len])
  moreover have "\<not> pos + 4 > end_off" using len by linarith
  ultimately show ?thesis by (subst dt_loop.simps) (simp add: t Let_def ascii_utf8[OF assms(2)])
qed

lemma dt_loop_end:
  assumes "holds m b pos (be_list 4 FDT_END_NODE)" "pos + 4 \<le> end_off"
  shows "dt_loop m b strings end_off pos st = dt_loop m b strings end_off (pos + 4) (leave_node st)"
proof -
  have t: "be32 m b pos = FDT_END_NODE" by (rule be32_value) (use assms(1) in \<open>simp_all add: FDT_END_NODE_def\<close>)
  show ?thesis by (subst dt_loop.simps) (use assms(2) in \<open>simp add: t Let_def FDT_END_NODE_def FDT_BEGIN_NODE_def\<close>)
qed

lemma dt_loop_prop:
  assumes "holds m b pos (enc_prop so (n, d))" "ascii_name n" "name_stored m b strings end_off so n"
    "pos + 12 + al4 (length d) \<le> end_off" "end_off < 2 ^ 32"
  shows "dt_loop m b strings end_off pos st = (case dt_prop m b n (pos + 12) (length d) st of
      Crash \<Rightarrow> None | Stop st' \<Rightarrow> Some st' | Next st' \<Rightarrow> dt_loop m b strings end_off (pos + 12 + al4 (length d)) st')"
proof -
  have h: "holds m b pos (be_list 4 FDT_PROP)" "holds m b (pos + 4) (be_list 4 (of_nat (length d)))"
      "holds m b (pos + 8) (be_list 4 (of_nat (so n)))"
    using assms(1) by (simp_all add: enc_prop_def add.assoc)
  have t: "be32 m b pos = FDT_PROP" by (rule be32_value[OF h(1)]) (simp add: FDT_PROP_def)
  have fit: "pos + 12 + length d \<le> end_off" using assms(4) al4_ge[of "length d"] by linarith
  have "unat (of_nat (length d) :: 64 word) = length d" "unat (of_nat (so n) :: 64 word) = so n"
    using fit assms(3,5) by (simp_all add: unat_of_nat_small name_stored_def)
  then have l: "unat (be32 m b (pos + 4)) = length d" "unat (be32 m b (pos + 8)) = so n"
    using be32_value[OF h(2)] be32_value[OF h(3)] assms(3,5) fit by (simp_all add: name_stored_def)
  have len: "length n < end_off - (strings + so n)" using assms(3) unfolding name_stored_def by linarith
  have "scan_name m b (strings + so n) (end_off - (strings + so n)) = n"
    by (rule scan_name_holds[OF _ ascii_no_null[OF assms(2)] len]) (use assms(3) in \<open>simp only: name_stored_def\<close>)
  then show ?thesis
    by (subst dt_loop.simps)
      (use fit assms(3) in \<open>simp add: t l Let_def FDT_PROP_def FDT_END_NODE_def FDT_BEGIN_NODE_def ascii_utf8[OF assms(2)] name_stored_def ac_simps split: outcome.split\<close>)
qed

text \<open>From \<open>pos\<close> in state \<open>st\<close> the parser comes to \<open>pos'\<close> with the given meaning, or panics when that is \<open>None\<close>.\<close>

definition leads :: "(dt_state \<Rightarrow> 'c) \<Rightarrow> (nat \<Rightarrow> dt_state \<Rightarrow> dt_state option) \<Rightarrow> nat \<Rightarrow> dt_state \<Rightarrow> nat \<Rightarrow> tree_info option \<Rightarrow> bool" where
  "leads keep run pos st pos' r \<longleftrightarrow> (case r of None \<Rightarrow> run pos st = None
     | Some c \<Rightarrow> \<exists>st'. run pos st = run pos' st' \<and> core st' = c \<and> keep st' = keep st \<and> cells_ok st' \<and> length (dt_mm st') \<le> 64)"

lemma leads_same: "cells_ok st \<Longrightarrow> length (dt_mm st) \<le> 64 \<Longrightarrow> leads keep run pos st pos (Some (core st))"
  by (auto simp: leads_def)

lemma leads_then:
  assumes "leads keep run pos st p1 r"
    "\<And>c st1. r = Some c \<Longrightarrow> core st1 = c \<Longrightarrow> keep st1 = keep st \<Longrightarrow> cells_ok st1 \<Longrightarrow> length (dt_mm st1) \<le> 64 \<Longrightarrow>
       leads keep run p1 st1 p2 (f c)"
  shows "leads keep run pos st p2 (case r of None \<Rightarrow> None | Some c \<Rightarrow> f c)"
proof (cases r)
  case None
  then show ?thesis using assms(1) by (simp add: leads_def)
next
  case (Some c)
  then obtain st1 where s1: "run pos st = run p1 st1" "core st1 = c" "keep st1 = keep st" "cells_ok st1" "length (dt_mm st1) \<le> 64"
    using assms(1) by (auto simp: leads_def)
  have "leads keep run p1 st1 p2 (f c)" by (rule assms(2)[OF Some s1(2-5)])
  then show ?thesis using s1(1,3) Some by (simp add: leads_def split: option.splits)
qed

lemma dt_loop_props:
  assumes "holds m b pos (concat (map (enc_prop so) ps))" "ctx st = ctx_of dep name" "root \<longleftrightarrow> dep = 1" "root \<longrightarrow> name = []"
    "\<forall>(n, d) \<in> set ps. ascii_name n \<and> (if root then root_prop_ok n d else kind_prop_ok (kind_of_name name) n d)"
    "\<forall>(n, d) \<in> set ps. name_stored m b strings end_off so n"
    "pos + length (concat (map (enc_prop so) ps)) \<le> end_off" "end_off < 2 ^ 32" "cells_ok st" "length (dt_mm st) \<le> 64"
  shows "leads ctx (dt_loop m b strings end_off) pos st (pos + length (concat (map (enc_prop so) ps)))
           (fold_opt (prop_meaning root name) ps (core st))"
  using assms
proof (induction ps arbitrary: pos st)
  case Nil
  then show ?case by (simp add: leads_same)
next
  case (Cons p ps)
  obtain n d where p: "p = (n, d)" by (cases p)
  let ?p1 = "pos + 12 + al4 (length d)"
  have h: "holds m b pos (enc_prop so (n, d))" "holds m b ?p1 (concat (map (enc_prop so) ps))"
    using Cons.prems(1) by (simp_all add: p add.assoc)
  have hd: "holds m b (pos + 12) d" using h(1) by (simp add: enc_prop_def pad4_def add.assoc)
  have step: "dt_loop m b strings end_off pos st = (case dt_prop m b n (pos + 12) (length d) st of
      Crash \<Rightarrow> None | Stop st' \<Rightarrow> Some st' | Next st' \<Rightarrow> dt_loop m b strings end_off ?p1 st')"
    by (rule dt_loop_prop[OF h(1)]) (use Cons.prems in \<open>auto simp: p\<close>)
  have "reads_as (dt_prop m b n (pos + 12) (length d) st) st (prop_meaning root name (n, d) (core st))"
    by (rule dt_prop_meaning[OF hd _ Cons.prems(2-4,9,10)]) (use Cons.prems(5) in \<open>simp add: p\<close>)
  then have one: "leads ctx (dt_loop m b strings end_off) pos st ?p1 (prop_meaning root name (n, d) (core st))"
    unfolding leads_def step by (auto simp: reads_as_def split: option.splits)
  show ?case
    unfolding p fold_opt.simps
  proof (rule leads_then[OF one])
    fix c st1
    assume a: "core st1 = c" "ctx st1 = ctx st" "cells_ok st1" "length (dt_mm st1) \<le> 64"
    have "leads ctx (dt_loop m b strings end_off) ?p1 st1 (?p1 + length (concat (map (enc_prop so) ps)))
        (fold_opt (prop_meaning root name) ps (core st1))"
      by (rule Cons.IH[OF h(2)]) (use Cons.prems a in \<open>auto simp: p\<close>)
    then show "leads ctx (dt_loop m b strings end_off) ?p1 st1 (pos + length (concat (map (enc_prop so) ((n, d) # ps))))
        (fold_opt (prop_meaning root name) ps c)"
      by (simp add: a(1) add.assoc)
  qed
qed

lemma leads_weaken: "leads ctx run pos st p r \<Longrightarrow> leads dt_depth run pos st p r"
  by (auto simp: leads_def ctx_def split: option.splits)

lemma dt_loop_kids:
  assumes "\<And>k pos st. k \<in> set ks \<Longrightarrow> holds m b pos (enc_node so k) \<Longrightarrow> pos + length (enc_node so k) \<le> end_off \<Longrightarrow>
       dt_depth st > 0 \<Longrightarrow> cells_ok st \<Longrightarrow> length (dt_mm st) \<le> 64 \<Longrightarrow>
       leads dt_depth run pos st (pos + length (enc_node so k)) (node_meaning False k (core st))"
    "holds m b pos (concat (map (enc_node so) ks))" "pos + length (concat (map (enc_node so) ks)) \<le> end_off"
    "dt_depth st > 0" "cells_ok st" "length (dt_mm st) \<le> 64"
  shows "leads dt_depth run pos st (pos + length (concat (map (enc_node so) ks))) (fold_opt (node_meaning False) ks (core st))"
  using assms
proof (induction ks arbitrary: pos st)
  case Nil
  then show ?case by (simp add: leads_same)
next
  case (Cons k ks)
  let ?p1 = "pos + length (enc_node so k)"
  have h: "holds m b pos (enc_node so k)" "holds m b ?p1 (concat (map (enc_node so) ks))" using Cons.prems(2) by simp_all
  have one: "leads dt_depth run pos st ?p1 (node_meaning False k (core st))"
    by (rule Cons.prems(1)[OF _ h(1)]) (use Cons.prems in simp_all)
  show ?case unfolding fold_opt.simps
  proof (rule leads_then[OF one])
    fix c st1
    assume a: "core st1 = c" "dt_depth st1 = dt_depth st" "cells_ok st1" "length (dt_mm st1) \<le> 64"
    have "leads dt_depth run ?p1 st1 (?p1 + length (concat (map (enc_node so) ks))) (fold_opt (node_meaning False) ks (core st1))"
      by (rule Cons.IH[OF Cons.prems(1) h(2)]) (use Cons.prems a in auto)
    then show "leads dt_depth run ?p1 st1 (pos + length (concat (map (enc_node so) (k # ks)))) (fold_opt (node_meaning False) ks c)"
      by (simp add: a(1) add.assoc)
  qed
qed

lemma dt_loop_node:
  assumes "holds m b pos (enc_node so k)" "node_ok root k" "names_stored m b strings end_off so k"
    "pos + length (enc_node so k) \<le> end_off" "end_off < 2 ^ 32" "root \<longleftrightarrow> dt_depth st = 0" "dt_depth st \<ge> 0"
    "cells_ok st" "length (dt_mm st) \<le> 64"
  shows "leads dt_depth (dt_loop m b strings end_off) pos st (pos + length (enc_node so k)) (node_meaning root k (core st))"
  using assms
proof (induction k arbitrary: pos st root)
  case (Node name ps ks)
  let ?run = "dt_loop m b strings end_off"
  let ?p1 = "pos + 4 + al4 (length name + 1)"
  let ?p2 = "?p1 + length (concat (map (enc_prop so) ps))"
  let ?p3 = "?p2 + length (concat (map (enc_node so) ks))"
  have h: "holds m b pos (be_list 4 FDT_BEGIN_NODE @ pad4 (name @ [0]))" "holds m b ?p1 (concat (map (enc_prop so) ps))"
    "holds m b ?p2 (concat (map (enc_node so) ks))" "holds m b ?p3 (be_list 4 FDT_END_NODE)"
    using Node.prems(1) by (simp_all add: add.assoc)
  have e: "pos + length (enc_node so (Node name ps ks)) = ?p3 + 4" by simp
  have bd: "?p3 + 4 \<le> end_off" using Node.prems(4) unfolding e .
  let ?s0 = "enter_node name st"
  have s0: "?run pos st = ?run ?p1 ?s0" by (rule dt_loop_begin[OF h(1)]) (use Node.prems(2) bd in simp_all)
  have props: "leads dt_depth ?run ?p1 ?s0 ?p2 (fold_opt (prop_meaning root name) ps (core ?s0))"
    by (rule leads_weaken, rule dt_loop_props[OF h(2) enter_node_ctx])
      (use Node.prems bd in \<open>auto simp: enter_node_core\<close>)
  have "leads dt_depth ?run ?p1 ?s0 ?p3
      (case fold_opt (prop_meaning root name) ps (core ?s0) of None \<Rightarrow> None | Some c \<Rightarrow> fold_opt (node_meaning False) ks c)"
  proof (rule leads_then[OF props])
    fix c st1
    assume a: "core st1 = c" "dt_depth st1 = dt_depth ?s0" "cells_ok st1" "length (dt_mm st1) \<le> 64"
    have d: "dt_depth st1 > 0" using a(2) Node.prems(7) by (simp add: enter_node_def)
    have "leads dt_depth ?run ?p2 st1 ?p3 (fold_opt (node_meaning False) ks (core st1))"
    proof (rule dt_loop_kids[OF _ h(3) _ d a(3,4)])
      fix k pos st
      assume k: "k \<in> set ks" "holds m b pos (enc_node so k)" "pos + length (enc_node so k) \<le> end_off" "dt_depth st > 0"
        "cells_ok st" "length (dt_mm st) \<le> 64"
      show "leads dt_depth ?run pos st (pos + length (enc_node so k)) (node_meaning False k (core st))"
        by (rule Node.IH[OF k(1,2) _ _ k(3) Node.prems(5) _ _ k(5,6)]) (use Node.prems k in simp_all)
    qed (use bd in simp)
    then show "leads dt_depth ?run ?p2 st1 ?p3 (fold_opt (node_meaning False) ks c)" by (simp add: a(1))
  qed
  then have all: "leads dt_depth ?run ?p1 ?s0 ?p3 (node_meaning root (Node name ps ks) (core st))"
    by (simp add: enter_node_core)
  have fin: "?run ?p3 st' = ?run (?p3 + 4) (leave_node st')" for st' by (rule dt_loop_end[OF h(4) bd])
  show ?case
    using all unfolding e leads_def s0 fin
    by (auto split: option.splits simp: leave_node_core enter_node_def intro!: exI[of _ "leave_node _"])
qed

subsection \<open>The whole blob\<close>

definition enc_rsv :: "u64 \<times> u64 \<Rightarrow> u8 list" where
  "enc_rsv = (\<lambda>(a, l). be_list 8 a @ be_list 8 l)"

definition rsv_region :: "u64 \<times> u64 \<Rightarrow> memory_region" where
  "rsv_region = (\<lambda>(a, l). \<lparr>base = a, length_of = l, kind = Reserved\<rparr>)"

definition enc_header :: "nat \<Rightarrow> nat \<Rightarrow> nat \<Rightarrow> nat \<Rightarrow> u8 list" where
  "enc_header total_sz struct_off strings_off rsv_off = be_list 4 FDT_MAGIC @ be_list 4 (of_nat total_sz) @ be_list 4 (of_nat struct_off)
     @ be_list 4 (of_nat strings_off) @ be_list 4 (of_nat rsv_off)"

text \<open>Memory at \<open>b\<close> holds a blob: header, reservation map, structure block and strings, wherever the header puts them.\<close>

definition blob_at :: "memory \<Rightarrow> usize \<Rightarrow> nat \<Rightarrow> nat \<Rightarrow> nat \<Rightarrow> nat \<Rightarrow> (u8 list \<Rightarrow> nat) \<Rightarrow> dt_node \<Rightarrow> (u64 \<times> u64) list \<Rightarrow> bool" where
  "blob_at m b total_sz struct_off strings_off rsv_off so root rsv \<longleftrightarrow>
     total_sz < 2 ^ 32 \<and> holds m b 0 (enc_header total_sz struct_off strings_off rsv_off) \<and>
     holds m b struct_off (enc_node so root @ be_list 4 FDT_END) \<and> struct_off + length (enc_node so root) + 4 \<le> total_sz \<and>
     strings_off < total_sz \<and> names_stored m b strings_off total_sz so root \<and>
     holds m b rsv_off (concat (map enc_rsv rsv) @ replicate 16 0) \<and> rsv_off + 16 * length rsv + 16 \<le> total_sz"

definition init_tree :: tree_info where
  "init_tree = \<lparr>ti_ac = 2, ti_sc = 2, ti_fb = 0, ti_w = 0, ti_h = 0, ti_p = 0, ti_mm = [], ti_info = empty_info\<rparr>"

definition tree_boot_info :: "(u64 \<times> u64) list \<Rightarrow> tree_info \<Rightarrow> boot_info" where
  "tree_boot_info rsv c =
     (let info = (ti_info c)\<lparr>memory_map := ti_mm c @ take (64 - length (ti_mm c)) (map rsv_region rsv)\<rparr>
      in if ti_fb c \<noteq> 0 then info\<lparr>framebuffer_base := ti_fb c, framebuffer_width := ti_w c, framebuffer_height := ti_h c,
           framebuffer_pitch := ti_p c\<rparr> else info)"

lemma be64_value: "holds m b off (be_list 8 w) \<Longrightarrow> be64 m b off = w"
  using be64_holds[of m b off "be_list 8 w"] take_bit_length_eq[of w] by (simp add: be_bytes_be_list)

lemma length_enc_rsv [simp]: "length (enc_rsv r) = 16"
  by (simp add: enc_rsv_def split: prod.split)

lemma diff_Suc_64: "64 - n = Suc k \<Longrightarrow> k = 63 - n"
  by simp

lemma rsv_loop_holds:
  assumes "holds m b off (concat (map enc_rsv rs) @ replicate 16 0)" "(0, 0) \<notin> set rs" "off + 16 * length rs + 16 \<le> end_off"
  shows "rsv_loop m b end_off off mm = mm @ take (64 - length mm) (map rsv_region rs)"
  using assms
proof (induction rs arbitrary: off mm)
  case Nil
  have "be_list 8 0 @ be_list 8 0 = replicate 16 0" by (simp add: be_list_def le_bytes_def byte_of_def numeral_eq_Suc)
  then have "holds m b off (be_list 8 0 @ be_list 8 0)" using Nil.prems(1) by simp
  then have "be64 m b off = 0" "be64 m b (off + 8) = 0" using be64_value[of m b _ 0] by simp_all
  then show ?case using Nil.prems(3) by (subst rsv_loop.simps) (simp add: Let_def)
next
  case (Cons r rs)
  obtain a l where r: "r = (a, l)" by (cases r)
  have h: "holds m b off (be_list 8 a)" "holds m b (off + 8) (be_list 8 l)"
      "holds m b (off + 16) (concat (map enc_rsv rs) @ replicate 16 0)"
    using Cons.prems(1) by (simp_all add: r enc_rsv_def add.assoc)
  have nz: "\<not> (a = 0 \<and> l = 0)" using Cons.prems(2) r by auto
  let ?mm = "if length mm < 64 then mm @ [rsv_region r] else mm"
  have "rsv_loop m b end_off off mm = rsv_loop m b end_off (off + 16) ?mm"
    by (subst rsv_loop.simps)
      (use nz Cons.prems(3) in \<open>auto simp: be64_value[OF h(1)] be64_value[OF h(2)] Let_def MM_SLOTS_def rsv_region_def r\<close>)
  also have "\<dots> = ?mm @ take (64 - length ?mm) (map rsv_region rs)"
    by (rule Cons.IH[OF h(3)]) (use Cons.prems in simp_all)
  also have "\<dots> = mm @ take (64 - length mm) (map rsv_region (r # rs))"
    by (cases "64 - length mm") (auto dest: diff_Suc_64)
  finally show ?case .
qed

lemma dt_loop_stop:
  assumes "holds m b pos (be_list 4 FDT_END)"
  shows "dt_loop m b strings end_off pos st = Some st"
proof -
  have "be32 m b pos = FDT_END" by (rule be32_value[OF assms]) (simp add: FDT_END_def)
  then show ?thesis
    by (subst dt_loop.simps) (simp add: Let_def FDT_END_def FDT_PROP_def FDT_NOP_def FDT_END_NODE_def FDT_BEGIN_NODE_def)
qed

lemma header_fields:
  assumes "blob_at m b t s n r so root rsv"
  shows "be32 m b 0 = FDT_MAGIC" "unat (be32 m b 4) = t" "unat (be32 m b 8) = s" "unat (be32 m b 12) = n" "unat (be32 m b 16) = r"
proof -
  have h: "holds m b 0 (be_list 4 FDT_MAGIC)" "holds m b 4 (be_list 4 (of_nat t))" "holds m b 8 (be_list 4 (of_nat s))"
      "holds m b 12 (be_list 4 (of_nat n))" "holds m b 16 (be_list 4 (of_nat r))"
    using assms by (simp_all add: blob_at_def enc_header_def)
  have lt: "t < 2 ^ 32" "s < 2 ^ 32" "n < 2 ^ 32" "r < 2 ^ 32" using assms by (simp_all add: blob_at_def)
  show "be32 m b 0 = FDT_MAGIC" by (rule be32_value[OF h(1)]) (simp add: FDT_MAGIC_def)
  show "unat (be32 m b 4) = t" "unat (be32 m b 8) = s" "unat (be32 m b 12) = n" "unat (be32 m b 16) = r"
    using be32_value[OF h(2)] be32_value[OF h(3)] be32_value[OF h(4)] be32_value[OF h(5)] lt by (simp_all add: unat_of_nat_small)
qed

text \<open>
  C26. The device tree parser computes the meaning of the tree. Wherever memory holds a flattened device tree in the standard
  layout, parsing it gives the boot information the tree stands for: every property is read in the context of the node that
  holds it, however deep the nesting, the root's cell counts decide how addresses are read, the regions of all memory nodes come
  in order and the reserved ranges behind them as far as the table of 64 has room. The parser panics exactly when the meaning
  is None: a memory node, looked at while fewer than 32 regions are stored, lists so many that they would exceed 64.\<close>

theorem device_tree_parse_meaning:
  assumes "blob_at m b total_sz struct_off strings_off rsv_off so root rsv" "node_ok True root" "(0, 0) \<notin> set rsv"
  shows "device_tree_parse m b = map_option (tree_boot_info rsv) (node_meaning True root init_tree)"
proof -
  note hd = header_fields[OF assms(1)]
  let ?p = "struct_off + length (enc_node so root)"
  have h: "holds m b struct_off (enc_node so root)" "holds m b ?p (be_list 4 FDT_END)"
    "holds m b rsv_off (concat (map enc_rsv rsv) @ replicate 16 0)"
    using assms(1) unfolding blob_at_def by (simp_all only: holds_append)
  have bd: "struct_off < total_sz" "strings_off < total_sz" "rsv_off < total_sz" "rsv_off + 16 * length rsv + 16 \<le> total_sz"
    using assms(1) by (simp_all add: blob_at_def)
  have init: "core dt_init = init_tree" "dt_depth dt_init = 0" "cells_ok dt_init" "length (dt_mm dt_init) \<le> 64"
    by (simp_all add: core_def dt_init_def init_tree_def cells_ok_def)
  have run: "leads dt_depth (dt_loop m b strings_off total_sz) struct_off dt_init ?p (node_meaning True root (core dt_init))"
    by (rule dt_loop_node[OF h(1) assms(2)]) (use assms(1) init in \<open>simp_all add: blob_at_def\<close>)
  show ?thesis
  proof (cases "node_meaning True root init_tree")
    case None
    then have "dt_loop m b strings_off total_sz struct_off dt_init = None" using run by (simp add: leads_def init)
    then show ?thesis using None hd bd by (simp add: device_tree_parse_def Let_def)
  next
    case (Some c)
    then obtain st where st: "dt_loop m b strings_off total_sz struct_off dt_init = dt_loop m b strings_off total_sz ?p st" "core st = c"
      using run by (auto simp: leads_def init)
    have "dt_loop m b strings_off total_sz struct_off dt_init = Some st" using st(1) dt_loop_stop[OF h(2)] by simp
    moreover have "dt_finish st (rsv_loop m b total_sz rsv_off (dt_mm st)) = tree_boot_info rsv c"
      unfolding rsv_loop_holds[OF h(3) assms(3) bd(4)] st(2)[symmetric]
      by (simp add: dt_finish_def tree_boot_info_def core_def Let_def)
    ultimately show ?thesis using Some hd bd by (simp add: device_tree_parse_def Let_def)
  qed
qed

definition demo_tree :: dt_node where
  "demo_tree = Node [] [(ascii ''#address-cells'', be_list 4 2), (ascii ''#size-cells'', be_list 4 1)]
     [Node (ascii ''memory@40000000'') [(ascii ''reg'', be_list 8 0x40000000 @ be_list 4 0x8000000 @ be_list 8 0x80000000 @ be_list 4 0x1000)] [],
      Node (ascii ''soc'') [] [Node (ascii ''pl011@9000000'') [(ascii ''reg'', be_list 8 0x9000000 @ be_list 4 0x1000)] []],
      Node (ascii ''chosen'') [(ascii ''linux,initrd-start'', be_list 8 0x44000000), (ascii ''linux,initrd-end'', be_list 8 0x44001000)] []]"

definition demo_strings :: "string list" where
  "demo_strings = [''#address-cells'', ''#size-cells'', ''reg'', ''linux,initrd-start'', ''linux,initrd-end'']"

definition demo_so :: "u8 list \<Rightarrow> nat" where
  "demo_so n = (if n = ascii ''#address-cells'' then 0 else if n = ascii ''#size-cells'' then 15 else if n = ascii ''reg'' then 27
     else if n = ascii ''linux,initrd-start'' then 31 else 50)"

definition demo_blob :: "u8 list" where
  "demo_blob = enc_header 363 72 296 40 @ replicate 20 0 @ enc_rsv (0x40000000, 0x10000) @ replicate 16 0
     @ (enc_node demo_so demo_tree @ be_list 4 FDT_END) @ concat (map (\<lambda>n. ascii n @ [0]) demo_strings)"

lemma demo_len: "length (enc_node demo_so demo_tree) = 220"
  by (simp add: demo_tree_def al4_def ascii_def)

lemma demo_blob_at: "blob_at (mem_of 0x40000 demo_blob) 0x40000 363 72 296 40 demo_so demo_tree [(0x40000000, 0x10000)]"
proof -
  let ?m = "mem_of 0x40000 demo_blob"
  have str: "length (concat (map (\<lambda>n. ascii n @ [0]) demo_strings)) = 67" by (simp add: demo_strings_def ascii_def)
  have len: "length demo_blob = 363" unfolding demo_blob_def by (simp only: length_append str demo_len) (simp add: enc_header_def)
  have "holds ?m 0x40000 0 demo_blob" by (rule holds_mem_of) (simp add: len)
  then have h: "holds ?m 0x40000 0 (enc_header 363 72 296 40)" "holds ?m 0x40000 40 (enc_rsv (0x40000000, 0x10000) @ replicate 16 0)"
    "holds ?m 0x40000 72 (enc_node demo_so demo_tree @ be_list 4 FDT_END)"
    "holds ?m 0x40000 296 (concat (map (\<lambda>n. ascii n @ [0]) demo_strings))"
    unfolding demo_blob_def by (simp_all only: holds_append length_append demo_len) (simp_all add: enc_header_def)
  have names: "holds ?m 0x40000 296 (ascii ''#address-cells'' @ [0])" "holds ?m 0x40000 (296 + 15) (ascii ''#size-cells'' @ [0])"
    "holds ?m 0x40000 (296 + 27) (ascii ''reg'' @ [0])" "holds ?m 0x40000 (296 + 31) (ascii ''linux,initrd-start'' @ [0])"
    "holds ?m 0x40000 (296 + 50) (ascii ''linux,initrd-end'' @ [0])"
    using h(4) by (simp_all add: demo_strings_def ascii_def)
  have so: "demo_so (ascii ''#address-cells'') = 0" "demo_so (ascii ''#size-cells'') = 15" "demo_so (ascii ''reg'') = 27"
    "demo_so (ascii ''linux,initrd-start'') = 31" "demo_so (ascii ''linux,initrd-end'') = 50"
    unfolding demo_so_def using prop_names by auto
  have ln: "length (ascii s) = length s" for s by (simp add: ascii_def)
  have "names_stored ?m 0x40000 296 363 demo_so demo_tree"
    unfolding demo_tree_def using names by (simp add: name_stored_def so ln)
  then show ?thesis using h(1-3) by (simp add: blob_at_def demo_len)
qed

lemma demo_node_ok: "node_ok True demo_tree"
  by (simp add: demo_tree_def ascii_name_def root_prop_ok_def kind_prop_ok_def be_bytes_be_list prop_names)
    (simp add: ascii_def)

lemma demo_kinds:
  "kind_of_name (ascii ''memory@40000000'') = KMemory" "kind_of_name (ascii ''soc'') = KOther"
  "kind_of_name (ascii ''pl011@9000000'') = KUart" "kind_of_name (ascii ''chosen'') = KChosen"
  by (simp_all add: kind_of_name_def has_prefix_def ascii_def)

lemma demo_regs:
  "reg_entries 2 (Suc 0) (be_list 8 0x40000000 @ be_list 4 0x8000000 @ be_list 8 0x80000000 @ be_list 4 0x1000) =
     [\<lparr>base = 0x40000000, length_of = 0x8000000, kind = Available\<rparr>, \<lparr>base = 0x80000000, length_of = 0x1000, kind = Available\<rparr>]"
  by (simp add: reg_entries.simps be_bytes_be_list)

lemma demo_meaning:
  "node_meaning True demo_tree init_tree = Some (init_tree\<lparr>ti_sc := 1,
     ti_mm := [\<lparr>base = 0x40000000, length_of = 0x8000000, kind = Available\<rparr>, \<lparr>base = 0x80000000, length_of = 0x1000, kind = Available\<rparr>],
     ti_info := empty_info\<lparr>uart_base := 0x9000000, initrd_base := 0x44000000, initrd_size := 0x1000\<rparr>\<rparr>)"
  unfolding demo_tree_def
  by (simp add: prop_meaning_def demo_kinds root_prop_def prop_names prop_names[symmetric] init_tree_def be_bytes_be_list demo_regs
      first_addr_def empty_info_def)

theorem device_tree_parse_meaning_witness:
  "device_tree_parse (mem_of 0x40000 demo_blob) 0x40000 = Some (empty_info\<lparr>
     memory_map := [\<lparr>base = 0x40000000, length_of = 0x8000000, kind = Available\<rparr>,
       \<lparr>base = 0x80000000, length_of = 0x1000, kind = Available\<rparr>, \<lparr>base = 0x40000000, length_of = 0x10000, kind = Reserved\<rparr>],
     uart_base := 0x9000000, initrd_base := 0x44000000, initrd_size := 0x1000\<rparr>)"
  using device_tree_parse_meaning[OF demo_blob_at demo_node_ok] unfolding demo_meaning
  by (simp add: tree_boot_info_def rsv_region_def init_tree_def empty_info_def)

end
