(* ===== verification/Spec2Isabelle.thy ===== *)
theory Spec2Isabelle
  imports Kernel_Lib Boot_Info Buddy Memory Page_Tables Page_Walk X86_Paging Aarch64_Paging Vmm Vmm_Inv Vmm_Map Vmm_Fault Vmm_Arch
    Task Run_Queue Sched Futex Signal Cow Cow_Props Clone Sched_Inv Sched_Props
    Ipc Ipc_Props Capability Slab Slab_Props Elf Elf_Props
    Vfs_State Vfs_Files Vfs Vfs_Server Vfs_Pipe Vfs_Inv Vfs_Tmp Vfs_Props Tty Tty_Props
    Boot_Parsers Boot_Props Boot_Tree
begin

text \<open>
  A model of the Cyanos microkernel (\<open>src/\<close>, Rust) and the theorems that make it correct.
\<close>

end
